(* ===== verification/Prelude.thy ===== *)
theory Prelude
  imports Main "HOL-Library.Word"
begin

text \<open>
  Shared vocabulary of the development: C results with faults, C integers as words, error
  numbers, fixed-size character arrays with the string functions the sources call
  (\<open>strlen\<close>, \<open>memcpy\<close>, \<open>strcmp\<close>, \<open>strncmp\<close>, \<open>strstr\<close>, \<open>sprintf\<close>), the kernel's list scan, and the
  generic lemmas every component uses.
\<close>

unbundle bit_operations_syntax

named_theorems cres_simps \<open>evaluation of results that may fault\<close>
named_theorems buf_simps \<open>character arrays and strings\<close>

section \<open>Results and faults\<close>

text \<open>
  A C function either returns a value (\<open>Inr\<close>) or runs into something no C program may do
  (\<open>Inl\<close>): a fault. An error the code handles is a value (a negative error number), not a fault.
\<close>

datatype fault =
    Null_deref          \<comment> \<open>a read or write through NULL\<close>
  | Bad_pointer         \<comment> \<open>a read, write or \<open>kfree\<close> of memory that is not allocated\<close>
  | Buffer_overflow     \<comment> \<open>a read or write past the end of an array\<close>
  | Unterminated        \<comment> \<open>a string function reads past an array without a NUL\<close>
  | Self_deadlock       \<comment> \<open>\<open>mutex_lock\<close> of a mutex the same thread holds\<close>
  | Diverges            \<comment> \<open>a loop that never ends\<close>

type_synonym 'a cres = "fault + 'a"

definition bindE :: "'a cres \<Rightarrow> ('a \<Rightarrow> 'b cres) \<Rightarrow> 'b cres" where
  "bindE m f = (case m of Inl e \<Rightarrow> Inl e | Inr x \<Rightarrow> f x)"

lemma bindE_Inl [simp, cres_simps]: "bindE (Inl e) f = Inl e"
  by (simp add: bindE_def)

lemma bindE_Inr [simp, cres_simps]: "bindE (Inr x) f = f x"
  by (simp add: bindE_def)

lemma bindE_eq_Inr: "bindE m f = Inr y \<longleftrightarrow> (\<exists>x. m = Inr x \<and> f x = Inr y)"
  by (cases m) auto

lemma bindE_InrE:
  assumes "bindE m f = Inr y"
  obtains x where "m = Inr x" and "f x = Inr y"
  using assms by (auto simp: bindE_eq_Inr)

lemma bindE_split: "P (bindE m f) \<longleftrightarrow> (\<forall>e. m = Inl e \<longrightarrow> P (Inl e)) \<and> (\<forall>x. m = Inr x \<longrightarrow> P (f x))"
  by (cases m) auto

text \<open>A loop that may not end returns \<open>None\<close>; the C program then hangs.\<close>

definition run_loop :: "'a cres option \<Rightarrow> 'a cres" where
  "run_loop r = (case r of None \<Rightarrow> Inl Diverges | Some x \<Rightarrow> x)"

lemma run_loop_Some [simp, cres_simps]: "run_loop (Some x) = x"
  by (simp add: run_loop_def)

section \<open>C integers and error numbers\<close>

text \<open>
  \<open>int\<close> and \<open>unsigned int\<close> are 32-bit words, \<open>long\<close>, \<open>unsigned long\<close> and pointers 64-bit
  words (x86-64). \<open>sint\<close> reads a word as signed, \<open>unat\<close> as unsigned.
\<close>

type_synonym cint = "32 word"
type_synonym uint = "32 word"
type_synonym ulong = "64 word"
type_synonym addr = "64 word"

abbreviation ENOMEM :: "'a::len word" where "ENOMEM \<equiv> 12"
abbreviation EFAULT :: "'a::len word" where "EFAULT \<equiv> 14"
abbreviation EINVAL :: "'a::len word" where "EINVAL \<equiv> 22"

lemma sint_small:
  assumes "unat (w :: cint) < 2 ^ 31" shows "sint w = int (unat w)"
proof -
  from assms have "int (unat w) < int (2 ^ 31)" by (simp only: of_nat_less_iff)
  then have "uint w < 2 ^ 31" by simp
  then have "signed_take_bit 31 (uint w) = uint w"
    by (intro signed_take_bit_int_eq_self) (use uint_ge_0 [of w] in linarith)+
  then show ?thesis by (simp add: sint_uint)
qed

text \<open>\<open>IS_ERR\<close>: the last 4095 addresses encode error numbers.\<close>

definition is_err :: "addr \<Rightarrow> bool" where
  "is_err p \<longleftrightarrow> - 4095 \<le> p"

lemma is_err_0 [simp]: "\<not> is_err 0"
  by (simp add: is_err_def)

section \<open>Character arrays and C strings\<close>

text \<open>
  An array of \<open>char\<close> is the list of its elements, NUL included; its length is the size of
  the array. The C string it holds is the part before the first NUL.
\<close>

abbreviation NUL :: char where "NUL \<equiv> CHR 0x00"
abbreviation NL :: char where "NL \<equiv> CHR 0x0A"

definition terminated :: "char list \<Rightarrow> bool" where
  "terminated a \<longleftrightarrow> NUL \<in> set a"

definition c_string :: "char list \<Rightarrow> string" where
  "c_string a = takeWhile (\<lambda>c. c \<noteq> NUL) a"

definition kzalloc_chars :: "nat \<Rightarrow> char list" where
  "kzalloc_chars n = replicate n NUL"

definition strlen :: "char list \<Rightarrow> nat cres" where
  "strlen a = (if terminated a then Inr (length (c_string a)) else Inl Unterminated)"

text \<open>\<open>read_bytes n a\<close>: the first \<open>n\<close> bytes of an array, as \<open>memcpy\<close> reads them.\<close>

definition read_bytes :: "nat \<Rightarrow> char list \<Rightarrow> char list cres" where
  "read_bytes n a = (if n \<le> length a then Inr (take n a) else Inl Buffer_overflow)"

text \<open>\<open>write_at k src dst\<close>: the array \<open>dst\<close> after the bytes \<open>src\<close> are stored from index \<open>k\<close>.\<close>

definition write_at :: "nat \<Rightarrow> char list \<Rightarrow> char list \<Rightarrow> char list cres" where
  "write_at k src dst =
     (if k + length src \<le> length dst
      then Inr (take k dst @ src @ drop (k + length src) dst)
      else Inl Buffer_overflow)"

text \<open>\<open>strcat(dst, src)\<close> for a string \<open>src\<close>: its characters and a NUL after the string in \<open>dst\<close>.\<close>

definition strcat :: "char list \<Rightarrow> string \<Rightarrow> char list cres" where
  "strcat dst src = bindE (strlen dst) (\<lambda>n. write_at n (src @ [NUL]) dst)"

text \<open>\<open>strcmp(a, b) == 0\<close>, reading both arrays up to the first difference or NUL.\<close>

fun strcmp_eq :: "char list \<Rightarrow> char list \<Rightarrow> bool cres" where
  "strcmp_eq (a # as) (b # bs) =
     (if a \<noteq> b then Inr False else if a = NUL then Inr True else strcmp_eq as bs)"
| "strcmp_eq _ _ = Inl Unterminated"

text \<open>\<open>strncmp(a, b, n) == 0\<close>.\<close>

fun strncmp_eq :: "char list \<Rightarrow> char list \<Rightarrow> nat \<Rightarrow> bool cres" where
  "strncmp_eq as bs 0 = Inr True"
| "strncmp_eq (a # as) (b # bs) (Suc n) =
     (if a \<noteq> b then Inr False else if a = NUL then Inr True else strncmp_eq as bs n)"
| "strncmp_eq _ _ _ = Inl Unterminated"

text \<open>\<open>strstr(h, n) != NULL\<close> on the strings: does \<open>n\<close> occur in \<open>h\<close>?\<close>

fun is_prefix :: "string \<Rightarrow> string \<Rightarrow> bool" where
  "is_prefix [] ys = True"
| "is_prefix (x # xs) (y # ys) = (x = y \<and> is_prefix xs ys)"
| "is_prefix (x # xs) [] = False"

fun strstr :: "string \<Rightarrow> string \<Rightarrow> bool" where
  "strstr [] n = is_prefix n []"
| "strstr (c # h) n = (is_prefix n (c # h) \<or> strstr h n)"

lemma is_prefix_iff: "is_prefix xs ys \<longleftrightarrow> (\<exists>zs. ys = xs @ zs)"
  by (induction xs ys rule: is_prefix.induct) auto

lemma strstr_iff: "strstr h n \<longleftrightarrow> (\<exists>ps ss. h = ps @ n @ ss)"
proof (induction h)
  case Nil
  then show ?case by (auto simp: is_prefix_iff)
next
  case (Cons c h)
  have "(\<exists>ps ss. c # h = ps @ n @ ss) \<longleftrightarrow> (\<exists>ss. c # h = n @ ss) \<or> (\<exists>ps ss. h = ps @ n @ ss)"
    by (metis append_Cons append_Nil list.exhaust list.sel(3))
  with Cons show ?case by (simp add: is_prefix_iff)
qed

lemma terminated_append [simp, buf_simps]: "terminated (a @ b) \<longleftrightarrow> terminated a \<or> terminated b"
  by (auto simp: terminated_def)

lemma terminated_Cons [simp, buf_simps]: "terminated (c # a) \<longleftrightarrow> c = NUL \<or> terminated a"
  by (auto simp: terminated_def)

lemma terminated_Nil [simp, buf_simps]: "\<not> terminated []"
  by (simp add: terminated_def)

lemma terminated_replicate [simp, buf_simps]: "terminated (replicate n NUL) \<longleftrightarrow> 0 < n"
  by (simp add: terminated_def)

lemma c_string_Cons [simp, buf_simps]:
  "c_string (c # a) = (if c = NUL then [] else c # c_string a)"
  by (simp add: c_string_def)

lemma c_string_Nil [simp, buf_simps]: "c_string [] = []"
  by (simp add: c_string_def)

lemma c_string_no_NUL [simp]: "NUL \<notin> set (c_string a)"
  using set_takeWhileD by (fastforce simp: c_string_def)

lemma c_string_append_terminated: "NUL \<notin> set s \<Longrightarrow> c_string (s @ a) = s @ c_string a"
  by (induction s) auto

lemma c_string_replicate [simp, buf_simps]: "c_string (replicate n NUL) = []"
  by (cases n) auto

lemma c_string_nul_terminated [simp]: "NUL \<notin> set s \<Longrightarrow> c_string (s @ NUL # a) = s"
  by (simp add: c_string_append_terminated)

lemma length_c_string_less: "terminated a \<Longrightarrow> length (c_string a) < length a"
  by (induction a) (auto simp: terminated_def c_string_def)

lemma take_c_string: "take (length (c_string a)) a = c_string a"
  by (induction a) auto

lemma strcmp_eq_iff: "terminated a \<Longrightarrow> terminated b \<Longrightarrow> strcmp_eq a b = Inr (c_string a = c_string b)"
  by (induction a b rule: strcmp_eq.induct) auto

lemma length_write_at: "write_at k src dst = Inr dst' \<Longrightarrow> length dst' = length dst"
  by (auto simp: write_at_def split: if_splits)

lemma write_at_append:
  "write_at (length p) t (p @ q) =
     (if length t \<le> length q then Inr (p @ t @ drop (length t) q) else Inl Buffer_overflow)"
  by (simp add: write_at_def)

lemma write_at_append_0:
  "write_at 0 t q = (if length t \<le> length q then Inr (t @ drop (length t) q) else Inl Buffer_overflow)"
  by (simp add: write_at_def)

lemma read_bytes_append [simp]: "read_bytes (length p) (p @ q) = Inr p"
  by (simp add: read_bytes_def)

subsection \<open>Decimal numbers, as \<open>sprintf\<close> prints them\<close>

definition digit :: "nat \<Rightarrow> char" where
  "digit d = ''0123456789'' ! d"

fun dec_digits :: "nat \<Rightarrow> string" where
  "dec_digits n = (if n < 10 then [digit n] else dec_digits (n div 10) @ [digit (n mod 10)])"

declare dec_digits.simps [simp del]

definition sprintf_lu :: "ulong \<Rightarrow> string" where
  "sprintf_lu n = dec_digits (unat n)"

definition sprintf_d :: "cint \<Rightarrow> string" where
  "sprintf_d n =
     (if sint n < 0 then CHR ''-'' # dec_digits (nat (- sint n)) else dec_digits (nat (sint n)))"

text \<open>Storing a printed string, with its NUL, into an array of \<open>size\<close> bytes.\<close>

definition sprintf_fits :: "nat \<Rightarrow> string \<Rightarrow> string cres" where
  "sprintf_fits sz s = (if length s + 1 \<le> sz then Inr s else Inl Buffer_overflow)"

lemma digit_in_digits: "d < 10 \<Longrightarrow> digit d \<in> set ''0123456789''"
  unfolding digit_def by (rule nth_mem) simp

lemma dec_digits_chars: "set (dec_digits n) \<subseteq> set ''0123456789''"
proof (induction n rule: dec_digits.induct)
  case (1 n)
  show ?case
  proof (cases "n < 10")
    case True
    then show ?thesis using digit_in_digits by (subst dec_digits.simps) simp
  next
    case False
    then have "set (dec_digits (n div 10)) \<subseteq> set ''0123456789''" by (rule "1.IH")
    moreover have "digit (n mod 10) \<in> set ''0123456789''" by (rule digit_in_digits) simp
    ultimately show ?thesis using False by (subst dec_digits.simps) simp
  qed
qed

lemma dec_digits_no_NUL: "NUL \<notin> set (dec_digits n)"
  and dec_digits_no_NL: "NL \<notin> set (dec_digits n)"
  using dec_digits_chars [of n] by auto

lemma dec_digits_nonempty: "dec_digits n \<noteq> []"
  by (subst dec_digits.simps) simp

lemma length_dec_digits: "n < 10 ^ k \<Longrightarrow> 0 < k \<Longrightarrow> length (dec_digits n) \<le> k"
proof (induction k arbitrary: n)
  case 0
  then show ?case by simp
next
  case (Suc k)
  show ?case
  proof (cases "n < 10")
    case True
    then show ?thesis by (subst dec_digits.simps) simp
  next
    case False
    with Suc.prems have "n div 10 < 10 ^ k" and "0 < k"
      by (auto simp: div_less_iff_less_mult mult.commute intro: Suc_lessI gr0I)
    then have "length (dec_digits (n div 10)) \<le> k" by (rule Suc.IH)
    with False show ?thesis by (subst dec_digits.simps) simp
  qed
qed

lemma sint_cint_bound: "nat \<bar>sint (n :: cint)\<bar> < 10 ^ 10"
proof -
  have "- (2 ^ 31) \<le> sint n" and "sint n < 2 ^ 31"
    using sint_greater_eq [of n] sint_less [of n] by simp_all
  then show ?thesis by simp
qed

lemma length_sprintf_d: "length (sprintf_d n) \<le> 11"
  using length_dec_digits [of "nat (- sint n)" 10] length_dec_digits [of "nat (sint n)" 10]
    sint_cint_bound [of n] by (auto simp: sprintf_d_def)

lemma sprintf_d_chars: "NUL \<notin> set (sprintf_d n)" "NL \<notin> set (sprintf_d n)"
  by (simp_all add: sprintf_d_def dec_digits_no_NUL dec_digits_no_NL)

lemma sprintf_lu_chars: "NUL \<notin> set (sprintf_lu n)" "NL \<notin> set (sprintf_lu n)"
  by (simp_all add: sprintf_lu_def dec_digits_no_NUL dec_digits_no_NL)

lemma strcat_fresh:
  assumes "NUL \<notin> set p" and "NUL \<notin> set t" and "n = length p + length t + 1"
  shows "bindE (write_at 0 p (kzalloc_chars n)) (\<lambda>d. strcat d t) = Inr (p @ t @ [NUL])"
proof -
  have "write_at 0 p (kzalloc_chars n) = Inr (p @ NUL # replicate (length t) NUL)"
    using assms(3) by (simp add: write_at_append_0 kzalloc_chars_def flip: replicate_Suc)
  moreover have "strlen (p @ NUL # replicate (length t) NUL) = Inr (length p)"
    using assms(1) by (simp add: strlen_def)
  moreover have "write_at (length p) (t @ [NUL]) (p @ NUL # replicate (length t) NUL) = Inr (p @ t @ [NUL])"
    by (simp add: write_at_append)
  ultimately show ?thesis by (simp add: strcat_def)
qed

section \<open>The kernel's list scan\<close>

text \<open>
  \<open>list_for_each_entry (p, head, member) if (test p) { flag = 1; break; }\<close>: the index of
  the first node that passes the test, \<open>None\<close> when the loop runs off the list. A test may fault.
\<close>

fun list_scan :: "('a \<Rightarrow> bool cres) \<Rightarrow> 'a list \<Rightarrow> nat option cres" where
  "list_scan t [] = Inr None"
| "list_scan t (x # xs) =
     bindE (t x) (\<lambda>hit. if hit then Inr (Some 0)
       else bindE (list_scan t xs) (\<lambda>r. Inr (map_option Suc r)))"

text \<open>The same with a test that cannot fault, and the update of the node found.\<close>

fun first_index :: "('a \<Rightarrow> bool) \<Rightarrow> 'a list \<Rightarrow> nat option" where
  "first_index P [] = None"
| "first_index P (x # xs) = (if P x then Some 0 else map_option Suc (first_index P xs))"

lemma list_scan_first_index:
  "\<forall>x \<in> set xs. t x = Inr (P x) \<Longrightarrow> list_scan t xs = Inr (first_index P xs)"
  by (induction xs) auto

lemma list_scan_Inr [simp]: "list_scan (\<lambda>x. Inr (P x)) xs = Inr (first_index P xs)"
  by (rule list_scan_first_index) simp

lemma first_index_None: "first_index P xs = None \<longleftrightarrow> (\<forall>x \<in> set xs. \<not> P x)"
  by (induction xs) auto

lemma first_index_map: "first_index P (map f xs) = first_index (P \<circ> f) xs"
  by (induction xs) simp_all

lemma first_index_Some:
  "first_index P xs = Some i \<longleftrightarrow> i < length xs \<and> P (xs ! i) \<and> (\<forall>j < i. \<not> P (xs ! j))"
proof (induction xs arbitrary: i)
  case Nil
  then show ?case by simp
next
  case (Cons x xs)
  then show ?case by (cases i) (auto simp: less_Suc_eq_0_disj)
qed

lemma first_index_bound: "first_index P xs = Some i \<Longrightarrow> i < length xs"
  by (simp add: first_index_Some)

lemma first_index_hit: "first_index P xs = Some i \<Longrightarrow> P (xs ! i)"
  by (simp add: first_index_Some)

lemma first_index_update:
  assumes "\<And>x. x \<in> set xs \<Longrightarrow> P (f x) \<longleftrightarrow> P x" and "i < length xs"
  shows "first_index P (xs[i := f (xs ! i)]) = first_index P xs"
  using assms
proof (induction xs arbitrary: i)
  case Nil
  then show ?case by simp
next
  case (Cons x xs)
  then show ?case by (cases i) auto
qed

text \<open>The first match for each key, as a map; what an update of the node found does to it.\<close>

lemma map_of_first_index:
  "map_of (map (\<lambda>x. (f x, g x)) xs) k =
   map_option (\<lambda>i. g (xs ! i)) (first_index (\<lambda>x. f x = k) xs)"
  by (induction xs) (auto simp: option.map_comp comp_def)

lemma map_of_update_first:
  assumes "first_index (\<lambda>x. f x = k) xs = Some i" and "f y = k"
  shows "map_of (map (\<lambda>x. (f x, g x)) (xs[i := y])) =
    (map_of (map (\<lambda>x. (f x, g x)) xs))(k \<mapsto> g y)"
  using assms
proof (induction xs arbitrary: i)
  case Nil
  then show ?case by simp
next
  case (Cons x xs)
  then show ?case by (cases i) (auto split: if_splits simp: fun_upd_twist)
qed

lemma restrict_upd_None: "(m(a := None)) |` A = (m |` A)(a := None)"
  by (rule ext) (simp only: restrict_map_def fun_upd_apply if_cancel split: if_split, simp)

lemma upd_None_idem: "m a = None \<Longrightarrow> (m(a \<mapsto> b))(a := None) = m"
  by (rule ext) simp

text \<open>Taking one node off a list (\<open>list_del\<close>).\<close>

definition list_del :: "nat \<Rightarrow> 'a list \<Rightarrow> 'a list" where
  "list_del i xs = take i xs @ drop (Suc i) xs"

lemma list_del_0 [simp]: "list_del 0 (x # xs) = xs"
  by (simp add: list_del_def)

lemma list_del_Suc [simp]: "list_del (Suc i) (x # xs) = x # list_del i xs"
  by (simp add: list_del_def)

lemma list_del_map: "list_del i (map f xs) = map f (list_del i xs)"
  by (simp add: list_del_def take_map drop_map)

lemma set_list_del: "set (list_del i xs) \<subseteq> set xs"
  by (auto simp: list_del_def dest: in_set_takeD in_set_dropD)

lemma length_list_del: "i < length xs \<Longrightarrow> length (list_del i xs) = length xs - 1"
  by (simp add: list_del_def)

lemma distinct_list_del:
  assumes "distinct xs" and "i < length xs"
  shows "distinct (list_del i xs)" and "set (list_del i xs) = set xs - {xs ! i}"
proof -
  have e: "xs = take i xs @ xs ! i # drop (Suc i) xs"
    using assms(2) by (simp add: id_take_nth_drop)
  then have d: "distinct (take i xs @ xs ! i # drop (Suc i) xs)" using assms(1) by metis
  then show "distinct (list_del i xs)" by (simp add: list_del_def)
  have "set xs = set (take i xs @ xs ! i # drop (Suc i) xs)" using e by metis
  with d show "set (list_del i xs) = set xs - {xs ! i}" by (auto simp: list_del_def)
qed

lemma sum_list_update_group:
  "i < length xs \<Longrightarrow>
   sum_list (map g (xs[i := y])) = sum_list (map g xs) - g (xs ! i) + (g y :: 'b::ab_group_add)"
  by (induction xs arbitrary: i) (auto simp: algebra_simps split: nat.splits)

lemma sum_list_del_group:
  "i < length xs \<Longrightarrow>
   sum_list (map g (list_del i xs)) = sum_list (map g xs) - (g (xs ! i) :: 'b::ab_group_add)"
proof (induction xs arbitrary: i)
  case Nil
  then show ?case by simp
next
  case (Cons x xs)
  then show ?case by (cases i) (auto simp: algebra_simps)
qed

lemma sint_of_nat: "n < 2 ^ 31 \<Longrightarrow> sint (of_nat n :: 32 word) = int n"
proof -
  assume "n < 2 ^ 31"
  then have "signed_take_bit 31 (int n) = int n" by (intro signed_take_bit_int_eq_self) simp_all
  then show ?thesis using signed_of_int [of "int n", where ?'b = 32, where ?'a = int] by simp
qed

end
