(* ===== verification/Kernel.thy ===== *)
theory Kernel
  imports Prelude
begin

text \<open>
  What the modules share of the kernel: the kernel heap with \<open>kmalloc\<close>, \<open>kzalloc\<close> and \<open>kfree\<close>,
  the log of \<open>try_module_get\<close> and \<open>module_put\<close> calls, and the two structures of
  \<open>vector_struct.h\<close>. The allocator itself is not part of the sources: it is the parameter
  \<open>km\<close> of every definition that allocates, and \<open>allocator_ok\<close> and \<open>roomy\<close> state what
  the kernel documents of it.
\<close>

section \<open>Data of \<open>vector_struct.h\<close>\<close>

text \<open>The loadable modules of the Makefile (\<open>THIS_MODULE\<close> pointers).\<close>

datatype kmodule =
  Mod_ioctl_module | Mod_vector1 | Mod_vector2 | Mod_sys_clone2 | Mod_dynamic_vector
  | Mod_vec_copy

text \<open>The system calls that can be overridden (\<open>__NR_read\<close> and so on).\<close>

datatype sysnr =
  NR_read | NR_write | NR_open | NR_close | NR_link | NR_unlink | NR_mkdir | NR_rmdir

text \<open>The functions of \<open>overridden_syscalls.c\<close>, as function pointers.\<close>

datatype sys_call_ptr =
    OverriddenRead | OverriddenWrite | OverriddenOpen | OverriddenClose | OverriddenLink
  | OverriddenUnlink | OverriddenMkdir | OverriddenRmdir | BlockedOpen | LoggedWrite

record overriddenSyscall =
  NR_syscall :: sysnr
  funcPtr :: sys_call_ptr
  syscallTablePtr :: addr
  nextSyscall :: addr

text \<open>
  \<open>struct struct_vector\<close>; \<open>node_ptr\<close> is the address \<open>kzalloc\<close> gave the node, and the
  \<open>nextVector\<close> link is the position in the list that holds the node.
\<close>

record struct_vector =
  node_ptr :: addr
  vector_id :: ulong
  vector_name :: "char list"
  overriddenSyscalls_address :: addr
  refcount :: cint
  overfuncs_bitmap :: uint
  vector_module :: kmodule

definition MAX_VECTOR_NAME_LEN :: nat where "MAX_VECTOR_NAME_LEN = 256"
definition MAX_BUFFER_SIZE :: nat where "MAX_BUFFER_SIZE = 1024"

section \<open>The kernel heap\<close>

datatype block =
    Syscall_node overriddenSyscall
  | Vector_node           \<comment> \<open>a \<open>struct struct_vector\<close>; its contents are in the list that links it\<close>
  | Raw nat               \<comment> \<open>a buffer of that many bytes\<close>

type_synonym heap = "addr \<rightharpoonup> block"

datatype mod_event = Module_get kmodule | Module_put kmodule

record kmem =
  heap :: heap
  tick :: nat                   \<comment> \<open>number of allocations asked for so far\<close>
  mod_log :: "mod_event list"   \<comment> \<open>latest call first\<close>

type_synonym allocator = "nat \<Rightarrow> heap \<Rightarrow> addr"

text \<open>
  The kernel's allocator: the \<open>n\<close>-th request against a heap returns NULL or the address of memory
  that is not in use, never an error pointer.
\<close>

definition allocator_ok :: "allocator \<Rightarrow> bool" where
  "allocator_ok km \<longleftrightarrow> (\<forall>n h. km n h \<noteq> 0 \<longrightarrow> h (km n h) = None \<and> \<not> is_err (km n h))"

text \<open>Requests succeed as long as at most \<open>b\<close> blocks are in use.\<close>

definition roomy :: "nat \<Rightarrow> allocator \<Rightarrow> bool" where
  "roomy b km \<longleftrightarrow> (\<forall>n h. card (dom h) \<le> b \<longrightarrow> km n h \<noteq> 0)"

definition kmalloc :: "allocator \<Rightarrow> block \<Rightarrow> 'a kmem_scheme \<Rightarrow> addr \<times> 'a kmem_scheme" where
  "kmalloc km b s =
     (let a = km (tick s) (heap s); s' = s\<lparr>tick := Suc (tick s)\<rparr>
      in if a = 0 \<or> is_err a then (a, s') else (a, s'\<lparr>heap := (heap s)(a \<mapsto> b)\<rparr>))"

definition kfree :: "addr \<Rightarrow> 'a kmem_scheme \<Rightarrow> 'a kmem_scheme cres" where
  "kfree a s =
     (if a = 0 then Inr s
      else if heap s a = None then Inl Bad_pointer
      else Inr (s\<lparr>heap := (heap s)(a := None)\<rparr>))"

definition node_at :: "heap \<Rightarrow> addr \<Rightarrow> overriddenSyscall cres" where
  "node_at h p =
     (if p = 0 then Inl Null_deref
      else case h p of Some (Syscall_node n) \<Rightarrow> Inr n | _ \<Rightarrow> Inl Bad_pointer)"

definition try_module_get :: "kmodule \<Rightarrow> 'a kmem_scheme \<Rightarrow> 'a kmem_scheme" where
  "try_module_get m s = s\<lparr>mod_log := Module_get m # mod_log s\<rparr>"

definition module_put :: "kmodule \<Rightarrow> 'a kmem_scheme \<Rightarrow> 'a kmem_scheme" where
  "module_put m s = s\<lparr>mod_log := Module_put m # mod_log s\<rparr>"

text \<open>References the log leaves on a module: gets minus puts.\<close>

fun module_refs :: "kmodule \<Rightarrow> mod_event list \<Rightarrow> int" where
  "module_refs m [] = 0"
| "module_refs m (Module_get k # l) = module_refs m l + (if k = m then 1 else 0)"
| "module_refs m (Module_put k # l) = module_refs m l - (if k = m then 1 else 0)"

section \<open>Lemmas\<close>

lemma allocator_okD:
  "allocator_ok km \<Longrightarrow> km n h \<noteq> 0 \<Longrightarrow> h (km n h) = None"
  "allocator_ok km \<Longrightarrow> \<not> is_err (km n h)"
  by (force simp: allocator_ok_def)+

lemma kmalloc_ok:
  assumes "allocator_ok km"
  shows "kmalloc km b s =
    (let a = km (tick s) (heap s)
     in (a, if a = 0 then s\<lparr>tick := Suc (tick s)\<rparr>
            else s\<lparr>tick := Suc (tick s), heap := (heap s)(a \<mapsto> b)\<rparr>))"
  using allocator_okD(2) [OF assms] by (simp add: kmalloc_def Let_def)

lemma node_at_Inr: "node_at h p = Inr n \<longleftrightarrow> p \<noteq> 0 \<and> h p = Some (Syscall_node n)"
  by (auto simp: node_at_def split: option.splits block.splits)

lemma kfree_live: "a \<noteq> 0 \<Longrightarrow> heap s a \<noteq> None \<Longrightarrow> kfree a s = Inr (s\<lparr>heap := (heap s)(a := None)\<rparr>)"
  by (auto simp: kfree_def)

lemma kfree_fresh:
  assumes "a \<noteq> 0" and "heap s a = None"
  shows "kfree a (s\<lparr>tick := n, heap := (heap s)(a \<mapsto> b)\<rparr>) = Inr (s\<lparr>tick := n\<rparr>)"
proof -
  have "(heap s)(a := None) = heap s" using assms(2) by (rule fun_upd_idem)
  with assms(1) show ?thesis by (cases s) (simp add: kfree_def)
qed

lemma kfree_0 [simp]: "kfree 0 s = Inr s"
  by (simp add: kfree_def)

lemma mod_frame [simp]:
  "heap (try_module_get m s) = heap s" "tick (try_module_get m s) = tick s"
  "heap (module_put m s) = heap s" "tick (module_put m s) = tick s"
  "mod_log (try_module_get m s) = Module_get m # mod_log s"
  "mod_log (module_put m s) = Module_put m # mod_log s"
  by (simp_all add: try_module_get_def module_put_def)

subsection \<open>An allocator for concrete runs\<close>

text \<open>The first free one of the addresses 16, 32, ..., up to \<open>b + 1\<close> of them.\<close>

definition arena :: "nat \<Rightarrow> addr list" where
  "arena b = map (\<lambda>k. of_nat (16 * Suc k)) [0..<Suc b]"

definition arena_km :: "nat \<Rightarrow> allocator" where
  "arena_km b n h = (case find (\<lambda>a. h a = None) (arena b) of None \<Rightarrow> 0 | Some a \<Rightarrow> a)"

lemma unat_arena: "k < 2 ^ 32 \<Longrightarrow> unat (of_nat (16 * Suc k) :: addr) = 16 * Suc k"
  unfolding unat_of_nat by simp

lemma arena_bound:
  assumes "b < 2 ^ 32" and "a \<in> set (arena b)"
  shows "a \<noteq> 0" and "\<not> is_err a"
proof -
  from assms obtain k where k: "a = of_nat (16 * Suc k)" "k < 2 ^ 32"
    by (auto simp: arena_def)
  then have u: "unat a = 16 * Suc k" using unat_arena by simp
  then show "a \<noteq> 0" by auto
  have "unat (- 4095 :: addr) = 18446744073709547521" by simp
  with u k(2) show "\<not> is_err a" by (simp add: is_err_def word_le_nat_alt)
qed

lemma distinct_arena:
  assumes "b < 2 ^ 32" shows "distinct (arena b)"
proof -
  have "inj_on (\<lambda>k. of_nat (16 * Suc k) :: addr) {0..<Suc b}"
  proof (rule inj_onI)
    fix j k assume "j \<in> {0..<Suc b}" "k \<in> {0..<Suc b}"
      and eq: "(of_nat (16 * Suc j) :: addr) = of_nat (16 * Suc k)"
    with assms have "j < 2 ^ 32" "k < 2 ^ 32" by auto
    with eq show "j = k" using unat_arena [of j] unat_arena [of k] by simp
  qed
  then show ?thesis unfolding arena_def distinct_map by (simp del: upt_Suc of_nat_Suc of_nat_mult)
qed

lemma arena_km_ok: "b < 2 ^ 32 \<Longrightarrow> allocator_ok (arena_km b)"
  unfolding allocator_ok_def arena_km_def
  using arena_bound(2) by (auto simp: find_Some_iff in_set_conv_nth split: option.splits)

lemma arena_km_roomy:
  assumes "b < 2 ^ 32" shows "roomy b (arena_km b)"
  unfolding roomy_def
proof (intro allI impI)
  fix n :: nat and h :: heap
  assume small: "card (dom h) \<le> b"
  have "\<exists>a \<in> set (arena b). h a = None"
  proof (rule ccontr)
    assume "\<not> ?thesis"
    then have "set (arena b) \<subseteq> dom h" by auto
    then have "card (set (arena b)) \<le> card (dom h)" by (simp add: card_mono)
    moreover have "card (set (arena b)) = Suc b"
      using distinct_card [OF distinct_arena [OF assms]] by (simp add: arena_def)
    ultimately show False using small by simp
  qed
  then have "find (\<lambda>a. h a = None) (arena b) \<noteq> None"
    unfolding find_None_iff by blast
  then obtain a where a: "find (\<lambda>a. h a = None) (arena b) = Some a" by blast
  then have "a \<in> set (arena b)" by (auto simp: find_Some_iff)
  with a show "arena_km b n h \<noteq> 0"
    using arena_bound(1) [OF assms] by (simp add: arena_km_def)
qed

end
