(* ===== verification/Ref_Counting.thy ===== *)
theory Ref_Counting
  imports Kernel
begin

text \<open>
  The contract between the registry of vectors and its clients: a lookup that takes a reference
  and a release that gives it back. The interface is stated once, over an abstract view (key to
  address and count); the registry operations of \<open>vec_load_unload.c\<close> and of \<open>vec_copy.c\<close> are
  interpretations of it, by name, by address and by bitmap.
\<close>

text \<open>Run an operation \<open>n\<close> times, dropping its results.\<close>

fun times_op :: "nat \<Rightarrow> ('s \<Rightarrow> ('r \<times> 's) cres) \<Rightarrow> 's \<Rightarrow> 's cres" where
  "times_op 0 f s = Inr s"
| "times_op (Suc n) f s = bindE (f s) (\<lambda>(_, s'). times_op n f s')"

locale ref_acquire =
  fixes invar :: "'s \<Rightarrow> bool"
    and valid :: "'q \<Rightarrow> bool"
    and key :: "'q \<Rightarrow> 'k"
    and view :: "'s \<Rightarrow> 'k \<Rightarrow> (addr \<times> cint) option"
    and acquire :: "'q \<Rightarrow> 's \<Rightarrow> ('r \<times> 's) cres"
    and hit :: "addr \<Rightarrow> 'r"
    and miss :: "'r"
  assumes acquire_hit: "invar s \<Longrightarrow> valid q \<Longrightarrow> view s (key q) = Some (a, r) \<Longrightarrow>
      \<exists>s'. acquire q s = Inr (hit a, s') \<and> invar s' \<and> view s' = (view s)(key q \<mapsto> (a, r + 1))"
    and acquire_miss: "invar s \<Longrightarrow> valid q \<Longrightarrow> view s (key q) = None \<Longrightarrow>
      acquire q s = Inr (miss, s)"
begin

lemma acquire_total:
  assumes "invar s" and "valid q"
  obtains r s' where "acquire q s = Inr (r, s')" and "invar s'" and "dom (view s') = dom (view s)"
proof (cases "view s (key q)")
  case None
  with assms that acquire_miss show ?thesis by blast
next
  case (Some x)
  obtain a r where x: "x = (a, r)" by (cases x)
  from acquire_hit [OF assms Some [unfolded x]] obtain s'
    where "acquire q s = Inr (hit a, s')" "invar s'" "view s' = (view s)(key q \<mapsto> (a, r + 1))" by blast
  with Some that show ?thesis by (auto simp: insert_absorb domI)
qed

lemma acquire_other:
  assumes "invar s" and "valid q" and "acquire q s = Inr (r, s')" and "k \<noteq> key q"
  shows "view s' k = view s k"
proof (cases "view s (key q)")
  case None
  with assms acquire_miss have "acquire q s = Inr (miss, s)" by blast
  with assms(3) show ?thesis by simp
next
  case (Some x)
  obtain a c where x: "x = (a, c)" by (cases x)
  from acquire_hit [OF assms(1,2) Some [unfolded x]] assms(3)
  have "view s' = (view s)(key q \<mapsto> (a, c + 1))" by auto
  with assms(4) show ?thesis by simp
qed

lemma acquire_many:
  assumes "invar s" and "valid q" and "view s (key q) = Some (a, r)"
  shows "\<exists>s'. times_op n (acquire q) s = Inr s' \<and> invar s'
    \<and> view s' = (view s)(key q \<mapsto> (a, r + of_nat n))"
  using assms
proof (induction n arbitrary: s r)
  case 0
  then show ?case by (simp add: fun_upd_idem)
next
  case (Suc n)
  from acquire_hit [OF Suc.prems] obtain s1
    where s1: "acquire q s = Inr (hit a, s1)" "invar s1" "view s1 = (view s)(key q \<mapsto> (a, r + 1))"
    by blast
  then have "view s1 (key q) = Some (a, r + 1)" by simp
  from Suc.IH [OF s1(2) Suc.prems(2) this] obtain s'
    where "times_op n (acquire q) s1 = Inr s'" "invar s'"
      "view s' = (view s1)(key q \<mapsto> (a, r + 1 + of_nat n))" by blast
  with s1 show ?case by (auto simp: add.assoc)
qed

end

locale ref_counted = ref_acquire +
  fixes release :: "'q \<Rightarrow> 's \<Rightarrow> (cint \<times> 's) cres"
  assumes release_hit: "invar s \<Longrightarrow> valid q \<Longrightarrow> view s (key q) = Some (a, r) \<Longrightarrow>
      \<exists>s'. release q s = Inr (r - 1, s') \<and> invar s' \<and> view s' = (view s)(key q \<mapsto> (a, r - 1))"
    and release_miss: "invar s \<Longrightarrow> valid q \<Longrightarrow> view s (key q) = None \<Longrightarrow>
      release q s = Inr (- 1, s)"
begin

lemma acquire_release:
  assumes "invar s" and "valid q" and "view s (key q) = Some (a, r)"
  shows "\<exists>s1 s2. acquire q s = Inr (hit a, s1) \<and> release q s1 = Inr (r, s2)
    \<and> invar s2 \<and> view s2 = view s"
proof -
  from acquire_hit [OF assms] obtain s1
    where s1: "acquire q s = Inr (hit a, s1)" "invar s1" "view s1 = (view s)(key q \<mapsto> (a, r + 1))"
    by blast
  then have "view s1 (key q) = Some (a, r + 1)" by simp
  from release_hit [OF s1(2) assms(2) this] obtain s2
    where "release q s1 = Inr (r, s2)" "invar s2" "view s2 = (view s1)(key q \<mapsto> (a, r))"
    by auto
  with s1 assms(3) show ?thesis by (auto simp: fun_upd_idem)
qed

lemma release_many:
  assumes "invar s" and "valid q" and "view s (key q) = Some (a, r)"
  shows "\<exists>s'. times_op n (release q) s = Inr s' \<and> invar s'
    \<and> view s' = (view s)(key q \<mapsto> (a, r - of_nat n))"
  using assms
proof (induction n arbitrary: s r)
  case 0
  then show ?case by (simp add: fun_upd_idem)
next
  case (Suc n)
  from release_hit [OF Suc.prems] obtain s1
    where s1: "release q s = Inr (r - 1, s1)" "invar s1" "view s1 = (view s)(key q \<mapsto> (a, r - 1))"
    by blast
  then have "view s1 (key q) = Some (a, r - 1)" by simp
  from Suc.IH [OF s1(2) Suc.prems(2) this] obtain s'
    where "times_op n (release q) s1 = Inr s'" "invar s'"
      "view s' = (view s1)(key q \<mapsto> (a, r - 1 - of_nat n))" by blast
  with s1 show ?case by (auto simp: algebra_simps)
qed

lemma acquire_release_many:
  assumes "invar s" and "valid q" and "view s (key q) = Some (a, r)"
  shows "\<exists>s1 s2. times_op n (acquire q) s = Inr s1 \<and> times_op n (release q) s1 = Inr s2
    \<and> invar s2 \<and> view s2 = view s"
proof -
  from acquire_many [OF assms] obtain s1
    where s1: "times_op n (acquire q) s = Inr s1" "invar s1"
      "view s1 = (view s)(key q \<mapsto> (a, r + of_nat n))" by blast
  then have "view s1 (key q) = Some (a, r + of_nat n)" by simp
  from release_many [OF s1(2) assms(2) this, of n] s1 assms(3) show ?thesis
    by (auto simp: fun_upd_idem)
qed

lemma release_underflow:
  assumes "invar s" and "valid q" and "view s (key q) = Some (a, 0)"
  shows "\<exists>s'. release q s = Inr (- 1, s') \<and> view s' (key q) = Some (a, - 1)"
  using release_hit [OF assms] by auto

end

end
