(* ===== verification/Vec_Registry.thy ===== *)
theory Vec_Registry
  imports Ref_Counting
begin

text \<open>
  The registry of vectors, \<open>vec_load_unload.c\<close>: the list of registered vectors under the mutex
  \<open>list_lock\<close>, registration and removal, the lookups that take a reference, and the printing of
  the list. Every operation is a function of the state record; a lookup that reads past an
  unterminated name, an overflowing buffer or a second lock of the held mutex is a fault.
\<close>

section \<open>State and helpers\<close>

record registry = kmem +
  vec_list :: "struct_vector list"
  list_lock :: bool

definition mutex_lock_list :: "'a registry_scheme \<Rightarrow> 'a registry_scheme cres" where
  "mutex_lock_list s = (if list_lock s then Inl Self_deadlock else Inr (s\<lparr>list_lock := True\<rparr>))"

definition mutex_unlock_list :: "'a registry_scheme \<Rightarrow> 'a registry_scheme" where
  "mutex_unlock_list s = s\<lparr>list_lock := False\<rparr>"

text \<open>\<open>datastructureptr->refcount = datastructureptr->refcount + d\<close> at the node found.\<close>

definition add_refcount :: "nat \<Rightarrow> cint \<Rightarrow> 'a registry_scheme \<Rightarrow> 'a registry_scheme" where
  "add_refcount i d s =
     s\<lparr>vec_list := (vec_list s)[i := (vec_list s ! i)\<lparr>refcount := refcount (vec_list s ! i) + d\<rparr>]\<rparr>"

section \<open>Printing the list\<close>

text \<open>One line: \<open>memcpy(current_ptr, text, len); current_ptr[len] = '\n'\<close>, then move on.\<close>

definition emit_line :: "string \<Rightarrow> nat \<times> char list \<Rightarrow> (nat \<times> char list) cres" where
  "emit_line t = (\<lambda>(pos, buf).
     bindE (write_at pos t buf) (\<lambda>buf.
     bindE (write_at (pos + length t) [NL] buf) (\<lambda>buf.
     Inr (pos + length t + 1, buf))))"

text \<open>
  The three lines of a vector: its name, its id (\<open>%lu\<close>) and its bitmap (\<open>%d\<close>), the numbers
  printed into \<open>char temp_str[8]\<close> first.
\<close>

definition emit_vector :: "struct_vector \<Rightarrow> nat \<times> char list \<Rightarrow> (nat \<times> char list) cres" where
  "emit_vector v out =
     bindE (strlen (vector_name v)) (\<lambda>element_len.
     bindE (read_bytes element_len (vector_name v)) (\<lambda>nm.
     bindE (emit_line nm out) (\<lambda>out.
     bindE (sprintf_fits 8 (sprintf_lu (vector_id v))) (\<lambda>temp_str.
     bindE (emit_line temp_str out) (\<lambda>out.
     bindE (sprintf_fits 8 (sprintf_d (overfuncs_bitmap v))) (\<lambda>temp_str.
     emit_line temp_str out))))))"

fun show_all_loop :: "struct_vector list \<Rightarrow> nat \<times> char list \<Rightarrow> (nat \<times> char list) cres" where
  "show_all_loop [] (ret, buf) = Inr (ret, buf)"
| "show_all_loop (v # vs) (ret, buf) =
     (if ret > MAX_BUFFER_SIZE then Inr (ret, buf)
      else bindE (emit_vector v (ret, buf)) (show_all_loop vs))"

text \<open>Returns the number of bytes and the caller's buffer after the copy.\<close>

definition show_all_vectors :: "char list \<Rightarrow> 'a registry_scheme \<Rightarrow> (nat \<times> char list) cres" where
  "show_all_vectors user_buffer s =
     bindE (show_all_loop (vec_list s) (0, kzalloc_chars MAX_BUFFER_SIZE)) (\<lambda>(ret, buffer).
     bindE (read_bytes ret buffer) (\<lambda>bytes.
     bindE (write_at 0 bytes user_buffer) (\<lambda>user_buffer.
     Inr (ret, user_buffer))))"

definition show_my_vector ::
  "char list option \<Rightarrow> addr \<Rightarrow> 'a registry_scheme \<Rightarrow> (cint \<times> char list option) cres" where
  "show_my_vector user_buffer vector_addr s =
     (case user_buffer of
        None \<Rightarrow> Inr (- EFAULT, None)
      | Some buf \<Rightarrow>
          if vector_addr = 0 then
            bindE (write_at 0 ''vector not assigned'' buf) (\<lambda>buf. Inr (0, Some buf))
          else
            bindE (list_scan (\<lambda>v. Inr (overriddenSyscalls_address v = vector_addr)) (vec_list s))
              (\<lambda>hit. case hit of
                 None \<Rightarrow> Inr (0, Some buf)
               | Some i \<Rightarrow>
                   bindE (emit_vector (vec_list s ! i) (0, buf)) (\<lambda>(ret, buf).
                   Inr (of_nat ret, Some buf))))"

section \<open>Registration and removal\<close>

definition new_vector ::
  "addr \<Rightarrow> char list \<Rightarrow> addr \<Rightarrow> cint \<Rightarrow> kmodule \<Rightarrow> uint \<Rightarrow> struct_vector cres" where
  "new_vector va name vector_address refs vmod vec_bitmap =
     bindE (strlen name) (\<lambda>n.
     bindE (read_bytes n name) (\<lambda>bytes.
     bindE (write_at 0 bytes (kzalloc_chars MAX_VECTOR_NAME_LEN)) (\<lambda>stored.
     Inr \<lparr>node_ptr = va, vector_id = ucast vec_bitmap, vector_name = stored,
          overriddenSyscalls_address = vector_address, refcount = refs,
          overfuncs_bitmap = vec_bitmap, vector_module = vmod\<rparr>)))"

definition add_vector_address ::
  "allocator \<Rightarrow> char list \<Rightarrow> addr \<Rightarrow> kmodule \<Rightarrow> uint \<Rightarrow> 'a registry_scheme
   \<Rightarrow> (cint \<times> 'a registry_scheme) cres" where
  "add_vector_address km name vector_address vmod vec_bitmap s =
     (let (va, s) = kmalloc km Vector_node s in
      if va = 0 then Inr (- ENOMEM, s)
      else if is_err va then Inr (ucast va, s)
      else bindE (new_vector va name vector_address 0 vmod vec_bitmap) (\<lambda>v.
           Inr (0, s\<lparr>vec_list := v # vec_list s\<rparr>)))"

definition add_dynamic_vector_address ::
  "allocator \<Rightarrow> char list \<Rightarrow> addr \<Rightarrow> kmodule \<Rightarrow> uint \<Rightarrow> 'a registry_scheme
   \<Rightarrow> (cint \<times> 'a registry_scheme) cres" where
  "add_dynamic_vector_address km name vector_address vmod vec_bitmap s =
     (let (va, s) = kmalloc km Vector_node s in
      if va = 0 then Inr (- ENOMEM, s)
      else if is_err va then Inr (ucast va, s)
      else bindE (new_vector va name vector_address 1 vmod vec_bitmap) (\<lambda>v.
           Inr (0, s\<lparr>vec_list := v # vec_list s\<rparr>)))"

definition remove_vector_address ::
  "addr \<Rightarrow> 'a registry_scheme \<Rightarrow> (cint \<times> 'a registry_scheme) cres" where
  "remove_vector_address vector_address s =
     bindE (list_scan (\<lambda>v. Inr (overriddenSyscalls_address v = vector_address)) (vec_list s))
       (\<lambda>hit. case hit of
          None \<Rightarrow> Inr (- EFAULT, s)
        | Some i \<Rightarrow>
            let tmp = vec_list s ! i in
            if sint (refcount tmp) > 0 then Inr (- 2222, s)
            else bindE (kfree (node_ptr tmp) (s\<lparr>vec_list := list_del i (vec_list s)\<rparr>)) (\<lambda>s.
                 Inr (0, s)))"

definition register_syscall ::
  "allocator \<Rightarrow> char list \<Rightarrow> addr \<Rightarrow> kmodule \<Rightarrow> uint \<Rightarrow> 'a registry_scheme
   \<Rightarrow> (cint \<times> 'a registry_scheme) cres" where
  "register_syscall km name vector_address vmod vec_bitmap s =
     bindE (mutex_lock_list s) (\<lambda>s.
     bindE (add_vector_address km name vector_address vmod vec_bitmap s) (\<lambda>(ret, s).
     Inr (ret, mutex_unlock_list s)))"

definition register_dynamic_syscall ::
  "allocator \<Rightarrow> char list \<Rightarrow> addr \<Rightarrow> kmodule \<Rightarrow> uint \<Rightarrow> 'a registry_scheme
   \<Rightarrow> (cint \<times> 'a registry_scheme) cres" where
  "register_dynamic_syscall km name vector_address vmod vec_bitmap s =
     bindE (mutex_lock_list s) (\<lambda>s.
     bindE (add_dynamic_vector_address km name vector_address vmod vec_bitmap s) (\<lambda>(ret, s).
     Inr (ret, mutex_unlock_list s)))"

definition unregister_syscall ::
  "addr \<Rightarrow> 'a registry_scheme \<Rightarrow> (cint \<times> 'a registry_scheme) cres" where
  "unregister_syscall vector_address s =
     bindE (mutex_lock_list s) (\<lambda>s.
     bindE (remove_vector_address vector_address s) (\<lambda>(ret, s).
     Inr (ret, mutex_unlock_list s)))"

section \<open>Lookups that take or drop a reference\<close>

definition check_any_current_vector ::
  "uint \<Rightarrow> 'a registry_scheme \<Rightarrow> (addr \<times> 'a registry_scheme) cres" where
  "check_any_current_vector vec_bitmap s =
     bindE (mutex_lock_list s) (\<lambda>s.
     bindE (list_scan (\<lambda>v. Inr (overfuncs_bitmap v = vec_bitmap)) (vec_list s)) (\<lambda>hit.
     case hit of
       None \<Rightarrow> Inr (0, mutex_unlock_list s)
     | Some i \<Rightarrow>
         let p = vec_list s ! i;
             s = try_module_get (vector_module p) (add_refcount i 1 s)
         in Inr (overriddenSyscalls_address p, mutex_unlock_list s)))"

definition get_vector_address ::
  "char list \<Rightarrow> 'a registry_scheme \<Rightarrow> (addr \<times> 'a registry_scheme) cres" where
  "get_vector_address name s =
     bindE (mutex_lock_list s) (\<lambda>s.
     bindE (list_scan (\<lambda>v. strcmp_eq name (vector_name v)) (vec_list s)) (\<lambda>hit.
     case hit of
       None \<Rightarrow> Inr (0, mutex_unlock_list s)
     | Some i \<Rightarrow>
         let p = vec_list s ! i;
             s = try_module_get (vector_module p) (add_refcount i 1 s)
         in Inr (overriddenSyscalls_address p, mutex_unlock_list s)))"

definition get_vector_address_from_id ::
  "uint \<Rightarrow> 'a registry_scheme \<Rightarrow> (addr \<times> 'a registry_scheme) cres" where
  "get_vector_address_from_id bm s =
     bindE (mutex_lock_list s) (\<lambda>s.
     bindE (list_scan (\<lambda>v. Inr (overfuncs_bitmap v = bm)) (vec_list s)) (\<lambda>hit.
     case hit of
       None \<Rightarrow> Inr (0, mutex_unlock_list s)
     | Some i \<Rightarrow>
         let p = vec_list s ! i;
             s = try_module_get (vector_module p) (add_refcount i 1 s)
         in Inr (overriddenSyscalls_address p, mutex_unlock_list s)))"

definition reduce_ref_count ::
  "char list \<Rightarrow> 'a registry_scheme \<Rightarrow> (cint \<times> 'a registry_scheme) cres" where
  "reduce_ref_count name s =
     bindE (mutex_lock_list s) (\<lambda>s.
     bindE (list_scan (\<lambda>v. strcmp_eq name (vector_name v)) (vec_list s)) (\<lambda>hit.
     case hit of
       None \<Rightarrow> Inr (- 1, mutex_unlock_list s)
     | Some i \<Rightarrow>
         let s = add_refcount i (- 1) s;
             ref_cnt = refcount (vec_list s ! i);
             s = module_put (vector_module (vec_list s ! i)) s
         in Inr (ref_cnt, mutex_unlock_list s)))"

definition increment_ref_count_from_address ::
  "addr \<Rightarrow> 'a registry_scheme \<Rightarrow> (cint \<times> 'a registry_scheme) cres" where
  "increment_ref_count_from_address vector_address s =
     bindE (mutex_lock_list s) (\<lambda>s.
     bindE (list_scan (\<lambda>v. Inr (vector_address = overriddenSyscalls_address v)) (vec_list s)) (\<lambda>hit.
     case hit of
       None \<Rightarrow> Inr (- 1, mutex_unlock_list s)
     | Some i \<Rightarrow>
         let s = add_refcount i 1 s;
             s = try_module_get (vector_module (vec_list s ! i)) s
         in Inr (0, mutex_unlock_list s)))"

definition reduce_ref_count_from_address ::
  "addr \<Rightarrow> 'a registry_scheme \<Rightarrow> (cint \<times> 'a registry_scheme) cres" where
  "reduce_ref_count_from_address vector_address s =
     bindE (mutex_lock_list s) (\<lambda>s.
     bindE (list_scan (\<lambda>v. Inr (vector_address = overriddenSyscalls_address v)) (vec_list s)) (\<lambda>hit.
     case hit of
       None \<Rightarrow> Inr (- 1, mutex_unlock_list s)
     | Some i \<Rightarrow>
         let s = add_refcount i (- 1) s;
             ref_cnt = refcount (vec_list s ! i);
             s = module_put (vector_module (vec_list s ! i)) s
         in Inr (ref_cnt, mutex_unlock_list s)))"

section \<open>What the operations do\<close>

text \<open>
  The registry is usable when the lock is free and every stored name ends in a NUL. The index
  functions are the specification of the three kinds of search: the first node that matches.
\<close>

definition reg_ok :: "'a registry_scheme \<Rightarrow> bool" where
  "reg_ok s \<longleftrightarrow> \<not> list_lock s \<and> (\<forall>v \<in> set (vec_list s). terminated (vector_name v))"

definition name_index :: "string \<Rightarrow> 'a registry_scheme \<Rightarrow> nat option" where
  "name_index n s = first_index (\<lambda>v. c_string (vector_name v) = n) (vec_list s)"

definition addr_index :: "addr \<Rightarrow> 'a registry_scheme \<Rightarrow> nat option" where
  "addr_index a s = first_index (\<lambda>v. overriddenSyscalls_address v = a) (vec_list s)"

definition bitmap_index :: "uint \<Rightarrow> 'a registry_scheme \<Rightarrow> nat option" where
  "bitmap_index b s = first_index (\<lambda>v. overfuncs_bitmap v = b) (vec_list s)"

definition take_ref :: "nat \<Rightarrow> 'a registry_scheme \<Rightarrow> 'a registry_scheme" where
  "take_ref i s = try_module_get (vector_module (vec_list s ! i)) (add_refcount i 1 s)"

definition drop_ref :: "nat \<Rightarrow> 'a registry_scheme \<Rightarrow> 'a registry_scheme" where
  "drop_ref i s = module_put (vector_module (vec_list s ! i)) (add_refcount i (- 1) s)"

lemma unlock_id [simp]: "\<not> list_lock s \<Longrightarrow> s\<lparr>list_lock := False\<rparr> = s"
  by (cases s) simp

lemma reg_okD: "reg_ok s \<Longrightarrow> \<not> list_lock s"
  "reg_ok s \<Longrightarrow> v \<in> set (vec_list s) \<Longrightarrow> terminated (vector_name v)"
  by (simp_all add: reg_ok_def)

lemma scan_names:
  "reg_ok s \<Longrightarrow> terminated name \<Longrightarrow>
   list_scan (\<lambda>v. strcmp_eq name (vector_name v)) (vec_list s) = Inr (name_index (c_string name) s)"
  unfolding name_index_def
  by (rule list_scan_first_index) (auto simp: strcmp_eq_iff reg_ok_def)

lemmas ref_defs = take_ref_def drop_ref_def add_refcount_def try_module_get_def module_put_def
  mutex_lock_list_def mutex_unlock_list_def

lemmas scan_specs = addr_index_def bitmap_index_def

lemma index_bounds:
  "name_index n s = Some i \<Longrightarrow> i < length (vec_list s)"
  "addr_index a s = Some i \<Longrightarrow> i < length (vec_list s)"
  "bitmap_index b s = Some i \<Longrightarrow> i < length (vec_list s)"
  by (auto simp: name_index_def addr_index_def bitmap_index_def dest: first_index_bound)

lemma index_hits:
  "name_index n s = Some i \<Longrightarrow> c_string (vector_name (vec_list s ! i)) = n"
  "addr_index a s = Some i \<Longrightarrow> overriddenSyscalls_address (vec_list s ! i) = a"
  "bitmap_index b s = Some i \<Longrightarrow> overfuncs_bitmap (vec_list s ! i) = b"
  by (auto simp: name_index_def addr_index_def bitmap_index_def dest: first_index_hit)

lemma get_vector_address_spec:
  assumes "reg_ok s" and "terminated name"
  shows "get_vector_address name s = Inr (case name_index (c_string name) s of
      None \<Rightarrow> (0, s)
    | Some i \<Rightarrow> (overriddenSyscalls_address (vec_list s ! i), take_ref i s))"
  using scan_names [OF assms] reg_okD(1) [OF assms(1)]
  by (auto simp: get_vector_address_def ref_defs Let_def split: option.splits)

lemma reduce_ref_count_spec:
  assumes "reg_ok s" and "terminated name"
  shows "reduce_ref_count name s = Inr (case name_index (c_string name) s of
      None \<Rightarrow> (- 1, s)
    | Some i \<Rightarrow> (refcount (vec_list s ! i) - 1, drop_ref i s))"
  using scan_names [OF assms] reg_okD(1) [OF assms(1)]
  by (auto simp: reduce_ref_count_def ref_defs Let_def index_bounds split: option.splits)

lemma check_any_current_vector_spec:
  assumes "reg_ok s"
  shows "check_any_current_vector bm s = Inr (case bitmap_index bm s of
      None \<Rightarrow> (0, s)
    | Some i \<Rightarrow> (overriddenSyscalls_address (vec_list s ! i), take_ref i s))"
  using reg_okD(1) [OF assms]
  by (auto simp: check_any_current_vector_def ref_defs Let_def scan_specs split: option.splits)

lemma get_vector_address_from_id_spec:
  assumes "reg_ok s"
  shows "get_vector_address_from_id bm s = Inr (case bitmap_index bm s of
      None \<Rightarrow> (0, s)
    | Some i \<Rightarrow> (overriddenSyscalls_address (vec_list s ! i), take_ref i s))"
  using reg_okD(1) [OF assms]
  by (auto simp: get_vector_address_from_id_def ref_defs Let_def scan_specs split: option.splits)

lemma increment_ref_count_from_address_spec:
  assumes "reg_ok s"
  shows "increment_ref_count_from_address a s = Inr (case addr_index a s of
      None \<Rightarrow> (- 1, s)
    | Some i \<Rightarrow> (0, take_ref i s))"
  using reg_okD(1) [OF assms]
  by (auto simp: increment_ref_count_from_address_def ref_defs Let_def addr_index_def
      first_index_bound eq_commute [of a] split: option.splits)

lemma reduce_ref_count_from_address_spec:
  assumes "reg_ok s"
  shows "reduce_ref_count_from_address a s = Inr (case addr_index a s of
      None \<Rightarrow> (- 1, s)
    | Some i \<Rightarrow> (refcount (vec_list s ! i) - 1, drop_ref i s))"
  using reg_okD(1) [OF assms]
  by (auto simp: reduce_ref_count_from_address_def ref_defs Let_def addr_index_def
      first_index_bound eq_commute [of a] split: option.splits)

section \<open>The reference-counting contract\<close>

text \<open>
  The view of the registry by a key of its vectors: address and reference count of the first
  vector with that key, the one every lookup finds.
\<close>

definition view_by :: "(struct_vector \<Rightarrow> 'k) \<Rightarrow> 'a registry_scheme \<Rightarrow> 'k \<Rightarrow> (addr \<times> cint) option" where
  "view_by f s = map_of (map (\<lambda>v. (f v, (overriddenSyscalls_address v, refcount v))) (vec_list s))"

abbreviation view_name :: "'a registry_scheme \<Rightarrow> string \<Rightarrow> (addr \<times> cint) option" where
  "view_name \<equiv> view_by (\<lambda>v. c_string (vector_name v))"

abbreviation view_addr :: "'a registry_scheme \<Rightarrow> addr \<Rightarrow> (addr \<times> cint) option" where
  "view_addr \<equiv> view_by overriddenSyscalls_address"

abbreviation view_bitmap :: "'a registry_scheme \<Rightarrow> uint \<Rightarrow> (addr \<times> cint) option" where
  "view_bitmap \<equiv> view_by overfuncs_bitmap"

lemma view_by_index:
  "view_by f s k = map_option (\<lambda>i. (overriddenSyscalls_address (vec_list s ! i), refcount (vec_list s ! i)))
     (first_index (\<lambda>v. f v = k) (vec_list s))"
  unfolding view_by_def by (rule map_of_first_index)

lemma add_refcount_frame [simp]:
  "heap (add_refcount i d s) = heap s" "tick (add_refcount i d s) = tick s"
  "mod_log (add_refcount i d s) = mod_log s" "list_lock (add_refcount i d s) = list_lock s"
  "length (vec_list (add_refcount i d s)) = length (vec_list s)"
  by (simp_all add: add_refcount_def)

lemma ref_frame [simp]:
  "heap (take_ref i s) = heap s" "tick (take_ref i s) = tick s" "list_lock (take_ref i s) = list_lock s"
  "heap (drop_ref i s) = heap s" "tick (drop_ref i s) = tick s" "list_lock (drop_ref i s) = list_lock s"
  "vec_list (take_ref i s) = vec_list (add_refcount i 1 s)"
  "vec_list (drop_ref i s) = vec_list (add_refcount i (- 1) s)"
  "mod_log (take_ref i s) = Module_get (vector_module (vec_list s ! i)) # mod_log s"
  "mod_log (drop_ref i s) = Module_put (vector_module (vec_list s ! i)) # mod_log s"
  by (simp_all add: take_ref_def drop_ref_def try_module_get_def module_put_def)

text \<open>Counting touches nothing of a vector but its count.\<close>

lemma add_refcount_same:
  assumes "\<And>v r. f (v\<lparr>refcount := r\<rparr>) = f v"
  shows "map f (vec_list (add_refcount i d s)) = map f (vec_list s)"
proof (rule nth_equalityI)
  fix j assume j: "j < length (map f (vec_list (add_refcount i d s)))"
  then show "map f (vec_list (add_refcount i d s)) ! j = map f (vec_list s) ! j"
    by (cases "i = j") (simp_all add: add_refcount_def assms)
qed simp

lemma addr_index_map: "addr_index a s = first_index (\<lambda>x. x = a) (map overriddenSyscalls_address (vec_list s))"
  by (simp add: addr_index_def first_index_map comp_def)

lemma addr_index_add_refcount [simp]: "addr_index a (add_refcount i d s) = addr_index a s"
  unfolding addr_index_map by (simp add: add_refcount_same)

lemma name_index_add_refcount [simp]: "name_index n (add_refcount i d s) = name_index n s"
proof -
  have "name_index n t = first_index (\<lambda>x. c_string x = n) (map vector_name (vec_list t))" for t :: "'a registry_scheme"
    by (simp add: name_index_def first_index_map comp_def)
  then show ?thesis by (simp add: add_refcount_same)
qed

lemma add_refcount_names [simp]:
  "reg_ok (add_refcount i d s) \<longleftrightarrow> reg_ok s"
proof -
  have "set (map vector_name (vec_list (add_refcount i d s))) = set (map vector_name (vec_list s))"
    by (subst add_refcount_same) simp_all
  then have "(\<forall>n \<in> vector_name ` set (vec_list (add_refcount i d s)). terminated n)
      \<longleftrightarrow> (\<forall>n \<in> vector_name ` set (vec_list s). terminated n)"
    by simp
  then show ?thesis by (simp add: reg_ok_def)
qed

lemma reg_ok_ref [simp]:
  "reg_ok (take_ref i s) \<longleftrightarrow> reg_ok s" "reg_ok (drop_ref i s) \<longleftrightarrow> reg_ok s"
  using add_refcount_names [of i 1 s] add_refcount_names [of i "- 1" s]
  by (simp_all add: reg_ok_def)

lemma view_by_add_refcount:
  assumes "\<And>v r. f (v\<lparr>refcount := r\<rparr>) = f v" and "view_by f s k = Some (a, r)"
    and "first_index (\<lambda>v. f v = k) (vec_list s) = Some i"
  shows "view_by f (add_refcount i d s) = (view_by f s)(k \<mapsto> (a, r + d))"
proof -
  have "f (vec_list s ! i) = k" using assms(3) first_index_hit by fast
  then have k: "f ((vec_list s ! i)\<lparr>refcount := refcount (vec_list s ! i) + d\<rparr>) = k"
    using assms(1) by simp
  show ?thesis
    using map_of_update_first [OF assms(3) k, of "\<lambda>v. (overriddenSyscalls_address v, refcount v)"]
      assms(2,3) by (simp add: view_by_index [of f s k]) (simp add: view_by_def add_refcount_def)
qed

lemma view_by_ref:
  assumes "\<And>v r. f (v\<lparr>refcount := r\<rparr>) = f v" and "view_by f s k = Some (a, r)"
    and "first_index (\<lambda>v. f v = k) (vec_list s) = Some i"
  shows "view_by f (take_ref i s) = (view_by f s)(k \<mapsto> (a, r + 1))"
    and "view_by f (drop_ref i s) = (view_by f s)(k \<mapsto> (a, r - 1))"
  using view_by_add_refcount [OF assms, of 1] view_by_add_refcount [OF assms, of "- 1"]
  by (simp_all add: view_by_def)

lemma view_by_None:
  "view_by f s k = None \<longleftrightarrow> first_index (\<lambda>v. f v = k) (vec_list s) = None"
  by (simp add: view_by_index)

lemma view_by_SomeE:
  assumes "view_by f s k = Some (a, r)"
  obtains i where "first_index (\<lambda>v. f v = k) (vec_list s) = Some i"
    and "overriddenSyscalls_address (vec_list s ! i) = a" and "refcount (vec_list s ! i) = r"
  using assms by (auto simp: view_by_index)

text \<open>By name: \<open>get_vector_address\<close> and \<open>reduce_ref_count\<close>.\<close>

interpretation by_name: ref_counted reg_ok terminated c_string view_name
  get_vector_address "\<lambda>a. a" 0 reduce_ref_count
proof unfold_locales
  fix s :: "'a registry_scheme" and q a r
  assume ok: "reg_ok s" "terminated q" and v: "view_name s (c_string q) = Some (a, r)"
  from v obtain i where i: "name_index (c_string q) s = Some i"
      "overriddenSyscalls_address (vec_list s ! i) = a" "refcount (vec_list s ! i) = r"
    and i': "first_index (\<lambda>v. c_string (vector_name v) = c_string q) (vec_list s) = Some i"
    by (auto simp: name_index_def elim: view_by_SomeE)
  show "\<exists>s'. get_vector_address q s = Inr (a, s') \<and> reg_ok s'
      \<and> view_name s' = (view_name s)(c_string q \<mapsto> (a, r + 1))"
    using view_by_ref(1) [OF _ v i'] i ok by (simp add: get_vector_address_spec)
  show "\<exists>s'. reduce_ref_count q s = Inr (r - 1, s') \<and> reg_ok s'
      \<and> view_name s' = (view_name s)(c_string q \<mapsto> (a, r - 1))"
    using view_by_ref(2) [OF _ v i'] i ok by (simp add: reduce_ref_count_spec)
next
  fix s :: "'a registry_scheme" and q
  assume ok: "reg_ok s" "terminated q" and "view_name s (c_string q) = None"
  then have "name_index (c_string q) s = None" by (simp add: view_by_None name_index_def)
  with ok show "get_vector_address q s = Inr (0, s)" and "reduce_ref_count q s = Inr (- 1, s)"
    by (simp_all add: get_vector_address_spec reduce_ref_count_spec)
qed

text \<open>By address: \<open>increment_ref_count_from_address\<close> and \<open>reduce_ref_count_from_address\<close>.\<close>

interpretation by_address: ref_counted reg_ok "\<lambda>_. True" "\<lambda>a. a" view_addr
  increment_ref_count_from_address "\<lambda>_. 0" "- 1" reduce_ref_count_from_address
proof unfold_locales
  fix s :: "'a registry_scheme" and q a r
  assume ok: "reg_ok s" and v: "view_addr s q = Some (a, r)"
  from v obtain i where i: "addr_index q s = Some i"
      "overriddenSyscalls_address (vec_list s ! i) = a" "refcount (vec_list s ! i) = r"
    and i': "first_index (\<lambda>v. overriddenSyscalls_address v = q) (vec_list s) = Some i"
    by (auto simp: addr_index_def elim: view_by_SomeE)
  show "\<exists>s'. increment_ref_count_from_address q s = Inr (0, s') \<and> reg_ok s'
      \<and> view_addr s' = (view_addr s)(q \<mapsto> (a, r + 1))"
    using view_by_ref(1) [OF _ v i'] i ok by (simp add: increment_ref_count_from_address_spec)
  show "\<exists>s'. reduce_ref_count_from_address q s = Inr (r - 1, s') \<and> reg_ok s'
      \<and> view_addr s' = (view_addr s)(q \<mapsto> (a, r - 1))"
    using view_by_ref(2) [OF _ v i'] i ok by (simp add: reduce_ref_count_from_address_spec)
next
  fix s :: "'a registry_scheme" and q
  assume ok: "reg_ok s" and "view_addr s q = None"
  then have "addr_index q s = None" by (simp add: view_by_None addr_index_def)
  with ok show "increment_ref_count_from_address q s = Inr (- 1, s)"
    and "reduce_ref_count_from_address q s = Inr (- 1, s)"
    by (simp_all add: increment_ref_count_from_address_spec reduce_ref_count_from_address_spec)
qed

text \<open>By bitmap: \<open>check_any_current_vector\<close> and \<open>get_vector_address_from_id\<close> only take references.\<close>

lemma check_any_is_get_from_id: "check_any_current_vector = get_vector_address_from_id"
  by (intro ext) (simp add: check_any_current_vector_def get_vector_address_from_id_def)

interpretation by_bitmap: ref_acquire reg_ok "\<lambda>_. True" "\<lambda>b. b" view_bitmap
  get_vector_address_from_id "\<lambda>a. a" 0
proof unfold_locales
  fix s :: "'a registry_scheme" and q a r
  assume ok: "reg_ok s" and v: "view_bitmap s q = Some (a, r)"
  from v obtain i where i: "bitmap_index q s = Some i"
      "overriddenSyscalls_address (vec_list s ! i) = a" "refcount (vec_list s ! i) = r"
    and i': "first_index (\<lambda>v. overfuncs_bitmap v = q) (vec_list s) = Some i"
    by (auto simp: bitmap_index_def elim: view_by_SomeE)
  show "\<exists>s'. get_vector_address_from_id q s = Inr (a, s') \<and> reg_ok s'
      \<and> view_bitmap s' = (view_bitmap s)(q \<mapsto> (a, r + 1))"
    using view_by_ref(1) [OF _ v i'] i ok by (simp add: get_vector_address_from_id_spec)
next
  fix s :: "'a registry_scheme" and q
  assume ok: "reg_ok s" and "view_bitmap s q = None"
  then have "bitmap_index q s = None" by (simp add: view_by_None bitmap_index_def)
  with ok show "get_vector_address_from_id q s = Inr (0, s)"
    by (simp add: get_vector_address_from_id_spec)
qed

section \<open>Registration, removal and the registry invariant\<close>

text \<open>
  Besides \<open>reg_ok\<close>: each node is a live allocation of its own, and its name fills an array of
  256 bytes.
\<close>

definition reg_inv :: "'a registry_scheme \<Rightarrow> bool" where
  "reg_inv s \<longleftrightarrow> reg_ok s
     \<and> (\<forall>v \<in> set (vec_list s). length (vector_name v) = MAX_VECTOR_NAME_LEN)
     \<and> distinct (map node_ptr (vec_list s))
     \<and> (\<forall>v \<in> set (vec_list s). node_ptr v \<noteq> 0 \<and> heap s (node_ptr v) = Some Vector_node)"

definition stored_vector :: "addr \<Rightarrow> string \<Rightarrow> addr \<Rightarrow> cint \<Rightarrow> kmodule \<Rightarrow> uint \<Rightarrow> struct_vector" where
  "stored_vector va n a r m b =
     \<lparr>node_ptr = va, vector_id = ucast b,
      vector_name = n @ replicate (MAX_VECTOR_NAME_LEN - length n) NUL,
      overriddenSyscalls_address = a, refcount = r, overfuncs_bitmap = b, vector_module = m\<rparr>"

text \<open>A name that can be stored: terminated, and short enough to stay terminated in 256 bytes.\<close>

definition name_ok :: "char list \<Rightarrow> bool" where
  "name_ok name \<longleftrightarrow> terminated name \<and> length (c_string name) < MAX_VECTOR_NAME_LEN"

lemma new_vector_ok:
  assumes "name_ok name"
  shows "new_vector va name a r m b = Inr (stored_vector va (c_string name) a r m b)"
proof -
  from assms have "terminated name" and "length (c_string name) < 256"
    by (simp_all add: name_ok_def MAX_VECTOR_NAME_LEN_def)
  moreover have "length (c_string name) \<le> length name"
    using length_c_string_less [OF \<open>terminated name\<close>] by simp
  ultimately show ?thesis
    by (simp add: new_vector_def strlen_def read_bytes_def take_c_string write_at_def
        kzalloc_chars_def MAX_VECTOR_NAME_LEN_def stored_vector_def)
qed

lemma stored_vector_simps [simp]:
  "node_ptr (stored_vector va n a r m b) = va"
  "vector_id (stored_vector va n a r m b) = ucast b"
  "overriddenSyscalls_address (stored_vector va n a r m b) = a"
  "refcount (stored_vector va n a r m b) = r"
  "overfuncs_bitmap (stored_vector va n a r m b) = b"
  "vector_module (stored_vector va n a r m b) = m"
  by (simp_all add: stored_vector_def)

lemma stored_vector_name:
  assumes "name_ok name"
  shows "c_string (vector_name (stored_vector va (c_string name) a r m b)) = c_string name"
    and "terminated (vector_name (stored_vector va (c_string name) a r m b))"
    and "length (vector_name (stored_vector va (c_string name) a r m b)) = MAX_VECTOR_NAME_LEN"
  using assms by (simp_all add: stored_vector_def name_ok_def c_string_append_terminated)

text \<open>
  Both ways of registering, as one equation: a failed allocation changes nothing but the
  allocation count; otherwise the new vector becomes the head of the list.
\<close>

definition registered ::
  "allocator \<Rightarrow> string \<Rightarrow> addr \<Rightarrow> cint \<Rightarrow> kmodule \<Rightarrow> uint \<Rightarrow> 'a registry_scheme \<Rightarrow> cint \<times> 'a registry_scheme" where
  "registered km n a r m b s =
     (let va = km (tick s) (heap s)
      in if va = 0 then (- ENOMEM, s\<lparr>tick := Suc (tick s)\<rparr>)
         else (0, s\<lparr>tick := Suc (tick s), heap := (heap s)(va \<mapsto> Vector_node),
                    vec_list := stored_vector va n a r m b # vec_list s\<rparr>))"

lemma register_syscall_spec:
  assumes "allocator_ok km" and "reg_ok s" and "name_ok name"
  shows "register_syscall km name a m b s = Inr (registered km (c_string name) a 0 m b s)"
  using assms reg_okD(1) [OF assms(2)] allocator_okD(2) [OF assms(1)]
  by (simp add: register_syscall_def mutex_lock_list_def mutex_unlock_list_def Let_def
      add_vector_address_def kmalloc_ok new_vector_ok registered_def)

lemma register_dynamic_syscall_spec:
  assumes "allocator_ok km" and "reg_ok s" and "name_ok name"
  shows "register_dynamic_syscall km name a m b s = Inr (registered km (c_string name) a 1 m b s)"
  using assms reg_okD(1) [OF assms(2)] allocator_okD(2) [OF assms(1)]
  by (simp add: register_dynamic_syscall_def mutex_lock_list_def mutex_unlock_list_def Let_def
      add_dynamic_vector_address_def kmalloc_ok new_vector_ok registered_def)

lemma unregister_syscall_spec:
  assumes "reg_inv s"
  shows "unregister_syscall a s = Inr (case addr_index a s of
      None \<Rightarrow> (- EFAULT, s)
    | Some i \<Rightarrow>
        if sint (refcount (vec_list s ! i)) > 0 then (- 2222, s)
        else (0, s\<lparr>vec_list := list_del i (vec_list s),
                   heap := (heap s)(node_ptr (vec_list s ! i) := None)\<rparr>))"
proof -
  have ok: "reg_ok s" and live: "\<And>v. v \<in> set (vec_list s) \<Longrightarrow>
      node_ptr v \<noteq> 0 \<and> heap s (node_ptr v) = Some Vector_node"
    using assms by (auto simp: reg_inv_def)
  have "kfree (node_ptr (vec_list s ! i)) (s\<lparr>list_lock := True, vec_list := l\<rparr>) =
      Inr (s\<lparr>list_lock := True, vec_list := l, heap := (heap s)(node_ptr (vec_list s ! i) := None)\<rparr>)"
    if "addr_index a s = Some i" for i l
    using live [OF nth_mem [OF index_bounds(2) [OF that]]] by (simp add: kfree_live)
  then show ?thesis using reg_okD(1) [OF ok]
    by (auto simp: unregister_syscall_def mutex_lock_list_def mutex_unlock_list_def
        remove_vector_address_def addr_index_def Let_def split: option.splits)
qed

subsection \<open>Every operation keeps the invariant\<close>

lemma reg_inv_ok: "reg_inv s \<Longrightarrow> reg_ok s"
  by (simp add: reg_inv_def)

lemma reg_inv_heap:
  assumes "reg_inv s" and "vec_list s' = vec_list s" and "list_lock s' = list_lock s"
    and "\<And>a. heap s a = Some Vector_node \<Longrightarrow> heap s' a = Some Vector_node"
  shows "reg_inv s'"
  using assms by (simp add: reg_inv_def reg_ok_def)

lemma reg_inv_add_refcount:
  assumes "reg_inv s" shows "reg_inv (add_refcount i d s)"
proof -
  let ?s = "add_refcount i d s"
  have n: "map vector_name (vec_list ?s) = map vector_name (vec_list s)"
    and p: "map node_ptr (vec_list ?s) = map node_ptr (vec_list s)"
    by (simp_all add: add_refcount_same)
  have names: "vector_name ` set (vec_list ?s) = vector_name ` set (vec_list s)"
    and ptrs: "node_ptr ` set (vec_list ?s) = node_ptr ` set (vec_list s)"
    using n p by (metis list.set_map)+
  have "\<forall>x \<in> vector_name ` set (vec_list ?s). length x = MAX_VECTOR_NAME_LEN"
    and "\<forall>x \<in> node_ptr ` set (vec_list ?s). x \<noteq> 0 \<and> heap s x = Some Vector_node"
    using assms unfolding names ptrs by (auto simp: reg_inv_def)
  then show ?thesis using assms p by (simp add: reg_inv_def)
qed

lemma reg_inv_ref: "reg_inv s \<Longrightarrow> reg_inv (take_ref i s)" "reg_inv s \<Longrightarrow> reg_inv (drop_ref i s)"
  using reg_inv_add_refcount [of s i 1] reg_inv_add_refcount [of s i "- 1"]
  by (simp_all add: reg_inv_def)

lemma reg_inv_registered:
  assumes "allocator_ok km" and "reg_inv s" and "name_ok name"
  shows "reg_inv (snd (registered km (c_string name) a r m b s))"
proof (cases "km (tick s) (heap s) = 0")
  case True
  with assms(2) show ?thesis by (simp add: registered_def reg_inv_def reg_ok_def)
next
  case False
  then have fresh: "heap s (km (tick s) (heap s)) = None" by (rule allocator_okD(1) [OF assms(1)])
  then have "km (tick s) (heap s) \<notin> node_ptr ` set (vec_list s)"
    using assms(2) by (force simp: reg_inv_def)
  with assms False show ?thesis
    by (auto simp: registered_def reg_inv_def reg_ok_def Let_def stored_vector_name)
qed

lemma reg_inv_delete:
  assumes "reg_inv s" and "i < length (vec_list s)"
  shows "reg_inv (s\<lparr>vec_list := list_del i (vec_list s),
                    heap := (heap s)(node_ptr (vec_list s ! i) := None)\<rparr>)"
proof -
  have d: "distinct (map node_ptr (vec_list s))" using assms(1) by (simp add: reg_inv_def)
  let ?l = "list_del i (vec_list s)"
  have i: "i < length (map node_ptr (vec_list s))" using assms(2) by simp
  have dl: "distinct (map node_ptr ?l)"
    using distinct_list_del(1) [OF d i] by (simp only: list_del_map)
  have "set (map node_ptr ?l) = set (map node_ptr (vec_list s)) - {node_ptr (vec_list s ! i)}"
    using distinct_list_del(2) [OF d i] assms(2) by (simp only: list_del_map nth_map)
  then have gone: "\<And>v. v \<in> set ?l \<Longrightarrow> node_ptr v \<noteq> node_ptr (vec_list s ! i)"
    by (metis Diff_iff imageI insertI1 list.set_map)
  have sub: "\<And>v. v \<in> set ?l \<Longrightarrow> v \<in> set (vec_list s)" using set_list_del by fast
  show ?thesis
    using assms(1) dl gone sub by (simp add: reg_inv_def reg_ok_def)
qed

section \<open>What is printed\<close>

text \<open>
  A vector is printable when its name is terminated and its numbers fit \<open>temp_str[8]\<close>; its
  text is three lines.
\<close>

definition printable :: "struct_vector \<Rightarrow> bool" where
  "printable v \<longleftrightarrow> terminated (vector_name v)
     \<and> length (sprintf_lu (vector_id v)) < 8 \<and> length (sprintf_d (overfuncs_bitmap v)) < 8"

definition vector_text :: "struct_vector \<Rightarrow> string" where
  "vector_text v = c_string (vector_name v) @ [NL] @ sprintf_lu (vector_id v) @ [NL]
     @ sprintf_d (overfuncs_bitmap v) @ [NL]"

text \<open>
  \<open>put_text p t q\<close>: the result of writing \<open>t\<close> into a buffer whose part \<open>p\<close> is used and whose part
  \<open>q\<close> is left.
\<close>

definition put_text :: "char list \<Rightarrow> string \<Rightarrow> char list \<Rightarrow> (nat \<times> char list) cres" where
  "put_text p t q =
     (if length t \<le> length q then Inr (length (p @ t), (p @ t) @ drop (length t) q)
      else Inl Buffer_overflow)"

lemma put_text_Nil [simp]: "put_text p [] q = Inr (length p, p @ q)"
  by (simp add: put_text_def)

lemma put_text_append:
  "bindE (put_text p t q) (\<lambda>(pos, buf). put_text (p @ t) u (drop (length t) q)) = put_text p (t @ u) q"
  by (auto simp: put_text_def add.commute)

lemma emit_line_put: "emit_line t (length p, p @ q) = put_text p (t @ [NL]) q"
proof (cases "length t < length q")
  case True
  then have q: "drop (length t) q = q ! length t # drop (Suc (length t)) q"
    by (simp add: Cons_nth_drop_Suc)
  have "write_at (length p + length t) [NL] ((p @ t) @ drop (length t) q)
      = Inr ((p @ t) @ [NL] @ drop (Suc (length t)) q)"
    using True write_at_append [of "p @ t" "[NL]" "drop (length t) q"] by (simp add: drop_Suc tl_drop)
  with True show ?thesis
    by (simp add: emit_line_def put_text_def write_at_append)
next
  case False
  then show ?thesis
    using write_at_append [of "p @ t" "[NL]" "drop (length t) q"]
    by (auto simp: emit_line_def put_text_def write_at_append)
qed

lemma emit_line_chain:
  assumes "\<And>p' q'. f (length p', p' @ q') = put_text p' u q'"
  shows "bindE (emit_line t (length p, p @ q)) f = put_text p ((t @ [NL]) @ u) q"
proof (cases "length (t @ [NL]) \<le> length q")
  case True
  then have "bindE (emit_line t (length p, p @ q)) f =
      put_text (p @ t @ [NL]) u (drop (length (t @ [NL])) q)"
    using assms [of "p @ t @ [NL]" "drop (length (t @ [NL])) q"]
    by (simp add: emit_line_put put_text_def)
  with True show ?thesis by (auto simp: put_text_def add.commute)
next
  case False
  then show ?thesis by (simp add: emit_line_put put_text_def)
qed

lemma emit_vector_put:
  assumes "printable v"
  shows "emit_vector v (length p, p @ q) = put_text p (vector_text v) q"
proof -
  let ?n = "c_string (vector_name v)" and ?i = "sprintf_lu (vector_id v)"
    and ?b = "sprintf_d (overfuncs_bitmap v)"
  have t: "terminated (vector_name v)" and f: "length ?i < 8" "length ?b < 8"
    using assms by (auto simp: printable_def)
  have name: "strlen (vector_name v) = Inr (length ?n)" "read_bytes (length ?n) (vector_name v) = Inr ?n"
    using t length_c_string_less [OF t] by (simp_all add: strlen_def read_bytes_def take_c_string)
  have "emit_vector v (length p, p @ q) =
      bindE (emit_line ?n (length p, p @ q)) (\<lambda>out. bindE (emit_line ?i out) (emit_line ?b))"
    using f by (simp add: emit_vector_def name sprintf_fits_def)
  also have "\<dots> = put_text p ((?n @ [NL]) @ (?i @ [NL]) @ (?b @ [NL])) q"
    by (intro emit_line_chain emit_line_put)
  finally show ?thesis by (simp add: vector_text_def)
qed

definition registry_text :: "struct_vector list \<Rightarrow> string" where
  "registry_text vs = concat (map vector_text vs)"

text \<open>
  The loop writes the text of all vectors or overflows the static buffer: the guard
  \<open>ret > MAX_BUFFER_SIZE\<close> never stops it.
\<close>

lemma show_all_loop_put:
  assumes "\<forall>v \<in> set vs. printable v" and "length (p @ q) \<le> MAX_BUFFER_SIZE"
  shows "show_all_loop vs (length p, p @ q) = put_text p (registry_text vs) q"
  using assms
proof (induction vs arbitrary: p q)
  case Nil
  then show ?case by (simp add: registry_text_def)
next
  case (Cons v vs)
  let ?t = "vector_text v"
  have step: "show_all_loop (v # vs) (length p, p @ q) = bindE (put_text p ?t q) (show_all_loop vs)"
    using Cons.prems by (simp add: emit_vector_put)
  show ?case
  proof (cases "length ?t \<le> length q")
    case True
    then have "show_all_loop vs (length (p @ ?t), (p @ ?t) @ drop (length ?t) q) =
        put_text (p @ ?t) (registry_text vs) (drop (length ?t) q)"
      using Cons.prems by (intro Cons.IH) auto
    with True step show ?thesis
      by (auto simp: put_text_def registry_text_def add.commute)
  next
    case False
    with step show ?thesis by (simp add: put_text_def registry_text_def)
  qed
qed

lemma show_all_vectors_spec:
  assumes "\<forall>v \<in> set (vec_list s). printable v"
  shows "show_all_vectors ub s =
    (let t = registry_text (vec_list s)
     in if length t \<le> MAX_BUFFER_SIZE \<and> length t \<le> length ub
        then Inr (length t, t @ drop (length t) ub) else Inl Buffer_overflow)"
proof -
  have "show_all_loop (vec_list s) (0, kzalloc_chars MAX_BUFFER_SIZE) =
      put_text [] (registry_text (vec_list s)) (kzalloc_chars MAX_BUFFER_SIZE)"
    using show_all_loop_put [OF assms, of "[]" "kzalloc_chars MAX_BUFFER_SIZE"]
    by (simp add: kzalloc_chars_def)
  then show ?thesis
    by (simp add: show_all_vectors_def put_text_def kzalloc_chars_def write_at_append_0 Let_def)
qed

lemma show_my_vector_spec:
  assumes "\<forall>v \<in> set (vec_list s). printable v" and "a \<noteq> 0"
  shows "show_my_vector (Some buf) a s = (case addr_index a s of
      None \<Rightarrow> Inr (0, Some buf)
    | Some i \<Rightarrow> (let t = vector_text (vec_list s ! i) in
        if length t \<le> length buf then Inr (of_nat (length t), Some (t @ drop (length t) buf))
        else Inl Buffer_overflow))"
proof (cases "addr_index a s")
  case None
  with assms show ?thesis by (simp add: show_my_vector_def addr_index_def)
next
  case (Some i)
  then have "printable (vec_list s ! i)" using assms(1) index_bounds(2) by fastforce
  from emit_vector_put [OF this, of "[]" buf] Some assms(2) show ?thesis
    by (simp add: show_my_vector_def addr_index_def put_text_def Let_def)
qed

lemma show_my_vector_unassigned:
  "19 \<le> length buf \<Longrightarrow>
   show_my_vector (Some buf) 0 s = Inr (0, Some (''vector not assigned'' @ drop 19 buf))"
  by (simp add: show_my_vector_def write_at_append_0 numeral_eq_Suc)

lemma printable_small:
  assumes "terminated (vector_name v)" and "unat (vector_id v) < 10 ^ 7"
    and "unat (overfuncs_bitmap v) < 10 ^ 7"
  shows "printable v"
proof -
  have "sint (overfuncs_bitmap v) = int (unat (overfuncs_bitmap v))"
    using assms(3) by (intro sint_small) simp
  then have "length (sprintf_d (overfuncs_bitmap v)) \<le> 7"
    using length_dec_digits [OF assms(3)] by (simp add: sprintf_d_def)
  moreover have "length (sprintf_lu (vector_id v)) \<le> 7"
    using length_dec_digits [OF assms(2)] by (simp add: sprintf_lu_def)
  ultimately show ?thesis using assms(1) by (simp add: printable_def)
qed

end
