(* ===== verification/Override_List.thy ===== *)
theory Override_List
  imports Kernel
begin

text \<open>
  The linked list of overridden system calls that a vector address points to: the code of
  \<open>add_syscall_to_vector\<close> and \<open>delete_vector\<close>, which \<open>dynamic_vector.c\<close>, \<open>vector1_module.c\<close> and
  \<open>vector2_module.c\<close> each have a copy of. The list is in the kernel heap, linked by addresses, and
  the loops over it are partial functions: a cyclic list would make them run forever.
\<close>

section \<open>The loops\<close>

text \<open>\<open>temp = listHead; while (temp->nextSyscall != NULL) temp = temp->nextSyscall;\<close>\<close>

partial_function (option) last_node :: "heap \<Rightarrow> addr \<Rightarrow> addr cres option" where
  "last_node h temp =
     (case node_at h temp of
        Inl e \<Rightarrow> Some (Inl e)
      | Inr n \<Rightarrow> if nextSyscall n = 0 then Some (Inr temp) else last_node h (nextSyscall n))"

text \<open>
  \<open>while (new_head->nextSyscall != NULL) { temp = new_head; new_head = new_head->nextSyscall;
  kfree(temp); } kfree(new_head);\<close>
\<close>

partial_function (option) free_nodes ::
  "addr \<Rightarrow> 'a kmem_scheme \<Rightarrow> ('a kmem_scheme) cres option" where
  "free_nodes new_head s =
     (case node_at (heap s) new_head of
        Inl e \<Rightarrow> Some (Inl e)
      | Inr n \<Rightarrow>
          if nextSyscall n = 0 then Some (kfree new_head s)
          else (case kfree new_head s of
                  Inl e \<Rightarrow> Some (Inl e)
                | Inr s' \<Rightarrow> free_nodes (nextSyscall n) s'))"

section \<open>Adding a node, deleting the list\<close>

text \<open>
  The body of \<open>add_syscall_to_vector\<close>: the module's \<open>listHead\<close> comes in and goes out, beside the
  return value and the kernel state.
\<close>

definition append_syscall_node ::
  "allocator \<Rightarrow> sysnr \<Rightarrow> sys_call_ptr \<Rightarrow> addr \<Rightarrow> 'a kmem_scheme \<Rightarrow> (cint \<times> addr \<times> 'a kmem_scheme) cres" where
  "append_syscall_node km nr f listHead s =
     (let node = \<lparr>NR_syscall = nr, funcPtr = f, syscallTablePtr = 0, nextSyscall = 0\<rparr>;
          (syscall, s) = kmalloc km (Syscall_node node) s
      in if syscall = 0 then Inr (- ENOMEM, listHead, s)
         else if is_err syscall then Inr (ucast syscall, listHead, s)
         else if listHead = 0 then Inr (0, syscall, s)
         else bindE (run_loop (last_node (heap s) listHead)) (\<lambda>temp.
              bindE (node_at (heap s) temp) (\<lambda>n.
              Inr (0, listHead,
                   s\<lparr>heap := (heap s)(temp \<mapsto> Syscall_node (n\<lparr>nextSyscall := syscall\<rparr>))\<rparr>))))"

definition free_syscall_list :: "addr \<Rightarrow> 'a kmem_scheme \<Rightarrow> ('a kmem_scheme) cres" where
  "free_syscall_list listHead s =
     (if listHead = 0 then Inr s else run_loop (free_nodes listHead s))"

section \<open>Lists in the heap\<close>

text \<open>
  \<open>sc_list h p es\<close>: from address \<open>p\<close> the heap holds a NULL-terminated list whose nodes, in order,
  are at the given addresses with the given system call numbers and functions.
\<close>

fun sc_list :: "heap \<Rightarrow> addr \<Rightarrow> (addr \<times> sysnr \<times> sys_call_ptr) list \<Rightarrow> bool" where
  "sc_list h p [] \<longleftrightarrow> p = 0"
| "sc_list h p ((a, nr, f) # es) \<longleftrightarrow> p = a \<and> a \<noteq> 0 \<and>
     (\<exists>n. h a = Some (Syscall_node n) \<and> NR_syscall n = nr \<and> funcPtr n = f
        \<and> sc_list h (nextSyscall n) es)"

lemma sc_list_0 [simp]: "sc_list h 0 es \<longleftrightarrow> es = []"
  by (cases es) auto

lemma sc_list_nonnull:
  assumes "sc_list h p es" and "p \<noteq> 0"
  obtains nr f n es' where "es = (p, nr, f) # es'" and "h p = Some (Syscall_node n)"
    and "NR_syscall n = nr" and "funcPtr n = f" and "sc_list h (nextSyscall n) es'"
  using assms by (cases es) auto

lemma sc_list_unique: "sc_list h p es \<Longrightarrow> sc_list h p es' \<Longrightarrow> es = es'"
proof (induction es arbitrary: p es')
  case Nil
  then show ?case by simp
next
  case (Cons e es)
  then show ?case by (cases e; cases es') auto
qed

lemma sc_list_suffix:
  "sc_list h p (es @ es') \<Longrightarrow> \<exists>q. sc_list h q es'"
  by (induction es arbitrary: p) auto

lemma sc_list_heap: "sc_list h p es \<Longrightarrow> a \<in> fst ` set es \<Longrightarrow> a \<noteq> 0 \<and> (\<exists>n. h a = Some (Syscall_node n))"
proof (induction es arbitrary: p)
  case Nil
  then show ?case by simp
next
  case (Cons e es)
  obtain b nr f where e: "e = (b, nr, f)" by (cases e)
  with Cons.prems obtain n where "b \<noteq> 0" "h b = Some (Syscall_node n)"
    "sc_list h (nextSyscall n) es" by auto
  with Cons.IH Cons.prems(2) e show ?case by auto
qed

lemma sc_list_distinct: "sc_list h p es \<Longrightarrow> distinct (map fst es)"
proof (induction es arbitrary: p)
  case Nil
  then show ?case by simp
next
  case (Cons e es)
  obtain a nr f where e: "e = (a, nr, f)" by (cases e)
  from Cons.prems e obtain n where a: "h a = Some (Syscall_node n)" "sc_list h (nextSyscall n) es"
    and l: "sc_list h a ((a, nr, f) # es)" by auto
  have "a \<notin> fst ` set es"
  proof
    assume "a \<in> fst ` set es"
    then obtain x xs ys where es: "es = xs @ (a, x) # ys" by (force dest: split_list)
    then obtain q where "sc_list h q ((a, x) # ys)" using a(2) sc_list_suffix by blast
    then have "sc_list h a ((a, x) # ys)" by (cases x) auto
    from sc_list_unique [OF this l] have "length ys = length es" by simp
    with es show False by simp
  qed
  moreover have "distinct (map fst es)" by (rule Cons.IH [OF a(2)])
  ultimately show ?case using e by simp
qed

lemma sc_list_frame: "a \<notin> fst ` set es \<Longrightarrow> sc_list (h(a := b)) p es \<longleftrightarrow> sc_list h p es"
  by (induction es arbitrary: p) auto

lemma sc_list_cong: "(\<And>a. a \<in> fst ` set es \<Longrightarrow> h' a = h a) \<Longrightarrow> sc_list h' p es \<longleftrightarrow> sc_list h p es"
  by (induction es arbitrary: p) auto

section \<open>The loops end, and what they compute\<close>

lemma last_node_list:
  "sc_list h p es \<Longrightarrow> es \<noteq> [] \<Longrightarrow> last_node h p = Some (Inr (fst (last es)))"
proof (induction es arbitrary: p)
  case Nil
  then show ?case by simp
next
  case (Cons e es)
  obtain a nr f where e: "e = (a, nr, f)" by (cases e)
  from Cons.prems e obtain n where n: "p = a" "a \<noteq> 0" "h a = Some (Syscall_node n)"
    "sc_list h (nextSyscall n) es" by auto
  then have node: "node_at h p = Inr n" by (simp add: node_at_Inr)
  show ?case
  proof (cases "es = []")
    case True
    with n have "nextSyscall n = 0" by simp
    with True n node e show ?thesis by (subst last_node.simps) simp
  next
    case False
    with n(4) have "nextSyscall n \<noteq> 0" by (cases es) auto
    with False n node Cons.IH [OF n(4) False] show ?thesis by (subst last_node.simps) simp
  qed
qed

lemma sc_list_snoc:
  assumes "sc_list h p es" and "es \<noteq> []" and "h a = None" and "a \<noteq> 0"
    and "h (fst (last es)) = Some (Syscall_node n)"
  shows "sc_list (h(a \<mapsto> Syscall_node \<lparr>NR_syscall = nr, funcPtr = f, syscallTablePtr = 0, nextSyscall = 0\<rparr>,
      fst (last es) \<mapsto> Syscall_node (n\<lparr>nextSyscall := a\<rparr>))) p (es @ [(a, nr, f)])"
  using assms
proof (induction es arbitrary: p)
  case Nil
  then show ?case by simp
next
  case (Cons e es)
  obtain b nr' f' where e: "e = (b, nr', f')" by (cases e)
  from Cons.prems e obtain m where m: "p = b" "b \<noteq> 0" "h b = Some (Syscall_node m)"
    "NR_syscall m = nr'" "funcPtr m = f'" "sc_list h (nextSyscall m) es" by auto
  have "a \<noteq> b" using m(3) Cons.prems(3) by auto
  show ?case
  proof (cases "es = []")
    case True
    with m e Cons.prems \<open>a \<noteq> b\<close> show ?thesis by auto
  next
    case False
    have "b \<notin> fst ` set es" using sc_list_distinct [OF Cons.prems(1)] e by simp
    then have "b \<noteq> fst (last es)" using False by (metis imageI last_in_set)
    with Cons.IH [OF m(6) False Cons.prems(3,4)] Cons.prems(5) False m e \<open>a \<noteq> b\<close>
    show ?thesis by simp
  qed
qed

text \<open>
  Adding a node to a list: either the allocation fails, the return value is \<open>-ENOMEM\<close> and the
  heap is unchanged, or the list has one more entry, at its end, in fresh memory.
\<close>

definition added_syscall ::
  "allocator \<Rightarrow> sysnr \<Rightarrow> sys_call_ptr \<Rightarrow> (addr \<times> sysnr \<times> sys_call_ptr) list \<Rightarrow> addr
   \<Rightarrow> 'a kmem_scheme \<Rightarrow> cint \<Rightarrow> addr \<Rightarrow> 'a kmem_scheme \<Rightarrow> bool" where
  "added_syscall km nr f es p s ret p' s' \<longleftrightarrow>
     (let a = km (tick s) (heap s) in
      if a = 0 then ret = - ENOMEM \<and> p' = p \<and> s' = s\<lparr>tick := Suc (tick s)\<rparr>
      else ret = 0 \<and> sc_list (heap s') p' (es @ [(a, nr, f)]) \<and> (p \<noteq> 0 \<longrightarrow> p' = p)
         \<and> (\<forall>b. b \<noteq> a \<longrightarrow> b \<notin> fst ` set es \<longrightarrow> heap s' b = heap s b)
         \<and> dom (heap s') = insert a (dom (heap s))
         \<and> s' = s\<lparr>tick := Suc (tick s), heap := heap s'\<rparr>)"

lemma append_syscall_node_spec:
  assumes "allocator_ok km" and "sc_list (heap s) p es"
  shows "\<exists>ret p' s'. append_syscall_node km nr f p s = Inr (ret, p', s')
    \<and> added_syscall km nr f es p s ret p' s'"
proof -
  let ?a = "km (tick s) (heap s)"
  let ?node = "\<lparr>NR_syscall = nr, funcPtr = f, syscallTablePtr = 0, nextSyscall = 0\<rparr>"
  let ?h = "(heap s)(?a \<mapsto> Syscall_node ?node)"
  note defs = append_syscall_node_def added_syscall_def kmalloc_ok [OF assms(1)] Let_def
  show ?thesis
  proof (cases "?a = 0")
    case True
    then show ?thesis by (simp add: defs)
  next
    case fresh: False
    note a = allocator_okD(1) [OF assms(1) fresh] allocator_okD(2) [OF assms(1)]
    show ?thesis
    proof (cases "p = 0")
      case True
      with assms(2) a fresh show ?thesis by (auto simp: defs)
    next
      case False
      with assms(2) have ne: "es \<noteq> []" by (cases es) auto
      let ?l = "fst (last es)"
      have "?l \<in> fst ` set es" using ne by simp
      with sc_list_heap [OF assms(2)] obtain n where n: "?l \<noteq> 0" "heap s ?l = Some (Syscall_node n)"
        by blast
      have sep: "?a \<notin> fst ` set es" using sc_list_heap [OF assms(2)] a(1) by fastforce
      then have neq: "?l \<noteq> ?a" using \<open>?l \<in> fst ` set es\<close> by metis
      have "last_node ?h p = Some (Inr ?l)"
        by (rule last_node_list) (use assms(2) ne sep in \<open>simp_all add: sc_list_frame\<close>)
      moreover have "node_at ?h ?l = Inr n" using n neq by (simp add: node_at_Inr)
      ultimately have "append_syscall_node km nr f p s = Inr (0, p, s\<lparr>tick := Suc (tick s),
          heap := ?h(?l \<mapsto> Syscall_node (n\<lparr>nextSyscall := ?a\<rparr>))\<rparr>)"
        using fresh a False by (simp add: defs)
      moreover have "sc_list (?h(?l \<mapsto> Syscall_node (n\<lparr>nextSyscall := ?a\<rparr>))) p (es @ [(?a, nr, f)])"
        by (rule sc_list_snoc [OF assms(2) ne a(1) fresh n(2)])
      ultimately show ?thesis
        using fresh n(2) \<open>?l \<in> fst ` set es\<close> by (auto simp: defs)
    qed
  qed
qed

lemma added_syscallE:
  assumes "added_syscall km nr f es p s ret p' s'"
  obtains "km (tick s) (heap s) = 0" and "ret = - ENOMEM" and "p' = p" and "s' = s\<lparr>tick := Suc (tick s)\<rparr>"
  | h where "km (tick s) (heap s) \<noteq> 0" and "ret = 0"
    and "s' = s\<lparr>tick := Suc (tick s), heap := h\<rparr>"
    and "sc_list h p' (es @ [(km (tick s) (heap s), nr, f)])"
    and "\<forall>b. b \<noteq> km (tick s) (heap s) \<longrightarrow> b \<notin> fst ` set es \<longrightarrow> h b = heap s b"
  using assms unfolding added_syscall_def Let_def by (cases "km (tick s) (heap s) = 0") auto

text \<open>Deleting a list frees its nodes and nothing else; the loop ends.\<close>

lemma free_nodes_list:
  "sc_list (heap s) p es \<Longrightarrow> es \<noteq> [] \<Longrightarrow>
   free_nodes p s = Some (Inr (s\<lparr>heap := heap s |` (- fst ` set es)\<rparr>))"
proof (induction es arbitrary: p s)
  case Nil
  then show ?case by simp
next
  case (Cons e es)
  obtain a nr f where e: "e = (a, nr, f)" by (cases e)
  from Cons.prems e obtain n where n: "p = a" "a \<noteq> 0" "heap s a = Some (Syscall_node n)"
    "sc_list (heap s) (nextSyscall n) es" by auto
  then have node: "node_at (heap s) p = Inr n" by (simp add: node_at_Inr)
  let ?s = "s\<lparr>heap := (heap s)(a := None)\<rparr>"
  have free: "kfree p s = Inr ?s" using n by (simp add: kfree_live)
  have restr: "(heap s)(a := None) = heap s |` (- {a})"
    by (auto simp: restrict_map_def)
  show ?case
  proof (cases "es = []")
    case True
    with n have "nextSyscall n = 0" by simp
    with True n node free e restr show ?thesis by (subst free_nodes.simps) simp
  next
    case False
    with n(4) have nz: "nextSyscall n \<noteq> 0" by (cases es) auto
    have "a \<notin> fst ` set es" using sc_list_distinct [OF Cons.prems(1)] e by simp
    then have "sc_list (heap ?s) (nextSyscall n) es" using n(4) by (simp add: sc_list_frame)
    from Cons.IH [OF this False] nz node free e show ?thesis
      by (subst free_nodes.simps) (simp add: restr Int_commute flip: Compl_Un)
  qed
qed

lemma free_syscall_list_spec:
  assumes "sc_list (heap s) p es"
  shows "free_syscall_list p s = Inr (s\<lparr>heap := heap s |` (- fst ` set es)\<rparr>)"
proof (cases "p = 0")
  case True
  with assms have "es = []" by simp
  with True show ?thesis by (simp add: free_syscall_list_def restrict_map_def)
next
  case False
  with assms have "es \<noteq> []" by (cases es) auto
  with False free_nodes_list [OF assms] show ?thesis by (simp add: free_syscall_list_def)
qed

section \<open>Building a list\<close>

text \<open>
  \<open>built h0 h p es\<close>: the heap \<open>h\<close> is \<open>h0\<close> plus the list \<open>es\<close> at \<open>p\<close>, all of it in memory that
  \<open>h0\<close> did not use.
\<close>

definition built :: "heap \<Rightarrow> heap \<Rightarrow> addr \<Rightarrow> (addr \<times> sysnr \<times> sys_call_ptr) list \<Rightarrow> bool" where
  "built h0 h p es \<longleftrightarrow> sc_list h p es \<and> fst ` set es \<inter> dom h0 = {}
     \<and> (\<forall>b. b \<notin> fst ` set es \<longrightarrow> h b = h0 b)"

lemma built_start [simp]: "built h h 0 []"
  by (simp add: built_def)

lemma built_dom: "built h0 h p es \<Longrightarrow> dom h = dom h0 \<union> fst ` set es"
  using sc_list_heap [of h p es] by (fastforce simp: built_def)

lemma built_card:
  assumes "built h0 h p es" shows "card (dom h) = card (dom h0) + length es"
proof -
  have "distinct (map fst es)" using assms sc_list_distinct by (auto simp: built_def)
  then have "card (fst ` set es) = length es" using distinct_card by fastforce
  moreover have "dom h0 \<inter> fst ` set es = {}" using assms by (auto simp: built_def)
  then have "card (dom h0 \<union> fst ` set es) = card (dom h0) + card (fst ` set es)"
    by (simp add: card_Un_disjoint)
  ultimately show ?thesis using built_dom [OF assms] by simp
qed

lemma built_delete:
  assumes "built h0 h p es" shows "h |` (- fst ` set es) = h0"
proof
  fix b
  show "(h |` (- fst ` set es)) b = h0 b"
  proof (cases "b \<in> fst ` set es")
    case True
    then have "b \<notin> dom h0" using assms unfolding built_def by blast
    with True show ?thesis by (simp add: restrict_map_def domIff del: image_iff)
  next
    case False
    with assms show ?thesis by (simp add: built_def restrict_map_def)
  qed
qed

text \<open>Several calls, in the order of the code: stop at the first negative return value.\<close>

fun add_calls ::
  "(sysnr \<Rightarrow> sys_call_ptr \<Rightarrow> 's \<Rightarrow> (cint \<times> 's) cres) \<Rightarrow> (sysnr \<times> sys_call_ptr) list \<Rightarrow> 's
   \<Rightarrow> (cint \<times> 's) cres" where
  "add_calls add [] s = Inr (0, s)"
| "add_calls add ((nr, f) # cs) s =
     bindE (add nr f s) (\<lambda>(ret, s). if sint ret < 0 then Inr (ret, s) else add_calls add cs s)"

text \<open>
  The contract of a module's \<open>add_syscall_to_vector\<close> on its own \<open>listHead\<close>: it appends or fails,
  and changes nothing but the list (\<open>rest\<close> is everything else of the state).
\<close>

locale syscall_list_owner =
  fixes listHead :: "'a kmem_scheme \<Rightarrow> addr"
    and rest :: "'a kmem_scheme \<Rightarrow> 'r"
    and add :: "allocator \<Rightarrow> sysnr \<Rightarrow> sys_call_ptr \<Rightarrow> 'a kmem_scheme \<Rightarrow> (cint \<times> 'a kmem_scheme) cres"
  assumes add_fail: "allocator_ok km \<Longrightarrow> sc_list (heap s) (listHead s) es \<Longrightarrow>
      km (tick s) (heap s) = 0 \<Longrightarrow>
      \<exists>s'. add km nr f s = Inr (- ENOMEM, s') \<and> heap s' = heap s \<and> listHead s' = listHead s \<and> rest s' = rest s"
    and add_done: "allocator_ok km \<Longrightarrow> sc_list (heap s) (listHead s) es \<Longrightarrow>
      km (tick s) (heap s) \<noteq> 0 \<Longrightarrow>
      \<exists>s'. add km nr f s = Inr (0, s') \<and> rest s' = rest s
        \<and> sc_list (heap s') (listHead s') (es @ [(km (tick s) (heap s), nr, f)])
        \<and> (\<forall>b. b \<noteq> km (tick s) (heap s) \<longrightarrow> b \<notin> fst ` set es \<longrightarrow> heap s' b = heap s b)"
begin

lemma add_built:
  assumes "allocator_ok km" and "built h0 (heap s) (listHead s) es"
  shows "\<exists>ret s' es'. add km nr f s = Inr (ret, s') \<and> rest s' = rest s \<and> built h0 (heap s') (listHead s') es'
    \<and> (ret = - ENOMEM \<and> es' = es \<and> km (tick s) (heap s) = 0
       \<or> ret = 0 \<and> map snd es' = map snd es @ [(nr, f)] \<and> km (tick s) (heap s) \<noteq> 0)"
proof -
  have l: "sc_list (heap s) (listHead s) es" using assms(2) by (simp add: built_def)
  show ?thesis
  proof (cases "km (tick s) (heap s) = 0")
    case True
    from add_fail [OF assms(1) l True, of nr f] obtain s' where
      "add km nr f s = Inr (- ENOMEM, s')" "heap s' = heap s" "listHead s' = listHead s" "rest s' = rest s"
      by blast
    with assms(2) True show ?thesis by (intro exI [of _ "- ENOMEM"] exI [of _ s'] exI [of _ es]) simp
  next
    case False
    let ?a = "km (tick s) (heap s)"
    from add_done [OF assms(1) l False, of nr f] obtain s' where s': "add km nr f s = Inr (0, s')"
      "rest s' = rest s" "sc_list (heap s') (listHead s') (es @ [(?a, nr, f)])"
      "\<forall>b. b \<noteq> ?a \<longrightarrow> b \<notin> fst ` set es \<longrightarrow> heap s' b = heap s b" by blast
    have "?a \<notin> dom (heap s)" using allocator_okD(1) [OF assms(1) False] by blast
    then have "?a \<notin> dom h0" using built_dom [OF assms(2)] by simp
    with s' assms(2) have "built h0 (heap s') (listHead s') (es @ [(?a, nr, f)])"
      by (simp add: built_def)
    with s' False show ?thesis by (intro exI [of _ 0] exI [of _ s'] exI [of _ "es @ [(?a, nr, f)]"]) simp
  qed
qed

lemma add_calls_built:
  assumes "allocator_ok km" and "built h0 (heap s) (listHead s) es"
  shows "\<exists>ret s' es'. add_calls (add km) cs s = Inr (ret, s') \<and> rest s' = rest s
    \<and> built h0 (heap s') (listHead s') es'
    \<and> (ret = 0 \<and> map snd es' = map snd es @ cs
       \<or> ret = - ENOMEM \<and> (\<exists>k < length cs. map snd es' = map snd es @ take k cs))"
  using assms
proof (induction cs arbitrary: s es)
  case Nil
  then show ?case by auto
next
  case (Cons c cs)
  obtain nr f where c: "c = (nr, f)" by (cases c)
  from add_built [OF Cons.prems, of nr f] obtain ret s1 es1 where s1: "add km nr f s = Inr (ret, s1)"
    "rest s1 = rest s" "built h0 (heap s1) (listHead s1) es1"
    and alt: "ret = - ENOMEM \<and> es1 = es \<or> ret = 0 \<and> map snd es1 = map snd es @ [(nr, f)]" by blast
  from alt show ?case
  proof
    assume "ret = - ENOMEM \<and> es1 = es"
    with s1 c show ?thesis
      by (intro exI [of _ "- ENOMEM"] exI [of _ s1] exI [of _ es1]) auto
  next
    assume r: "ret = 0 \<and> map snd es1 = map snd es @ [(nr, f)]"
    from Cons.IH [OF Cons.prems(1) s1(3)] obtain ret' s' es' where
      s': "add_calls (add km) cs s1 = Inr (ret', s')" "rest s' = rest s1" "built h0 (heap s') (listHead s') es'"
      and alt': "ret' = 0 \<and> map snd es' = map snd es1 @ cs
        \<or> ret' = - ENOMEM \<and> (\<exists>k < length cs. map snd es' = map snd es1 @ take k cs)" by blast
    have "add_calls (add km) (c # cs) s = Inr (ret', s')" using s1(1) s'(1) r c by simp
    moreover have "ret' = 0 \<and> map snd es' = map snd es @ (c # cs)
        \<or> ret' = - ENOMEM \<and> (\<exists>k < length (c # cs). map snd es' = map snd es @ take k (c # cs))"
      using alt' r c by (auto intro: exI [of _ "Suc _"])
    ultimately show ?thesis using s'(2,3) s1(2) by auto
  qed
qed

lemma add_calls_roomy:
  assumes "allocator_ok km" and "roomy b km" and "built h0 (heap s) (listHead s) es"
    and "card (dom h0) + length es + length cs \<le> Suc b"
  shows "\<exists>s' es'. add_calls (add km) cs s = Inr (0, s') \<and> rest s' = rest s
    \<and> built h0 (heap s') (listHead s') es' \<and> map snd es' = map snd es @ cs"
  using assms
proof (induction cs arbitrary: s es)
  case Nil
  then show ?case by auto
next
  case (Cons c cs)
  obtain nr f where c: "c = (nr, f)" by (cases c)
  have "km (tick s) (heap s) \<noteq> 0"
    using Cons.prems(2,4) built_card [OF Cons.prems(3)] by (simp add: roomy_def)
  with add_built [OF Cons.prems(1,3), of nr f] obtain s1 es1 where
    s1: "add km nr f s = Inr (0, s1)" "rest s1 = rest s" "built h0 (heap s1) (listHead s1) es1"
      "map snd es1 = map snd es @ [(nr, f)]" by auto
  from s1(4) have "length es1 = Suc (length es)" by (metis length_append_singleton length_map)
  with Cons.prems(4) have "card (dom h0) + length es1 + length cs \<le> Suc b" by simp
  from Cons.IH [OF Cons.prems(1,2) s1(3) this] s1 c show ?case by auto
qed

end

end
