(* ===== verification/Vector_Modules.thy ===== *)
theory Vector_Modules
  imports Vec_Registry Override_List
begin

text \<open>
  The two sample vectors: \<open>vector1_module.c\<close> (\<open>Vector55\<close>) and \<open>vector2_module.c\<close> (\<open>Vector968\<close>).
  Each module has its own \<open>listHead\<close>, builds its list when it is loaded, registers it, and takes
  it down when it is removed.
\<close>

section \<open>State\<close>

record vec_modules = registry +
  v1_listHead :: addr
  v2_listHead :: addr

definition READ_OVERRIDE :: uint where "READ_OVERRIDE = 1"
definition WRITE_OVERRIDE :: uint where "WRITE_OVERRIDE = 2"
definition OPEN_OVERRIDE :: uint where "OPEN_OVERRIDE = 4"
definition CLOSE_OVERRIDE :: uint where "CLOSE_OVERRIDE = 8"
definition UNLINK_OVERRIDE :: uint where "UNLINK_OVERRIDE = 16"
definition LINK_OVERRIDE :: uint where "LINK_OVERRIDE = 32"
definition MKDIR_OVERRIDE :: uint where "MKDIR_OVERRIDE = 64"
definition RMDIR_OVERRIDE :: uint where "RMDIR_OVERRIDE = 128"
definition WRITE_LOGGED :: uint where "WRITE_LOGGED = 256"
definition OPEN_BLOCKED :: uint where "OPEN_BLOCKED = 512"

lemmas override_bits = READ_OVERRIDE_def WRITE_OVERRIDE_def OPEN_OVERRIDE_def CLOSE_OVERRIDE_def
  UNLINK_OVERRIDE_def LINK_OVERRIDE_def MKDIR_OVERRIDE_def RMDIR_OVERRIDE_def
  WRITE_LOGGED_def OPEN_BLOCKED_def

section \<open>vector1\<close>

text \<open>\<open>char vector_name[MAX_VECTOR_NAME_LEN] = "Vector55"\<close>\<close>

definition v1_vector_name :: "char list" where
  "v1_vector_name = ''Vector55'' @ replicate (MAX_VECTOR_NAME_LEN - 8) NUL"

definition v1_add_syscall_to_vector ::
  "allocator \<Rightarrow> sysnr \<Rightarrow> sys_call_ptr \<Rightarrow> 'a vec_modules_scheme \<Rightarrow> (cint \<times> 'a vec_modules_scheme) cres" where
  "v1_add_syscall_to_vector km nr f s =
     bindE (append_syscall_node km nr f (v1_listHead s) s) (\<lambda>(ret, head, s).
     Inr (ret, s\<lparr>v1_listHead := head\<rparr>))"

definition v1_delete_vector :: "'a vec_modules_scheme \<Rightarrow> ('a vec_modules_scheme) cres" where
  "v1_delete_vector s =
     (if v1_listHead s = 0 then Inr s
      else bindE (free_syscall_list (v1_listHead s) s) (\<lambda>s. Inr (s\<lparr>v1_listHead := 0\<rparr>)))"

definition v1_calls :: "(sysnr \<times> sys_call_ptr) list" where
  "v1_calls = [(NR_link, OverriddenLink), (NR_unlink, OverriddenUnlink), (NR_read, OverriddenRead),
               (NR_open, OverriddenOpen), (NR_write, OverriddenWrite)]"

definition v1_initVector :: "allocator \<Rightarrow> 'a vec_modules_scheme \<Rightarrow> (cint \<times> 'a vec_modules_scheme) cres" where
  "v1_initVector km s =
     bindE (add_calls (v1_add_syscall_to_vector km) v1_calls s) (\<lambda>(ret, s).
     if sint ret < 0 then bindE (v1_delete_vector s) (\<lambda>s. Inr (ret, s))
     else register_syscall km v1_vector_name (v1_listHead s) Mod_vector1
            (READ_OVERRIDE + WRITE_OVERRIDE + OPEN_OVERRIDE + LINK_OVERRIDE + UNLINK_OVERRIDE) s)"

definition v1_init_override :: "allocator \<Rightarrow> 'a vec_modules_scheme \<Rightarrow> (cint \<times> 'a vec_modules_scheme) cres" where
  "v1_init_override km s = v1_initVector km s"

definition v1_cleanup_override :: "'a vec_modules_scheme \<Rightarrow> ('a vec_modules_scheme) cres" where
  "v1_cleanup_override s =
     bindE (unregister_syscall (v1_listHead s) s) (\<lambda>(ret, s).
     if v1_listHead s \<noteq> 0 then v1_delete_vector s else Inr s)"

section \<open>vector2\<close>

definition v2_vector_name :: "char list" where
  "v2_vector_name = ''Vector968'' @ replicate (MAX_VECTOR_NAME_LEN - 9) NUL"

definition v2_add_syscall_to_vector ::
  "allocator \<Rightarrow> sysnr \<Rightarrow> sys_call_ptr \<Rightarrow> 'a vec_modules_scheme \<Rightarrow> (cint \<times> 'a vec_modules_scheme) cres" where
  "v2_add_syscall_to_vector km nr f s =
     bindE (append_syscall_node km nr f (v2_listHead s) s) (\<lambda>(ret, head, s).
     Inr (ret, s\<lparr>v2_listHead := head\<rparr>))"

definition v2_delete_vector :: "'a vec_modules_scheme \<Rightarrow> ('a vec_modules_scheme) cres" where
  "v2_delete_vector s =
     (if v2_listHead s = 0 then Inr s
      else bindE (free_syscall_list (v2_listHead s) s) (\<lambda>s. Inr (s\<lparr>v2_listHead := 0\<rparr>)))"

definition v2_calls :: "(sysnr \<times> sys_call_ptr) list" where
  "v2_calls = [(NR_mkdir, OverriddenMkdir), (NR_rmdir, OverriddenRmdir), (NR_write, LoggedWrite),
               (NR_open, BlockedOpen), (NR_close, OverriddenClose)]"

definition v2_initVector :: "allocator \<Rightarrow> 'a vec_modules_scheme \<Rightarrow> (cint \<times> 'a vec_modules_scheme) cres" where
  "v2_initVector km s =
     bindE (add_calls (v2_add_syscall_to_vector km) v2_calls s) (\<lambda>(ret, s).
     if sint ret < 0 then bindE (v2_delete_vector s) (\<lambda>s. Inr (ret, s))
     else register_syscall km v2_vector_name (v2_listHead s) Mod_vector2
            (MKDIR_OVERRIDE + RMDIR_OVERRIDE + WRITE_LOGGED + OPEN_BLOCKED + CLOSE_OVERRIDE) s)"

definition v2_init_override :: "allocator \<Rightarrow> 'a vec_modules_scheme \<Rightarrow> (cint \<times> 'a vec_modules_scheme) cres" where
  "v2_init_override km s = v2_initVector km s"

definition v2_cleanup_override :: "'a vec_modules_scheme \<Rightarrow> ('a vec_modules_scheme) cres" where
  "v2_cleanup_override s =
     bindE (unregister_syscall (v2_listHead s) s) (\<lambda>(ret, s).
     if v2_listHead s \<noteq> 0 then v2_delete_vector s else Inr s)"

section \<open>The modules own their lists\<close>

definition v1_rest :: "'a vec_modules_scheme \<Rightarrow> 'a vec_modules_scheme" where
  "v1_rest s = s\<lparr>heap := Map.empty, tick := 0, v1_listHead := 0\<rparr>"

definition v2_rest :: "'a vec_modules_scheme \<Rightarrow> 'a vec_modules_scheme" where
  "v2_rest s = s\<lparr>heap := Map.empty, tick := 0, v2_listHead := 0\<rparr>"

interpretation v1: syscall_list_owner v1_listHead v1_rest v1_add_syscall_to_vector
proof unfold_locales
  fix km es nr f and s :: "'a vec_modules_scheme"
  assume a: "allocator_ok km" "sc_list (heap s) (v1_listHead s) es"
  from append_syscall_node_spec [OF this, of nr f] obtain ret p s1
    where s1: "append_syscall_node km nr f (v1_listHead s) s = Inr (ret, p, s1)"
      "added_syscall km nr f es (v1_listHead s) s ret p s1" by blast
  note step = v1_add_syscall_to_vector_def v1_rest_def s1(1)
  show "km (tick s) (heap s) = 0 \<Longrightarrow> \<exists>s'. v1_add_syscall_to_vector km nr f s = Inr (- ENOMEM, s')
      \<and> heap s' = heap s \<and> v1_listHead s' = v1_listHead s \<and> v1_rest s' = v1_rest s"
    using s1(2) by (auto simp: step elim!: added_syscallE)
  show "km (tick s) (heap s) \<noteq> 0 \<Longrightarrow> \<exists>s'. v1_add_syscall_to_vector km nr f s = Inr (0, s')
      \<and> v1_rest s' = v1_rest s
      \<and> sc_list (heap s') (v1_listHead s') (es @ [(km (tick s) (heap s), nr, f)])
      \<and> (\<forall>b. b \<noteq> km (tick s) (heap s) \<longrightarrow> b \<notin> fst ` set es \<longrightarrow> heap s' b = heap s b)"
    using s1(2) by (rule added_syscallE) (simp_all add: step)
qed

interpretation v2: syscall_list_owner v2_listHead v2_rest v2_add_syscall_to_vector
proof unfold_locales
  fix km es nr f and s :: "'a vec_modules_scheme"
  assume a: "allocator_ok km" "sc_list (heap s) (v2_listHead s) es"
  from append_syscall_node_spec [OF this, of nr f] obtain ret p s1
    where s1: "append_syscall_node km nr f (v2_listHead s) s = Inr (ret, p, s1)"
      "added_syscall km nr f es (v2_listHead s) s ret p s1" by blast
  note step = v2_add_syscall_to_vector_def v2_rest_def s1(1)
  show "km (tick s) (heap s) = 0 \<Longrightarrow> \<exists>s'. v2_add_syscall_to_vector km nr f s = Inr (- ENOMEM, s')
      \<and> heap s' = heap s \<and> v2_listHead s' = v2_listHead s \<and> v2_rest s' = v2_rest s"
    using s1(2) by (auto simp: step elim!: added_syscallE)
  show "km (tick s) (heap s) \<noteq> 0 \<Longrightarrow> \<exists>s'. v2_add_syscall_to_vector km nr f s = Inr (0, s')
      \<and> v2_rest s' = v2_rest s
      \<and> sc_list (heap s') (v2_listHead s') (es @ [(km (tick s) (heap s), nr, f)])
      \<and> (\<forall>b. b \<noteq> km (tick s) (heap s) \<longrightarrow> b \<notin> fst ` set es \<longrightarrow> heap s' b = heap s b)"
    using s1(2) by (rule added_syscallE) (simp_all add: step)
qed

section \<open>Loading and removing a sample vector\<close>

lemma reg_inv_built:
  assumes "reg_inv s" and "built (heap s) (heap s') p es"
    and "vec_list s' = vec_list s" and "list_lock s' = list_lock s"
  shows "reg_inv s'"
proof -
  have "heap s' (node_ptr v) = Some Vector_node" if "v \<in> set (vec_list s)" for v
  proof -
    have live: "heap s (node_ptr v) = Some Vector_node" using that assms(1) by (simp add: reg_inv_def)
    then have "node_ptr v \<notin> fst ` set es" using assms(2) unfolding built_def by blast
    with live assms(2) show ?thesis by (simp add: built_def)
  qed
  with assms(1,3,4) show ?thesis by (simp add: reg_inv_def reg_ok_def)
qed

text \<open>
  The two modules are one program over their own \<open>listHead\<close>, name, calls and bitmap. The locale
  states that shape; what loading and removing do is proved once.
\<close>

locale sample_vector = syscall_list_owner listHead rest add
  for listHead :: "'a registry_scheme \<Rightarrow> addr"
    and rest :: "'a registry_scheme \<Rightarrow> 'r"
    and add :: "allocator \<Rightarrow> sysnr \<Rightarrow> sys_call_ptr \<Rightarrow> 'a registry_scheme \<Rightarrow> (cint \<times> 'a registry_scheme) cres" +
  fixes clear_head :: "'a registry_scheme \<Rightarrow> 'a registry_scheme"
    and name :: "char list"
    and calls :: "(sysnr \<times> sys_call_ptr) list"
    and vmod :: kmodule
    and bm :: uint
    and delete :: "'a registry_scheme \<Rightarrow> ('a registry_scheme) cres"
    and init :: "allocator \<Rightarrow> 'a registry_scheme \<Rightarrow> (cint \<times> 'a registry_scheme) cres"
    and cleanup :: "'a registry_scheme \<Rightarrow> ('a registry_scheme) cres"
  assumes name_stored: "name_ok name"
    and calls_nonempty: "calls \<noteq> []"
    and rest_registry: "rest s' = rest s \<Longrightarrow>
      vec_list s' = vec_list s \<and> list_lock s' = list_lock s \<and> mod_log s' = mod_log s"
    and head_frame: "listHead (s\<lparr>tick := k, heap := h, vec_list := l\<rparr>) = listHead s"
      "listHead (s\<lparr>vec_list := l, heap := h\<rparr>) = listHead s"
    and clear_head: "listHead (clear_head s) = 0" "heap (clear_head s) = heap s"
      "rest (clear_head s) = rest s"
    and rest_heap: "rest (s\<lparr>heap := h\<rparr>) = rest s"
    and delete_code: "delete s = (if listHead s = 0 then Inr s
      else bindE (free_syscall_list (listHead s) s) (\<lambda>s. Inr (clear_head s)))"
    and init_code: "init km s = bindE (add_calls (add km) calls s) (\<lambda>(ret, s).
      if sint ret < 0 then bindE (delete s) (\<lambda>s. Inr (ret, s))
      else register_syscall km name (listHead s) vmod bm s)"
    and cleanup_code: "cleanup s = bindE (unregister_syscall (listHead s) s) (\<lambda>(ret, s).
      if listHead s \<noteq> 0 then delete s else Inr s)"
begin

lemma delete_list:
  assumes "sc_list (heap s) (listHead s) es"
  shows "\<exists>s'. delete s = Inr s' \<and> listHead s' = 0 \<and> heap s' = heap s |` (- fst ` set es)
    \<and> rest s' = rest s"
proof (cases "listHead s = 0")
  case True
  with assms have "es = []" by simp
  with True show ?thesis by (simp add: delete_code restrict_map_def)
next
  case False
  with free_syscall_list_spec [OF assms] show ?thesis
    by (simp add: delete_code clear_head rest_heap)
qed

text \<open>
  The possible outcomes of loading: the list could not be built and is gone again; the list was
  built but registering failed, and its nodes stay allocated; or the vector is registered.
\<close>

lemma init_outcome:
  assumes km: "allocator_ok km" and inv: "reg_inv s" and start: "listHead s = 0"
  shows "\<exists>ret s' es. init km s = Inr (ret, s') \<and> reg_inv s' \<and> mod_log s' = mod_log s
    \<and> (ret = - ENOMEM \<and> vec_list s' = vec_list s \<and> listHead s' = 0 \<and> heap s' = heap s
     \<or> ret = - ENOMEM \<and> vec_list s' = vec_list s \<and> map snd es = calls
        \<and> built (heap s) (heap s') (listHead s') es
     \<or> ret = 0 \<and> map snd es = calls \<and> (\<exists>va. va \<noteq> 0 \<and> heap s va = None
        \<and> vec_list s' = stored_vector va (c_string name) (listHead s') 0 vmod bm # vec_list s
        \<and> built ((heap s)(va \<mapsto> Vector_node)) (heap s') (listHead s') es))"
proof -
  have "built (heap s) (heap s) (listHead s) []" using start by simp
  from add_calls_built [OF km this, of calls] obtain ret s1 es where
    s1: "add_calls (add km) calls s = Inr (ret, s1)" "rest s1 = rest s"
      "built (heap s) (heap s1) (listHead s1) es"
    and alt: "ret = 0 \<and> map snd es = calls
      \<or> ret = - ENOMEM \<and> (\<exists>k < length calls. map snd es = take k calls)" by auto
  note f1 = rest_registry [OF s1(2)]
  have inv1: "reg_inv s1" by (rule reg_inv_built [OF inv s1(3)]) (simp_all add: f1)
  show ?thesis
  proof (cases "ret = 0")
    case False
    with alt have ret: "ret = - ENOMEM" by simp
    from s1(3) have "sc_list (heap s1) (listHead s1) es" by (simp add: built_def)
    from delete_list [OF this] obtain s2 where s2: "delete s1 = Inr s2" "listHead s2 = 0"
      "heap s2 = heap s" "rest s2 = rest s1"
      using built_delete [OF s1(3)] by auto
    have "reg_inv s2"
      using inv rest_registry [OF s2(4)] f1 s2(3) by (simp add: reg_inv_def reg_ok_def)
    then have "init km s = Inr (ret, s2) \<and> reg_inv s2 \<and> mod_log s2 = mod_log s
        \<and> ret = - ENOMEM \<and> vec_list s2 = vec_list s \<and> listHead s2 = 0 \<and> heap s2 = heap s"
      using s1(1) ret s2 f1 rest_registry [OF s2(4)] by (simp add: init_code)
    then show ?thesis by blast
  next
    case True
    with alt have es: "map snd es = calls" by auto
    let ?va = "km (tick s1) (heap s1)"
    let ?r = "registered km (c_string name) (listHead s1) 0 vmod bm s1"
    have init: "init km s = Inr ?r"
      using s1(1) True register_syscall_spec [OF km reg_inv_ok [OF inv1] name_stored]
      by (simp add: init_code)
    have inv2: "reg_inv (snd ?r)" by (rule reg_inv_registered [OF km inv1 name_stored])
    show ?thesis
    proof (cases "?va = 0")
      case True
      have "listHead (s1\<lparr>tick := Suc (tick s1)\<rparr>) = listHead s1"
        using head_frame(1) [where s = s1 and h = "heap s1" and k = "Suc (tick s1)" and l = "vec_list s1"] by simp
      with True init inv2 f1 es s1(3) show ?thesis by (auto simp: registered_def)
    next
      case False
      then have none: "heap s1 ?va = None" by (rule allocator_okD(1) [OF km])
      then have notin: "?va \<notin> fst ` set es" and free: "heap s ?va = None"
        using built_dom [OF s1(3)] by (force simp: domIff)+
      with s1(3) have "built ((heap s)(?va \<mapsto> Vector_node)) ((heap s1)(?va \<mapsto> Vector_node)) (listHead s1) es"
        by (simp add: built_def sc_list_frame)
      with False init inv2 f1 es free show ?thesis
        by (intro exI [of _ 0] exI [of _ "snd ?r"] exI [of _ es])
          (auto simp: registered_def Let_def head_frame)
    qed
  qed
qed

text \<open>With room in memory loading succeeds.\<close>

lemma init_roomy:
  assumes km: "allocator_ok km" "roomy b km" and inv: "reg_inv s" and start: "listHead s = 0"
    and room: "card (dom (heap s)) + length calls \<le> b"
  shows "\<exists>s' es va. init km s = Inr (0, s') \<and> reg_inv s' \<and> map snd es = calls \<and> va \<noteq> 0
    \<and> vec_list s' = stored_vector va (c_string name) (listHead s') 0 vmod bm # vec_list s
    \<and> built ((heap s)(va \<mapsto> Vector_node)) (heap s') (listHead s') es \<and> heap s va = None"
proof -
  have "built (heap s) (heap s) (listHead s) []" using start by simp
  from add_calls_roomy [OF km this, of calls] room obtain s1 es where
    s1: "add_calls (add km) calls s = Inr (0, s1)" "rest s1 = rest s"
      "built (heap s) (heap s1) (listHead s1) es" "map snd es = calls" by auto
  have inv1: "reg_inv s1"
    by (rule reg_inv_built [OF inv s1(3)]) (simp_all add: rest_registry [OF s1(2)])
  have "length es = length calls" using s1(4) by (metis length_map)
  then have "km (tick s1) (heap s1) \<noteq> 0"
    using km(2) built_card [OF s1(3)] room by (simp add: roomy_def)
  then have "registered km (c_string name) (listHead s1) 0 vmod bm s1 =
      (0, snd (registered km (c_string name) (listHead s1) 0 vmod bm s1))"
    by (simp add: registered_def Let_def)
  then have "\<exists>s'. init km s = Inr (0, s')"
    using s1(1) register_syscall_spec [OF km(1) reg_inv_ok [OF inv1] name_stored, of "listHead s1" vmod bm]
    by (auto simp: init_code)
  with init_outcome [OF km(1) inv start] show ?thesis by fastforce
qed

text \<open>
  Removing the module when its vector is the one found for its address. With no reference left
  the vector and its list are gone; with a reference the vector stays registered although the
  memory its address points to has been freed.
\<close>

lemma cleanup_unreferenced:
  assumes inv: "reg_inv s" and es: "sc_list (heap s) (listHead s) es"
    and i: "addr_index (listHead s) s = Some i" and r: "\<not> sint (refcount (vec_list s ! i)) > 0"
  shows "\<exists>s'. cleanup s = Inr s' \<and> listHead s' = 0 \<and> vec_list s' = list_del i (vec_list s)
    \<and> heap s' = (heap s)(node_ptr (vec_list s ! i) := None) |` (- fst ` set es)
    \<and> rest s' = rest (s\<lparr>vec_list := list_del i (vec_list s)\<rparr>)"
proof -
  let ?p = "node_ptr (vec_list s ! i)"
  let ?s = "s\<lparr>vec_list := list_del i (vec_list s), heap := (heap s)(?p := None)\<rparr>"
  have un: "unregister_syscall (listHead s) s = Inr (0, ?s)"
    using unregister_syscall_spec [OF inv, of "listHead s"] i r by simp
  have "vec_list s ! i \<in> set (vec_list s)" using index_bounds(2) [OF i] by simp
  then have "heap s ?p = Some Vector_node" using inv by (simp add: reg_inv_def)
  then have "?p \<notin> fst ` set es" using sc_list_heap [OF es] by fastforce
  moreover have h: "listHead ?s = listHead s"
    by (rule head_frame(2))
  ultimately have "sc_list (heap ?s) (listHead ?s) es" using es by (simp add: sc_list_frame)
  from delete_list [OF this] obtain s' where s': "delete ?s = Inr s'" "listHead s' = 0"
    "heap s' = heap ?s |` (- fst ` set es)" "rest s' = rest ?s" by blast
  have "cleanup s = (if listHead s \<noteq> 0 then delete ?s else Inr ?s)"
    by (simp only: cleanup_code un bindE_Inr case_prod_conv h)
  also have "\<dots> = Inr s'" using s'(1) h by (cases "listHead s = 0") (simp_all only: delete_code if_True if_False simp_thms)
  finally have "cleanup s = Inr s'" .
  moreover have "vec_list s' = list_del i (vec_list s)" using rest_registry [OF s'(4)] by simp
  moreover have "heap s' = (heap s)(?p := None) |` (- fst ` set es)" by (simp only: s'(3)) simp
  moreover have "rest s' = rest (s\<lparr>vec_list := list_del i (vec_list s)\<rparr>)"
    unfolding s'(4) by (rule rest_heap)
  ultimately show ?thesis using s'(2) by (intro exI [of _ s'] conjI)
qed

lemma cleanup_referenced:
  assumes inv: "reg_inv s" and es: "sc_list (heap s) (listHead s) es"
    and i: "addr_index (listHead s) s = Some i" and r: "sint (refcount (vec_list s ! i)) > 0"
    and nz: "listHead s \<noteq> 0"
  shows "\<exists>s'. cleanup s = Inr s' \<and> vec_list s' = vec_list s
    \<and> addr_index (listHead s) s' = Some i \<and> heap s' (listHead s) = None"
proof -
  have un: "unregister_syscall (listHead s) s = Inr (- 2222, s)"
    using unregister_syscall_spec [OF inv, of "listHead s"] i r by simp
  from delete_list [OF es] obtain s' where s': "delete s = Inr s'"
    "heap s' = heap s |` (- fst ` set es)" "rest s' = rest s" by blast
  have "listHead s \<in> fst ` set es" using es nz by (cases es) auto
  with un s' nz rest_registry [OF s'(3)] i show ?thesis
    by (simp add: cleanup_code addr_index_def restrict_map_def)
qed

text \<open>Loading and then removing an unused vector leaves no trace in the heap or the list.\<close>

lemma init_cleanup:
  assumes km: "allocator_ok km" and inv: "reg_inv s" and start: "listHead s = 0"
    and init: "init km s = Inr (0, s')"
  shows "\<exists>s''. cleanup s' = Inr s'' \<and> heap s'' = heap s \<and> vec_list s'' = vec_list s \<and> listHead s'' = 0"
proof -
  from init_outcome [OF km inv start] init obtain es va where inv': "reg_inv s'" and va: "va \<noteq> 0"
    "heap s va = None" "vec_list s' = stored_vector va (c_string name) (listHead s') 0 vmod bm # vec_list s"
    and b: "built ((heap s)(va \<mapsto> Vector_node)) (heap s') (listHead s') es" by auto
  have i: "addr_index (listHead s') s' = Some 0" using va(3) by (simp add: addr_index_def)
  have l: "sc_list (heap s') (listHead s') es" using b by (simp add: built_def)
  have n: "node_ptr (vec_list s' ! 0) = va" "list_del 0 (vec_list s') = vec_list s"
    "\<not> sint (refcount (vec_list s' ! 0)) > 0" by (simp_all add: va(3))
  from cleanup_unreferenced [OF inv' l i n(3), unfolded n(1,2)] obtain s'' where s'': "cleanup s' = Inr s''"
    "listHead s'' = 0" "vec_list s'' = vec_list s"
    "heap s'' = (heap s')(va := None) |` (- fst ` set es)" by blast
  have "(heap s')(va := None) |` (- fst ` set es) = (heap s' |` (- fst ` set es))(va := None)"
    by (rule restrict_upd_None)
  also have "\<dots> = heap s"
    unfolding built_delete [OF b] using va(2) by (rule upd_None_idem)
  finally have "heap s'' = heap s" using s''(4) by (simp only:)
  with s''(1-3) show ?thesis by (intro exI [of _ s''] conjI)
qed

end

interpretation sample1: sample_vector v1_listHead v1_rest v1_add_syscall_to_vector
  "\<lambda>s. s\<lparr>v1_listHead := 0\<rparr>" v1_vector_name v1_calls Mod_vector1
  "READ_OVERRIDE + WRITE_OVERRIDE + OPEN_OVERRIDE + LINK_OVERRIDE + UNLINK_OVERRIDE"
  v1_delete_vector v1_init_override v1_cleanup_override
proof unfold_locales
  show "name_ok v1_vector_name"
    by (simp add: name_ok_def v1_vector_name_def MAX_VECTOR_NAME_LEN_def c_string_append_terminated)
  show "v1_calls \<noteq> []" by (simp add: v1_calls_def)
  show "v1_rest s' = v1_rest s \<Longrightarrow> vec_list s' = vec_list s \<and> list_lock s' = list_lock s
      \<and> mod_log s' = mod_log s" for s s' :: "'a vec_modules_scheme"
    by (auto simp: v1_rest_def dest: arg_cong [where f = vec_list] arg_cong [where f = list_lock]
        arg_cong [where f = mod_log])
qed (simp_all add: v1_rest_def v1_delete_vector_def v1_init_override_def v1_initVector_def
      v1_cleanup_override_def)

interpretation sample2: sample_vector v2_listHead v2_rest v2_add_syscall_to_vector
  "\<lambda>s. s\<lparr>v2_listHead := 0\<rparr>" v2_vector_name v2_calls Mod_vector2
  "MKDIR_OVERRIDE + RMDIR_OVERRIDE + WRITE_LOGGED + OPEN_BLOCKED + CLOSE_OVERRIDE"
  v2_delete_vector v2_init_override v2_cleanup_override
proof unfold_locales
  show "name_ok v2_vector_name"
    by (simp add: name_ok_def v2_vector_name_def MAX_VECTOR_NAME_LEN_def c_string_append_terminated)
  show "v2_calls \<noteq> []" by (simp add: v2_calls_def)
  show "v2_rest s' = v2_rest s \<Longrightarrow> vec_list s' = vec_list s \<and> list_lock s' = list_lock s
      \<and> mod_log s' = mod_log s" for s s' :: "'a vec_modules_scheme"
    by (auto simp: v2_rest_def dest: arg_cong [where f = vec_list] arg_cong [where f = list_lock]
        arg_cong [where f = mod_log])
qed (simp_all add: v2_rest_def v2_delete_vector_def v2_init_override_def v2_initVector_def
      v2_cleanup_override_def)

end
