(* ===== verification/Pin_Accounting.thy ===== *)
theory Pin_Accounting
  imports Vec_Registry
begin

text \<open>
  What keeps a module in memory. Every reference to a registered vector is to come with one
  \<open>try_module_get\<close> of the module that owns it and every release with one \<open>module_put\<close>. The
  excess of a module is the number of its gets minus puts, less the references its registered
  vectors count, in the 32-bit arithmetic of \<open>refcount\<close>; it is 0 when the two agree.
\<close>

definition vector_refs :: "kmodule \<Rightarrow> struct_vector list \<Rightarrow> cint" where
  "vector_refs m vs = sum_list (map (\<lambda>v. if vector_module v = m then refcount v else 0) vs)"

definition pin_excess :: "kmodule \<Rightarrow> 'a registry_scheme \<Rightarrow> cint" where
  "pin_excess m s = of_int (module_refs m (mod_log s)) - vector_refs m (vec_list s)"

definition pins_balanced :: "'a registry_scheme \<Rightarrow> bool" where
  "pins_balanced s \<longleftrightarrow> (\<forall>m. pin_excess m s = 0)"

lemma vector_refs_Nil [simp]: "vector_refs m [] = 0"
  by (simp add: vector_refs_def)

lemma vector_refs_Cons [simp]:
  "vector_refs m (v # vs) = (if vector_module v = m then refcount v else 0) + vector_refs m vs"
  by (simp add: vector_refs_def)

lemma pin_excess_frame:
  "mod_log s' = mod_log s \<Longrightarrow> vec_list s' = vec_list s \<Longrightarrow> pin_excess m s' = pin_excess m s"
  by (simp add: pin_excess_def)

lemma module_vec_list [simp]:
  "vec_list (try_module_get k s) = vec_list s" "vec_list (module_put k s) = vec_list s"
  "list_lock (try_module_get k s) = list_lock s" "list_lock (module_put k s) = list_lock s"
  by (simp_all add: try_module_get_def module_put_def)

lemma pin_excess_module:
  "pin_excess m (try_module_get k s) = pin_excess m s + (if k = m then 1 else 0)"
  "pin_excess m (module_put k s) = pin_excess m s - (if k = m then 1 else 0)"
  by (simp_all add: pin_excess_def)

lemma vector_refs_add_refcount:
  assumes "i < length (vec_list s)"
  shows "vector_refs m (vec_list (add_refcount i d s)) =
    vector_refs m (vec_list s) + (if vector_module (vec_list s ! i) = m then d else 0)"
  using sum_list_update_group [OF assms, of "\<lambda>v. if vector_module v = m then refcount v else 0"]
  by (simp add: vector_refs_def add_refcount_def)

text \<open>Taking and dropping a reference keep the balance of every module.\<close>

lemma pin_excess_ref [simp]:
  assumes "i < length (vec_list s)"
  shows "pin_excess m (take_ref i s) = pin_excess m s"
    and "pin_excess m (drop_ref i s) = pin_excess m s"
  using assms by (simp_all add: pin_excess_def vector_refs_add_refcount)

lemma pin_excess_registered:
  "pin_excess m (snd (registered km n a r k b s)) =
   pin_excess m s - (if km (tick s) (heap s) \<noteq> 0 \<and> k = m then r else 0)"
  by (simp add: registered_def Let_def pin_excess_def)

lemma pin_excess_delete:
  assumes "i < length (vec_list s)"
  shows "pin_excess m (s\<lparr>vec_list := list_del i (vec_list s), heap := h\<rparr>) =
    pin_excess m s + (if vector_module (vec_list s ! i) = m then refcount (vec_list s ! i) else 0)"
  using sum_list_del_group [OF assms, of "\<lambda>v. if vector_module v = m then refcount v else 0"]
  by (simp add: pin_excess_def vector_refs_def)

end
