(* ===== verification/Tasks.thy ===== *)
theory Tasks
  imports Vector_Modules Pin_Accounting
begin

text \<open>
  The processes: \<open>current\<close>, and the field \<open>syscall_vector_info\<close> that the patched
  \<open>struct task_struct\<close> has (\<open>sched.cpy\<close>), the address of the vector the process runs under, NULL
  for none. The two functions of \<open>ioctl_module.c\<close> that set it.
\<close>

type_synonym pid = cint

record tasks = vec_modules +
  current :: pid
  vector_info :: "pid \<rightharpoonup> addr"     \<comment> \<open>\<open>syscall_vector_info\<close> of each task there is\<close>

definition current_vector :: "'a tasks_scheme \<Rightarrow> addr" where
  "current_vector s = (case vector_info s (current s) of None \<Rightarrow> 0 | Some a \<Rightarrow> a)"

definition set_current_vector :: "addr \<Rightarrow> 'a tasks_scheme \<Rightarrow> 'a tasks_scheme" where
  "set_current_vector a s = s\<lparr>vector_info := (vector_info s)(current s \<mapsto> a)\<rparr>"

definition add_to_task_struct :: "addr \<Rightarrow> 'a tasks_scheme \<Rightarrow> cint \<times> 'a tasks_scheme" where
  "add_to_task_struct vector_struct s = (0, set_current_vector vector_struct s)"

definition remove_from_task_struct :: "'a tasks_scheme \<Rightarrow> cint \<times> 'a tasks_scheme" where
  "remove_from_task_struct s = (0, set_current_vector 0 s)"

lemma set_current_vector_frame [simp]:
  "heap (set_current_vector a s) = heap s" "tick (set_current_vector a s) = tick s"
  "mod_log (set_current_vector a s) = mod_log s" "vec_list (set_current_vector a s) = vec_list s"
  "list_lock (set_current_vector a s) = list_lock s" "current (set_current_vector a s) = current s"
  "current_vector (set_current_vector a s) = a"
  "vector_info (set_current_vector a s) = (vector_info s)(current s \<mapsto> a)"
  "reg_ok (set_current_vector a s) = reg_ok s" "reg_inv (set_current_vector a s) = reg_inv s"
  by (simp_all add: set_current_vector_def current_vector_def reg_ok_def reg_inv_def)

lemma set_current_vector_twice [simp]:
  "set_current_vector a (set_current_vector b s) = set_current_vector a s"
  by (simp add: set_current_vector_def)

text \<open>Counting references never touches the processes.\<close>

lemma ref_tasks [simp]:
  "current (take_ref i s) = current s" "vector_info (take_ref i s) = vector_info s"
  "current (drop_ref i s) = current s" "vector_info (drop_ref i s) = vector_info s"
  by (simp_all add: take_ref_def drop_ref_def try_module_get_def module_put_def add_refcount_def)

end
