(* ===== verification/Dynamic_Vector.thy ===== *)
theory Dynamic_Vector
  imports Tasks "HOL-Library.Sublist"
begin

text \<open>
  Vectors made on the fly, \<open>dynamic_vector.c\<close>: a bitmap names the overrides, a vector with that
  bitmap is reused or built, registered and given to the calling process; the addresses of the
  lists built are kept in \<open>list_heads[256]\<close> for the removal of the module.
\<close>

section \<open>State and operations\<close>

record dyn_state = tasks +
  dyn_listHead :: addr
  list_heads :: "addr list"
  dyn_i :: nat

definition dyn_add_syscall_to_vector ::
  "allocator \<Rightarrow> sysnr \<Rightarrow> sys_call_ptr \<Rightarrow> 'a dyn_state_scheme \<Rightarrow> (cint \<times> 'a dyn_state_scheme) cres" where
  "dyn_add_syscall_to_vector km nr f s =
     bindE (append_syscall_node km nr f (dyn_listHead s) s) (\<lambda>(ret, head, s).
     Inr (ret, s\<lparr>dyn_listHead := head\<rparr>))"

definition dyn_delete_vector :: "addr \<Rightarrow> 'a dyn_state_scheme \<Rightarrow> ('a dyn_state_scheme) cres" where
  "dyn_delete_vector listHeads s = free_syscall_list listHeads s"

text \<open>The overrides in the order the code tests their bits.\<close>

definition dyn_table :: "(uint \<times> sysnr \<times> sys_call_ptr) list" where
  "dyn_table =
     [(READ_OVERRIDE, NR_read, OverriddenRead), (WRITE_OVERRIDE, NR_write, OverriddenWrite),
      (OPEN_OVERRIDE, NR_open, OverriddenOpen), (CLOSE_OVERRIDE, NR_close, OverriddenClose),
      (LINK_OVERRIDE, NR_link, OverriddenLink), (UNLINK_OVERRIDE, NR_unlink, OverriddenUnlink),
      (WRITE_LOGGED, NR_write, LoggedWrite), (OPEN_BLOCKED, NR_open, BlockedOpen)]"

text \<open>
  \<open>if (bitmap & BIT) { ret = add_syscall_to_vector(...); if (ret < 0) goto free_vector_prefix; }\<close>
  for one row after the other. \<open>ret\<close> is an \<open>unsigned long\<close>; the flag says that the jump was taken.
\<close>

fun dyn_add_overrides ::
  "allocator \<Rightarrow> uint \<Rightarrow> (uint \<times> sysnr \<times> sys_call_ptr) list \<Rightarrow> ulong \<Rightarrow> 'a dyn_state_scheme
   \<Rightarrow> (bool \<times> ulong \<times> 'a dyn_state_scheme) cres" where
  "dyn_add_overrides km bm [] ret s = Inr (False, ret, s)"
| "dyn_add_overrides km bm ((b, nr, f) # t) ret s =
     (if bm AND b \<noteq> 0 then
        bindE (dyn_add_syscall_to_vector km nr f s) (\<lambda>(r, s).
        let ret = scast r :: ulong in
        if ret < 0 then Inr (True, ret, s) else dyn_add_overrides km bm t ret s)
      else dyn_add_overrides km bm t ret s)"

text \<open>\<open>list_heads[i++] = (unsigned long)listHead\<close>\<close>

definition push_list_head :: "addr \<Rightarrow> 'a dyn_state_scheme \<Rightarrow> ('a dyn_state_scheme) cres" where
  "push_list_head a s =
     (if dyn_i s < length (list_heads s)
      then Inr (s\<lparr>list_heads := (list_heads s)[dyn_i s := a], dyn_i := Suc (dyn_i s)\<rparr>)
      else Inl Buffer_overflow)"

text \<open>The last part of \<open>add_vector_from_bitmap\<close>: pin the module, register, assign, remember.\<close>

definition register_and_assign ::
  "allocator \<Rightarrow> uint \<Rightarrow> char list \<Rightarrow> 'a dyn_state_scheme \<Rightarrow> (cint \<times> 'a dyn_state_scheme) cres" where
  "register_and_assign km bm vector_prefix s =
     (let s = try_module_get Mod_dynamic_vector s in
      bindE (register_dynamic_syscall km vector_prefix (dyn_listHead s) Mod_dynamic_vector bm s) (\<lambda>(_, s).
      let ret = dyn_listHead s;
          s = set_current_vector (dyn_listHead s) s in
      bindE (push_list_head (dyn_listHead s) s) (\<lambda>s.
      Inr (ucast ret, s\<lparr>dyn_listHead := 0\<rparr>))))"

text \<open>The part of \<open>add_vector_from_bitmap\<close> after the search: make, register and assign a vector.\<close>

definition create_from_bitmap ::
  "allocator \<Rightarrow> uint \<Rightarrow> ulong \<Rightarrow> 'a dyn_state_scheme \<Rightarrow> (cint \<times> 'a dyn_state_scheme) cres" where
  "create_from_bitmap km bm ret s =
     (let (temp, s) = kmalloc km (Raw 32) s in
      if temp = 0 then Inr (ucast ret, s\<lparr>dyn_listHead := 0\<rparr>)
      else
        bindE (sprintf_fits 32 (sprintf_d bm)) (\<lambda>temp_str.
        let (vector_prefix, s) = kmalloc km (Raw (7 + length temp_str)) s in
        if vector_prefix = 0 then
          bindE (kfree temp s) (\<lambda>s.
          bindE (dyn_delete_vector (dyn_listHead s) s) (\<lambda>s.
          Inr (ucast ret, s\<lparr>dyn_listHead := 0\<rparr>)))
        else
          bindE (bindE (write_at 0 ''Vector'' (kzalloc_chars (7 + length temp_str)))
                   (\<lambda>vector_prefix. strcat vector_prefix temp_str)) (\<lambda>name.
          bindE (dyn_add_overrides km bm dyn_table ret s) (\<lambda>(failed, ret, s).
          if failed then
            bindE (kfree vector_prefix s) (\<lambda>s.
            bindE (kfree temp s) (\<lambda>s.
            bindE (dyn_delete_vector (dyn_listHead s) s) (\<lambda>s.
            Inr (ucast ret, s\<lparr>dyn_listHead := 0\<rparr>))))
          else
            register_and_assign km bm name s))))"

definition add_vector_from_bitmap ::
  "allocator \<Rightarrow> uint \<Rightarrow> 'a dyn_state_scheme \<Rightarrow> (cint \<times> 'a dyn_state_scheme) cres" where
  "add_vector_from_bitmap km bm s =
     bindE (check_any_current_vector bm s) (\<lambda>(ret, s).
     if ret \<noteq> 0 then Inr (ucast ret, (set_current_vector ret s)\<lparr>dyn_listHead := 0\<rparr>)
     else create_from_bitmap km bm ret s)"

text \<open>\<open>for (; i < 256; i++) list_heads[i] = 0;\<close> with a local \<open>i\<close>.\<close>

definition dyn_init_override :: "'a dyn_state_scheme \<Rightarrow> cint \<times> 'a dyn_state_scheme" where
  "dyn_init_override s =
     (0, s\<lparr>list_heads := foldl (\<lambda>hs i. hs[i := 0]) (list_heads s) [0..<256]\<rparr>)"

text \<open>\<open>for (j = 0; j < i; j++) { ret = unregister_syscall(...); if (...) delete_vector(...); }\<close>\<close>

fun dyn_cleanup_loop :: "nat list \<Rightarrow> 'a dyn_state_scheme \<Rightarrow> ('a dyn_state_scheme) cres" where
  "dyn_cleanup_loop [] s = Inr s"
| "dyn_cleanup_loop (j # js) s =
     (if j < length (list_heads s) then
        bindE (unregister_syscall (list_heads s ! j) s) (\<lambda>(ret, s).
        bindE (if list_heads s ! j \<noteq> 0 then dyn_delete_vector (list_heads s ! j) s else Inr s)
          (\<lambda>s. dyn_cleanup_loop js s))
      else Inl Buffer_overflow)"

definition dyn_cleanup_override :: "'a dyn_state_scheme \<Rightarrow> ('a dyn_state_scheme) cres" where
  "dyn_cleanup_override s =
     bindE (dyn_cleanup_loop [0..<dyn_i s] s) (\<lambda>s. Inr (s\<lparr>dyn_i := 0\<rparr>))"

section \<open>The list it builds\<close>

text \<open>The overrides a bitmap asks for and this code builds.\<close>

definition dyn_calls :: "uint \<Rightarrow> (sysnr \<times> sys_call_ptr) list" where
  "dyn_calls bm = map snd (filter (\<lambda>(b, _). bm AND b \<noteq> 0) dyn_table)"

definition dyn_rest :: "'a dyn_state_scheme \<Rightarrow> 'a dyn_state_scheme" where
  "dyn_rest s = s\<lparr>heap := Map.empty, tick := 0, dyn_listHead := 0\<rparr>"

interpretation dyn: syscall_list_owner dyn_listHead dyn_rest dyn_add_syscall_to_vector
proof unfold_locales
  fix km es nr f and s :: "'a dyn_state_scheme"
  assume a: "allocator_ok km" "sc_list (heap s) (dyn_listHead s) es"
  from append_syscall_node_spec [OF this, of nr f] obtain ret p s1
    where s1: "append_syscall_node km nr f (dyn_listHead s) s = Inr (ret, p, s1)"
      "added_syscall km nr f es (dyn_listHead s) s ret p s1" by blast
  note step = dyn_add_syscall_to_vector_def dyn_rest_def s1(1)
  show "km (tick s) (heap s) = 0 \<Longrightarrow> \<exists>s'. dyn_add_syscall_to_vector km nr f s = Inr (- ENOMEM, s')
      \<and> heap s' = heap s \<and> dyn_listHead s' = dyn_listHead s \<and> dyn_rest s' = dyn_rest s"
    using s1(2) by (auto simp: step elim!: added_syscallE)
  show "km (tick s) (heap s) \<noteq> 0 \<Longrightarrow> \<exists>s'. dyn_add_syscall_to_vector km nr f s = Inr (0, s')
      \<and> dyn_rest s' = dyn_rest s
      \<and> sc_list (heap s') (dyn_listHead s') (es @ [(km (tick s) (heap s), nr, f)])
      \<and> (\<forall>b. b \<noteq> km (tick s) (heap s) \<longrightarrow> b \<notin> fst ` set es \<longrightarrow> heap s' b = heap s b)"
    using s1(2) by (rule added_syscallE) (simp_all add: step)
qed

text \<open>
  The jump to \<open>free_vector_prefix\<close> is never taken: no \<open>unsigned long\<close> is negative. A failed
  allocation leaves its override out and the loop goes on.
\<close>

lemma dyn_add_overrides_built:
  assumes "allocator_ok km" and "built h0 (heap s) (dyn_listHead s) es"
  shows "\<exists>ret' s' es' sub. dyn_add_overrides km bm t ret s = Inr (False, ret', s')
    \<and> dyn_rest s' = dyn_rest s \<and> built h0 (heap s') (dyn_listHead s') es'
    \<and> map snd es' = map snd es @ sub
    \<and> subseq sub (map snd (filter (\<lambda>(b, _). bm AND b \<noteq> 0) t))"
  using assms
proof (induction t arbitrary: s es ret)
  case Nil
  then show ?case by auto
next
  case (Cons row t)
  obtain b nr f where row: "row = (b, nr, f)" by (cases row)
  show ?case
  proof (cases "bm AND b = 0")
    case True
    with Cons.IH [OF Cons.prems, of ret] row show ?thesis by simp
  next
    case False
    from dyn.add_built [OF Cons.prems, of nr f] obtain r s1 es1 sub1 where
      s1: "dyn_add_syscall_to_vector km nr f s = Inr (r, s1)" "dyn_rest s1 = dyn_rest s"
        "built h0 (heap s1) (dyn_listHead s1) es1" "map snd es1 = map snd es @ sub1"
      and sub1: "sub1 = [] \<or> sub1 = [(nr, f)]" by fastforce
    from Cons.IH [OF Cons.prems(1) s1(3), of "scast r"] obtain ret' s' es' sub where
      s': "dyn_add_overrides km bm t (scast r) s1 = Inr (False, ret', s')"
        "dyn_rest s' = dyn_rest s1" "built h0 (heap s') (dyn_listHead s') es'"
        "map snd es' = map snd es1 @ sub"
        "subseq sub (map snd (filter (\<lambda>(b, _). bm AND b \<noteq> 0) t))" by blast
    have "dyn_add_overrides km bm (row # t) ret s = Inr (False, ret', s')"
      using False s1(1) s'(1) row by (simp add: Let_def)
    moreover have "subseq (sub1 @ sub) (map snd (filter (\<lambda>(b, _). bm AND b \<noteq> 0) (row # t)))"
      using sub1 s'(5) False row by auto
    ultimately show ?thesis using s' s1 by (metis append.assoc)
  qed
qed

lemma dyn_add_overrides_roomy:
  assumes "allocator_ok km" and "roomy b km" and "built h0 (heap s) (dyn_listHead s) es"
    and "card (dom h0) + length es + length t \<le> Suc b"
  shows "\<exists>ret' s' es'. dyn_add_overrides km bm t ret s = Inr (False, ret', s')
    \<and> dyn_rest s' = dyn_rest s \<and> built h0 (heap s') (dyn_listHead s') es'
    \<and> map snd es' = map snd es @ map snd (filter (\<lambda>(b, _). bm AND b \<noteq> 0) t)"
  using assms
proof (induction t arbitrary: s es ret)
  case Nil
  then show ?case by auto
next
  case (Cons row t)
  obtain c nr f where row: "row = (c, nr, f)" by (cases row)
  show ?case
  proof (cases "bm AND c = 0")
    case True
    with Cons.IH [OF Cons.prems(1-3), of ret] Cons.prems(4) row show ?thesis by simp
  next
    case False
    have "km (tick s) (heap s) \<noteq> 0"
      using Cons.prems(2,4) built_card [OF Cons.prems(3)] by (simp add: roomy_def)
    with dyn.add_built [OF Cons.prems(1,3), of nr f] obtain s1 es1 where
      s1: "dyn_add_syscall_to_vector km nr f s = Inr (0, s1)" "dyn_rest s1 = dyn_rest s"
        "built h0 (heap s1) (dyn_listHead s1) es1" "map snd es1 = map snd es @ [(nr, f)]" by auto
    from s1(4) have "length es1 = Suc (length es)" by (metis length_append_singleton length_map)
    with Cons.prems(4) have "card (dom h0) + length es1 + length t \<le> Suc b" by simp
    from Cons.IH [OF Cons.prems(1,2) s1(3) this, of 0] s1 False row show ?thesis
      by (auto simp: Let_def)
  qed
qed

section \<open>Creating a vector\<close>

lemma dyn_rest_frame:
  assumes "dyn_rest s' = dyn_rest s"
  shows "vec_list s' = vec_list s" "list_lock s' = list_lock s" "mod_log s' = mod_log s"
    "current s' = current s" "vector_info s' = vector_info s"
    "list_heads s' = list_heads s" "dyn_i s' = dyn_i s" "dyn_state.more s' = dyn_state.more s"
  using arg_cong [OF assms, of vec_list] arg_cong [OF assms, of list_lock]
    arg_cong [OF assms, of mod_log] arg_cong [OF assms, of current]
    arg_cong [OF assms, of vector_info] arg_cong [OF assms, of list_heads]
    arg_cong [OF assms, of dyn_i] arg_cong [OF assms, of dyn_state.more] by (simp_all add: dyn_rest_def)

definition dyn_name :: "uint \<Rightarrow> string" where
  "dyn_name bm = ''Vector'' @ sprintf_d bm"

lemma sprintf_fits_dyn: "sprintf_fits 32 (sprintf_d bm) = Inr (sprintf_d bm)"
  using length_sprintf_d [of bm] by (simp add: sprintf_fits_def)

lemma dyn_name_built:
  "bindE (write_at 0 ''Vector'' (kzalloc_chars (7 + length (sprintf_d bm)))) (\<lambda>d. strcat d (sprintf_d bm))
     = Inr (dyn_name bm @ [NUL])"
  unfolding dyn_name_def append_assoc by (rule strcat_fresh) (simp_all add: sprintf_d_chars)

lemma dyn_name_ok: "name_ok (dyn_name bm @ [NUL])" "c_string (dyn_name bm @ [NUL]) = dyn_name bm"
  using length_sprintf_d [of bm] sprintf_d_chars(1) [of bm]
  by (simp_all add: name_ok_def dyn_name_def MAX_VECTOR_NAME_LEN_def c_string_append_terminated)

text \<open>A vector with that bitmap exists, at an address: the process gets it.\<close>

lemma add_vector_reuse:
  assumes "reg_ok s" and "bitmap_index bm s = Some k"
    and "overriddenSyscalls_address (vec_list s ! k) = a" and "a \<noteq> 0"
  shows "add_vector_from_bitmap km bm s =
    Inr (ucast a, (set_current_vector a (take_ref k s))\<lparr>dyn_listHead := 0\<rparr>)"
  using assms by (simp add: add_vector_from_bitmap_def check_any_current_vector_spec)

text \<open>Otherwise (none, or one whose address is NULL, which is then counted up) a new one is made.\<close>

lemma add_vector_new:
  assumes "reg_ok s"
  shows "bitmap_index bm s = None \<Longrightarrow>
      add_vector_from_bitmap km bm s = create_from_bitmap km bm 0 s"
    and "bitmap_index bm s = Some k \<Longrightarrow> overriddenSyscalls_address (vec_list s ! k) = 0 \<Longrightarrow>
      add_vector_from_bitmap km bm s = create_from_bitmap km bm 0 (take_ref k s)"
  using assms by (simp_all add: add_vector_from_bitmap_def check_any_current_vector_spec)

lemma kmalloc_roomy:
  assumes "allocator_ok km" and "roomy b km" and "card (dom (heap s)) \<le> b"
  obtains a where "kmalloc km blk s = (a, s\<lparr>tick := Suc (tick s), heap := (heap s)(a \<mapsto> blk)\<rparr>)"
    and "a \<noteq> 0" and "heap s a = None" and "card (dom ((heap s)(a \<mapsto> blk))) = Suc (card (dom (heap s)))"
proof -
  let ?a = "km (tick s) (heap s)"
  have nz: "?a \<noteq> 0" using assms(2,3) by (simp add: roomy_def)
  then have none: "heap s ?a = None" by (rule allocator_okD(1) [OF assms(1)])
  then have "card (dom ((heap s)(?a \<mapsto> blk))) = Suc (card (dom (heap s)))"
    by (simp add: domIff)
  with that nz none kmalloc_ok [OF assms(1), of blk s] show ?thesis by (simp add: Let_def)
qed

text \<open>
  What a successful creation leaves: the process runs under the new vector, which is the head of
  the registry with one reference; its address points to exactly the overrides of the bitmap;
  the module is pinned once; and the two scratch buffers \<open>t\<close> and \<open>p\<close> are still allocated.
\<close>

definition created ::
  "uint \<Rightarrow> 'a dyn_state_scheme \<Rightarrow> addr \<Rightarrow> addr \<Rightarrow> addr \<Rightarrow> (addr \<times> sysnr \<times> sys_call_ptr) list
   \<Rightarrow> 'a dyn_state_scheme \<Rightarrow> bool" where
  "created bm s t p va es s' \<longleftrightarrow> reg_inv s' \<and> map snd es = dyn_calls bm
     \<and> vec_list s' = stored_vector va (dyn_name bm) (current_vector s') 1 Mod_dynamic_vector bm # vec_list s
     \<and> heap s t = None \<and> heap s p = None \<and> heap s va = None \<and> distinct [t, p, va]
     \<and> built ((heap s)(t \<mapsto> Raw 32, p \<mapsto> Raw (7 + length (sprintf_d bm)), va \<mapsto> Vector_node))
         (heap s') (current_vector s') es
     \<and> mod_log s' = Module_get Mod_dynamic_vector # mod_log s
     \<and> vector_info s' = (vector_info s)(current s \<mapsto> current_vector s') \<and> current s' = current s
     \<and> list_heads s' = (list_heads s)[dyn_i s := current_vector s'] \<and> dyn_i s' = Suc (dyn_i s)
     \<and> dyn_listHead s' = 0 \<and> dyn_state.more s' = dyn_state.more s"

lemma built_upd:
  assumes "built h0 h p es" and "h a = None"
  shows "built (h0(a \<mapsto> b)) (h(a \<mapsto> b)) p es" and "h0 a = None"
proof -
  have "a \<notin> dom h0 \<union> fst ` set es" using built_dom [OF assms(1)] assms(2) by blast
  with assms(1) show "built (h0(a \<mapsto> b)) (h(a \<mapsto> b)) p es" and "h0 a = None"
    by (simp_all add: built_def sc_list_frame domIff del: image_iff)
qed

lemma built_del:
  assumes "built (h0(a \<mapsto> b)) h p es" and "h0 a = None"
  shows "built h0 (h(a := None)) p es" and "h a = Some b"
proof -
  have a: "a \<notin> fst ` set es" using assms(1) by (auto simp: built_def)
  with assms show "built h0 (h(a := None)) p es" and "h a = Some b"
    by (auto simp: built_def sc_list_frame del: image_iff)
qed

text \<open>The last steps, as an equation: the result of registering, then assigned to the process.\<close>

definition assigned :: "addr \<Rightarrow> 'a dyn_state_scheme \<Rightarrow> 'a dyn_state_scheme" where
  "assigned a s = s\<lparr>vector_info := (vector_info s)(current s \<mapsto> a),
     list_heads := (list_heads s)[dyn_i s := a], dyn_i := Suc (dyn_i s), dyn_listHead := 0\<rparr>"

lemma registered_frame [simp]:
  "dyn_listHead (snd (registered km n a r m b s)) = dyn_listHead s"
  "current (snd (registered km n a r m b s)) = current s"
  "vector_info (snd (registered km n a r m b s)) = vector_info s"
  "list_heads (snd (registered km n a r m b s)) = list_heads s"
  "dyn_i (snd (registered km n a r m b s)) = dyn_i s"
  "dyn_state.more (snd (registered km n a r m b s)) = dyn_state.more s"
  by (simp_all add: registered_def Let_def)

lemma try_module_get_frame [simp]:
  "dyn_listHead (try_module_get m s) = dyn_listHead s"
  "current (try_module_get m s) = current s" "vector_info (try_module_get m s) = vector_info s"
  "list_heads (try_module_get m s) = list_heads s" "dyn_i (try_module_get m s) = dyn_i s"
  "dyn_state.more (try_module_get m s) = dyn_state.more s"
  by (simp_all add: try_module_get_def)

lemma assigned_frame [simp]:
  "reg_inv (assigned a s) = reg_inv s" "current_vector (assigned a s) = a"
  "heap (assigned a s) = heap s" "vec_list (assigned a s) = vec_list s"
  "mod_log (assigned a s) = mod_log s" "current (assigned a s) = current s"
  "vector_info (assigned a s) = (vector_info s)(current s \<mapsto> a)"
  "list_heads (assigned a s) = (list_heads s)[dyn_i s := a]" "dyn_i (assigned a s) = Suc (dyn_i s)"
  "dyn_listHead (assigned a s) = 0" "dyn_state.more (assigned a s) = dyn_state.more s"
  by (simp_all add: assigned_def reg_inv_def reg_ok_def current_vector_def)

lemma reg_inv_module [simp]:
  "reg_inv (try_module_get m s) = reg_inv s" "reg_inv (module_put m s) = reg_inv s"
  by (simp_all add: try_module_get_def module_put_def reg_inv_def reg_ok_def)

lemma register_and_assign_spec:
  fixes s :: "'a dyn_state_scheme" and bm :: uint
  assumes km: "allocator_ok km" and inv: "reg_inv s" and room: "dyn_i s < length (list_heads s)"
  defines "s1 \<equiv> snd (registered km (dyn_name bm) (dyn_listHead s) 1 Mod_dynamic_vector bm
      (try_module_get Mod_dynamic_vector s))"
  shows "register_and_assign km bm (dyn_name bm @ [NUL]) s =
      Inr (ucast (dyn_listHead s), assigned (dyn_listHead s) s1)"
    and "reg_inv s1"
proof -
  let ?s = "try_module_get Mod_dynamic_vector s"
  have inv1: "reg_inv ?s" using inv by simp
  have step: "register_dynamic_syscall km (dyn_name bm @ [NUL]) (dyn_listHead s) Mod_dynamic_vector bm ?s
      = Inr (fst (registered km (dyn_name bm) (dyn_listHead s) 1 Mod_dynamic_vector bm ?s), s1)"
    using register_dynamic_syscall_spec [OF km reg_inv_ok [OF inv1] dyn_name_ok(1)]
    by (simp add: dyn_name_ok(2) s1_def)
  have f: "dyn_listHead s1 = dyn_listHead s" "current s1 = current s" "vector_info s1 = vector_info s"
    "list_heads s1 = list_heads s" "dyn_i s1 = dyn_i s" by (simp_all add: s1_def)
  show "register_and_assign km bm (dyn_name bm @ [NUL]) s =
      Inr (ucast (dyn_listHead s), assigned (dyn_listHead s) s1)"
    unfolding register_and_assign_def Let_def try_module_get_frame step bindE_Inr case_prod_conv
    using room f by (simp add: push_list_head_def set_current_vector_def assigned_def)
  show "reg_inv s1"
    using reg_inv_registered [OF km inv1 dyn_name_ok(1) [of bm],
        where a = "dyn_listHead s" and r = 1 and m = Mod_dynamic_vector and b = bm]
    by (simp only: dyn_name_ok(2) s1_def)
qed

lemma create_from_bitmap_created:
  assumes km: "allocator_ok km" "roomy b km" and inv: "reg_inv s" and start: "dyn_listHead s = 0"
    and slot: "dyn_i s < length (list_heads s)" and room: "card (dom (heap s)) + 10 \<le> b"
  shows "\<exists>s' t p va es. create_from_bitmap km bm ret s = Inr (ucast (current_vector s'), s')
    \<and> created bm s t p va es s'"
proof -
  from kmalloc_roomy [OF km, of s "Raw 32"] room obtain t where
    t: "kmalloc km (Raw 32) s = (t, s\<lparr>tick := Suc (tick s), heap := (heap s)(t \<mapsto> Raw 32)\<rparr>)"
      "t \<noteq> 0" "heap s t = None" "card (dom ((heap s)(t \<mapsto> Raw 32))) = Suc (card (dom (heap s)))"
    by auto
  let ?s1 = "s\<lparr>tick := Suc (tick s), heap := (heap s)(t \<mapsto> Raw 32)\<rparr>"
  let ?n = "7 + length (sprintf_d bm)"
  from kmalloc_roomy [OF km, of ?s1 "Raw ?n"] room t(4) obtain p where
    p: "kmalloc km (Raw ?n) ?s1 = (p, ?s1\<lparr>tick := Suc (tick ?s1), heap := (heap ?s1)(p \<mapsto> Raw ?n)\<rparr>)"
      "p \<noteq> 0" "heap ?s1 p = None" "card (dom ((heap ?s1)(p \<mapsto> Raw ?n))) = Suc (Suc (card (dom (heap s))))"
    by auto
  let ?s2 = "?s1\<lparr>tick := Suc (tick ?s1), heap := (heap ?s1)(p \<mapsto> Raw ?n)\<rparr>"
  let ?h = "(heap s)(t \<mapsto> Raw 32, p \<mapsto> Raw ?n)"
  have "built ?h (heap ?s2) (dyn_listHead ?s2) []" using start by simp
  moreover have "card (dom ?h) + length ([] :: (addr \<times> sysnr \<times> sys_call_ptr) list) + length dyn_table \<le> Suc b"
    using p(4) room by (simp add: dyn_table_def)
  ultimately obtain ret' s3 es where s3:
    "dyn_add_overrides km bm dyn_table ret ?s2 = Inr (False, ret', s3)" "dyn_rest s3 = dyn_rest ?s2"
    "built ?h (heap s3) (dyn_listHead s3) es" "map snd es = dyn_calls bm"
    using dyn_add_overrides_roomy [OF km, of ?h ?s2 "[]" dyn_table bm ret] by (auto simp: dyn_calls_def)
  have f: "vec_list s3 = vec_list s" "list_lock s3 = list_lock s" "mod_log s3 = mod_log s"
    "current s3 = current s" "vector_info s3 = vector_info s" "list_heads s3 = list_heads s"
    "dyn_i s3 = dyn_i s" "dyn_state.more s3 = dyn_state.more s" using dyn_rest_frame [OF s3(2)] by simp_all
  have "length (dyn_calls bm) \<le> 8"
    unfolding dyn_calls_def length_map
    by (rule order_trans [OF length_filter_le]) (simp add: dyn_table_def)
  then have "length es \<le> 8" using s3(4) by (metis length_map)
  have inv2: "reg_inv ?s2"
    using inv by (rule reg_inv_heap) (use t(3) p(3) in auto)
  have inv3: "reg_inv s3"
    by (rule reg_inv_built [OF inv2]) (use s3(3) f in simp_all)
  have "card (dom (heap s3)) \<le> b"
    using built_card [OF s3(3)] p(4) \<open>length es \<le> 8\<close> room by simp
  then have va: "km (tick s3) (heap s3) \<noteq> 0" using km(2) by (simp add: roomy_def)
  then have none: "heap s3 (km (tick s3) (heap s3)) = None" by (rule allocator_okD(1) [OF km(1)])
  have slot3: "dyn_i s3 < length (list_heads s3)" using slot f by simp
  note fin = register_and_assign_spec [OF km(1) inv3 slot3, of bm]
  let ?s4 = "snd (registered km (dyn_name bm) (dyn_listHead s3) 1 Mod_dynamic_vector bm
      (try_module_get Mod_dynamic_vector s3))"
  let ?s' = "assigned (dyn_listHead s3) ?s4"
  have run: "create_from_bitmap km bm ret s = Inr (ucast (current_vector ?s'), ?s')"
    unfolding create_from_bitmap_def t(1) Let_def case_prod_conv
    using t(2) p(1,2) s3(1) fin(1) by (simp add: dyn_name_built sprintf_fits_dyn Let_def)
  note b2 = built_upd(1) [OF s3(3) none, of Vector_node] built_upd(2) [OF s3(3) none]
  have "vec_list ?s4 = stored_vector (km (tick s3) (heap s3)) (dyn_name bm) (dyn_listHead s3) 1 Mod_dynamic_vector bm # vec_list s3"
    "heap ?s4 = (heap s3)(km (tick s3) (heap s3) \<mapsto> Vector_node)"
    "mod_log ?s4 = Module_get Mod_dynamic_vector # mod_log s3"
    using va by (simp_all add: registered_def Let_def)
  with f s3(4) t(3) p(3) b2 fin(2)
  have "created bm s t p (km (tick s3) (heap s3)) es ?s'"
    unfolding created_def by (auto split: if_splits)
  with run show ?thesis by blast
qed

section \<open>Whatever the allocator does\<close>

text \<open>
  What every call keeps: the registry's invariant, all memory in use before, the process that
  runs, the module's \<open>listHead\<close> at NULL, and the pins of every other module.
\<close>

definition dyn_kept :: "'a dyn_state_scheme \<Rightarrow> 'a dyn_state_scheme \<Rightarrow> bool" where
  "dyn_kept s s' \<longleftrightarrow> reg_inv s' \<and> heap s \<subseteq>\<^sub>m heap s' \<and> dyn_listHead s' = 0
     \<and> current s' = current s \<and> dyn_state.more s' = dyn_state.more s
     \<and> length (list_heads s') = length (list_heads s) \<and> dyn_i s' \<le> Suc (dyn_i s)
     \<and> (\<forall>m. m \<noteq> Mod_dynamic_vector \<longrightarrow> pin_excess m s' = pin_excess m s)"

lemma built_le: "built h0 h p es \<Longrightarrow> h0 \<subseteq>\<^sub>m h"
  unfolding built_def map_le_def by (metis disjoint_iff)

lemma map_le_fresh: "h a = None \<Longrightarrow> h \<subseteq>\<^sub>m h(a \<mapsto> b)"
  by (auto simp: map_le_def)

lemma dyn_kept_alloc:
  assumes "reg_inv s" and "heap s a = None"
  shows "reg_inv (s\<lparr>tick := n, heap := (heap s)(a \<mapsto> b)\<rparr>)"
  using assms(1) by (rule reg_inv_heap) (use assms(2) in auto)

lemma dyn_kept_idle:
  assumes "reg_inv s" and "dyn_listHead s = 0"
  shows "dyn_kept s (s\<lparr>tick := n, dyn_listHead := 0\<rparr>)"
  using assms by (simp add: dyn_kept_def reg_inv_def reg_ok_def pin_excess_def)

lemma dyn_kept_assigned:
  assumes "dyn_rest s3 = dyn_rest s" and "built h0 (heap s3) (dyn_listHead s3) es"
    and "heap s \<subseteq>\<^sub>m h0" and "reg_inv s3" and "allocator_ok km" and "name_ok (n @ [NUL])"
    and "c_string (n @ [NUL]) = n"
  shows "dyn_kept s (assigned (dyn_listHead s3)
    (snd (registered km n (dyn_listHead s3) 1 Mod_dynamic_vector bm (try_module_get Mod_dynamic_vector s3))))"
    (is "dyn_kept s (assigned _ (snd ?r))")
proof -
  note f = dyn_rest_frame [OF assms(1)]
  have "reg_inv (try_module_get Mod_dynamic_vector s3)" using assms(4) by simp
  from reg_inv_registered [OF assms(5) this assms(6),
      where a = "dyn_listHead s3" and r = 1 and m = Mod_dynamic_vector and b = bm]
  have "reg_inv (snd ?r)" by (simp only: assms(7))
  moreover have "heap s3 \<subseteq>\<^sub>m heap (snd ?r)"
    using allocator_okD(1) [OF assms(5)] by (auto simp: registered_def Let_def intro: map_le_fresh)
  then have "heap s \<subseteq>\<^sub>m heap (snd ?r)"
    using assms(3) built_le [OF assms(2)] map_le_trans by blast
  moreover have "pin_excess m (snd ?r) = pin_excess m s" if "m \<noteq> Mod_dynamic_vector" for m
    using that f pin_excess_frame [of s3 s m] by (simp add: pin_excess_registered pin_excess_module)
  ultimately show ?thesis
    by (auto simp: dyn_kept_def f pin_excess_def)
qed

text \<open>With every slot of \<open>list_heads\<close> taken, the store goes past the end of the array.\<close>

lemma register_and_assign_full:
  assumes "allocator_ok km" and "reg_inv s" and "\<not> dyn_i s < length (list_heads s)"
  shows "register_and_assign km bm (dyn_name bm @ [NUL]) s = Inl Buffer_overflow"
proof -
  let ?s = "try_module_get Mod_dynamic_vector s"
  have ok: "reg_ok ?s" using assms(2) by (simp add: reg_inv_ok)
  obtain r s1 where r: "registered km (dyn_name bm) (dyn_listHead s) 1 Mod_dynamic_vector bm ?s = (r, s1)"
    by fastforce
  have "s1 = snd (registered km (dyn_name bm) (dyn_listHead s) 1 Mod_dynamic_vector bm ?s)" using r by simp
  then have f: "dyn_i s1 = dyn_i s" "list_heads s1 = list_heads s" by simp_all
  have step: "register_dynamic_syscall km (dyn_name bm @ [NUL]) (dyn_listHead s) Mod_dynamic_vector bm ?s
      = Inr (r, s1)"
    using register_dynamic_syscall_spec [OF assms(1) ok dyn_name_ok(1)] r by (simp add: dyn_name_ok(2))
  show ?thesis
    unfolding register_and_assign_def Let_def try_module_get_frame step bindE_Inr case_prod_conv
    using assms(3) f by (simp add: push_list_head_def set_current_vector_def)
qed

text \<open>With both scratch buffers the creation gets to its last steps, with the list as far as it could be built.\<close>

lemma create_from_bitmap_reaches:
  assumes km: "allocator_ok km" and inv: "reg_inv s" and start: "dyn_listHead s = 0"
    and t: "km (tick s) (heap s) \<noteq> 0"
    and p: "km (Suc (tick s)) ((heap s)(km (tick s) (heap s) \<mapsto> Raw 32)) \<noteq> 0"
  shows "\<exists>s3 es h0. create_from_bitmap km bm ret s = register_and_assign km bm (dyn_name bm @ [NUL]) s3
    \<and> dyn_rest s3 = dyn_rest s \<and> built h0 (heap s3) (dyn_listHead s3) es \<and> heap s \<subseteq>\<^sub>m h0
    \<and> reg_inv s3 \<and> subseq (map snd es) (dyn_calls bm)"
proof -
  let ?t = "km (tick s) (heap s)" and ?n = "7 + length (sprintf_d bm)"
  let ?s1 = "s\<lparr>tick := Suc (tick s), heap := (heap s)(?t \<mapsto> Raw 32)\<rparr>"
  let ?p = "km (tick ?s1) (heap ?s1)"
  let ?s2 = "?s1\<lparr>tick := Suc (tick ?s1), heap := (heap ?s1)(?p \<mapsto> Raw ?n)\<rparr>"
  have p': "?p \<noteq> 0" using p by simp
  note t0 = allocator_okD(1) [OF km t] and p0 = allocator_okD(1) [OF km p']
  have "built (heap ?s2) (heap ?s2) (dyn_listHead ?s2) []" using start by simp
  from dyn_add_overrides_built [OF km this, of bm dyn_table ret] obtain ret' s3 es where
    s3: "dyn_add_overrides km bm dyn_table ret ?s2 = Inr (False, ret', s3)" "dyn_rest s3 = dyn_rest ?s2"
    "built (heap ?s2) (heap s3) (dyn_listHead s3) es" "subseq (map snd es) (dyn_calls bm)"
    by (auto simp: dyn_calls_def)
  have rest: "dyn_rest s3 = dyn_rest s" using s3(2) by (simp add: dyn_rest_def)
  note f = dyn_rest_frame [OF rest]
  have "heap s \<subseteq>\<^sub>m heap ?s1" using t0 by (simp add: map_le_fresh)
  moreover have "heap ?s1 \<subseteq>\<^sub>m (heap ?s1)(?p \<mapsto> Raw ?n)" by (rule map_le_fresh) (rule p0)
  ultimately have le: "heap s \<subseteq>\<^sub>m heap ?s2" by (auto intro: map_le_trans)
  have "reg_inv ?s2" by (intro dyn_kept_alloc inv t0 p0)
  then have inv3: "reg_inv s3" by (rule reg_inv_built) (use s3(3) f in simp_all)
  have "create_from_bitmap km bm ret s = register_and_assign km bm (dyn_name bm @ [NUL]) s3"
    using t p' s3(1) by (simp add: create_from_bitmap_def kmalloc_ok [OF km] Let_def
        sprintf_fits_dyn dyn_name_built)
  with rest s3(3,4) le inv3 show ?thesis by blast
qed

text \<open>Every call returns, or overflows \<open>list_heads\<close> when it is full.\<close>

lemma create_from_bitmap_total:
  assumes km: "allocator_ok km" and inv: "reg_inv s" and start: "dyn_listHead s = 0"
  shows "\<exists>r s'. (create_from_bitmap km bm ret s = Inr (r, s')
      \<or> \<not> dyn_i s < length (list_heads s) \<and> create_from_bitmap km bm ret s = Inl Buffer_overflow)
    \<and> dyn_kept s s'"
proof -
  let ?t = "km (tick s) (heap s)"
  let ?p = "km (Suc (tick s)) ((heap s)(?t \<mapsto> Raw 32))"
  consider "?t = 0" | "?t \<noteq> 0" "?p = 0" | "?t \<noteq> 0" "?p \<noteq> 0" by blast
  then show ?thesis
  proof cases
    case 1
    then have "create_from_bitmap km bm ret s = Inr (ucast ret, s\<lparr>tick := Suc (tick s), dyn_listHead := 0\<rparr>)"
      by (simp add: create_from_bitmap_def kmalloc_ok [OF km] Let_def)
    with dyn_kept_idle [OF inv start] show ?thesis by blast
  next
    case 2
    note t = allocator_okD(1) [OF km 2(1)]
    have "create_from_bitmap km bm ret s =
        Inr (ucast ret, s\<lparr>tick := Suc (Suc (tick s)), dyn_listHead := 0\<rparr>)"
      using 2 t start upd_None_idem [of "heap s" ?t "Raw 32"]
      by (simp add: create_from_bitmap_def kmalloc_ok [OF km] Let_def sprintf_fits_dyn kfree_live
          dyn_delete_vector_def free_syscall_list_def)
    with dyn_kept_idle [OF inv start] show ?thesis by blast
  next
    case 3
    from create_from_bitmap_reaches [OF assms 3] obtain s3 es h0 where
      s3: "create_from_bitmap km bm ret s = register_and_assign km bm (dyn_name bm @ [NUL]) s3"
      and rest: "dyn_rest s3 = dyn_rest s" and b: "built h0 (heap s3) (dyn_listHead s3) es"
      and le: "heap s \<subseteq>\<^sub>m h0" and inv3: "reg_inv s3" by blast
    have "dyn_i s3 = dyn_i s" "list_heads s3 = list_heads s" using dyn_rest_frame [OF rest] by simp_all
    with s3 register_and_assign_spec(1) [OF km inv3] register_and_assign_full [OF km inv3]
      dyn_kept_assigned [OF rest b le inv3 km dyn_name_ok]
    show ?thesis by (cases "dyn_i s < length (list_heads s)") auto
  qed
qed

lemma dyn_kept_ref:
  assumes "dyn_kept (take_ref i s) s'" and "i < length (vec_list s)"
  shows "dyn_kept s s'"
proof -
  have "dyn_state.more (take_ref i s) = dyn_state.more s" "list_heads (take_ref i s) = list_heads s"
    "dyn_i (take_ref i s) = dyn_i s" by (simp_all add: ref_defs)
  with assms show ?thesis by (simp add: dyn_kept_def)
qed

lemma add_vector_from_bitmap_total:
  assumes km: "allocator_ok km" and inv: "reg_inv s" and start: "dyn_listHead s = 0"
  shows "\<exists>r s'. (add_vector_from_bitmap km bm s = Inr (r, s')
      \<or> \<not> dyn_i s < length (list_heads s) \<and> add_vector_from_bitmap km bm s = Inl Buffer_overflow)
    \<and> dyn_kept s s'"
proof (cases "bitmap_index bm s")
  case None
  with create_from_bitmap_total [OF assms] add_vector_new(1) [OF reg_inv_ok [OF inv]]
  show ?thesis by simp
next
  case (Some k)
  note k = index_bounds(3) [OF Some]
  have f: "dyn_listHead (take_ref k s) = 0" "list_heads (take_ref k s) = list_heads s"
    "dyn_i (take_ref k s) = dyn_i s" "dyn_state.more (take_ref k s) = dyn_state.more s"
    using start by (simp_all add: ref_defs)
  show ?thesis
  proof (cases "overriddenSyscalls_address (vec_list s ! k) = 0")
    case True
    with create_from_bitmap_total [OF km reg_inv_ref(1) [OF inv] f(1), where bm = bm and ret = 0]
      add_vector_new(2) [OF reg_inv_ok [OF inv] Some] dyn_kept_ref [OF _ k]
    show ?thesis unfolding f by metis
  next
    case False
    have "dyn_kept s ((set_current_vector a (take_ref k s))\<lparr>dyn_listHead := 0\<rparr>)" for a
      using reg_inv_ref(1) [OF inv, of k] f pin_excess_ref(1) [OF k]
      by (simp add: dyn_kept_def reg_inv_def reg_ok_def pin_excess_def set_current_vector_def)
    with add_vector_reuse [OF reg_inv_ok [OF inv] Some refl False] show ?thesis by blast
  qed
qed

end
