(* ===== verification/Ioctl.thy ===== *)
theory Ioctl
  imports Dynamic_Vector
begin

text \<open>
  The character device \<open>ioctl_device\<close> of \<open>ioctl_module.c\<close>: six commands, each run under the
  mutex \<open>mutexlock\<close>, by which a process takes or leaves a vector, looks at the registry, asks for
  the vector of a process or has a vector made from a bitmap.
\<close>

section \<open>State and the user's side\<close>

record ioctl_state = dyn_state +
  mutexlock :: bool
  user_out :: "addr \<rightharpoonup> char list"    \<comment> \<open>what \<open>copy_to_user\<close> stored at a user address\<close>
  chrdev :: bool                    \<comment> \<open>the character device is registered\<close>

definition BUF_LEN :: nat where "BUF_LEN = 256"

text \<open>
  User memory as the call finds it: the bytes readable from an address, the two structures
  of \<open>ioctl_module.h\<close> at an address, and how many of \<open>n\<close> bytes \<open>copy_from_user\<close> or
  \<open>copy_to_user\<close> cannot move at that address (their documented return value).
\<close>

record user_mem =
  u_bytes :: "addr \<rightharpoonup> char list"
  u_pid_n_buf :: "addr \<Rightarrow> cint \<times> addr"
  u_bitmap :: "addr \<Rightarrow> uint"
  u_missing :: "addr \<Rightarrow> nat \<Rightarrow> nat"

definition not_copied :: "user_mem \<Rightarrow> addr \<Rightarrow> nat \<Rightarrow> nat" where
  "not_copied u p n = min n (u_missing u p n)"

definition user_string :: "user_mem \<Rightarrow> addr \<Rightarrow> char list cres" where
  "user_string u p = (case u_bytes u p of None \<Rightarrow> Inl Bad_pointer | Some a \<Rightarrow> Inr a)"

text \<open>\<open>copy_to_user(dst, src, BUF_LEN)\<close>: the bytes not copied, and the user's memory after it.\<close>

definition copy_to_user ::
  "user_mem \<Rightarrow> addr \<Rightarrow> char list \<Rightarrow> 'a ioctl_state_scheme \<Rightarrow> nat \<times> 'a ioctl_state_scheme" where
  "copy_to_user u dst src s =
     (let k = not_copied u dst (length src)
      in (k, s\<lparr>user_out := (user_out s)(dst \<mapsto> take (length src - k) src)\<rparr>))"

section \<open>Request numbers\<close>

definition IOC :: "uint \<Rightarrow> uint \<Rightarrow> uint \<Rightarrow> uint \<Rightarrow> uint" where
  "IOC dir magic nr sz = push_bit 30 dir OR push_bit 8 magic OR nr OR push_bit 16 sz"

definition IOC_MAGIC :: uint where "IOC_MAGIC = 23"
definition IOCTL_SET :: uint where "IOCTL_SET = IOC 1 IOC_MAGIC 1 8"
definition IOCTL_REMOVE :: uint where "IOCTL_REMOVE = IOC 1 IOC_MAGIC 2 8"
definition IOCTL_SHOW_ALL :: uint where "IOCTL_SHOW_ALL = IOC 2 IOC_MAGIC 3 8"
definition IOCTL_SHOW_MINE :: uint where "IOCTL_SHOW_MINE = IOC 2 IOC_MAGIC 4 8"
definition IOCTL_VECTOR_FOR_PID :: uint where "IOCTL_VECTOR_FOR_PID = IOC 2 IOC_MAGIC 5 8"
definition IOCTL_CREATE_FROM_BITMAP :: uint where "IOCTL_CREATE_FROM_BITMAP = IOC 1 IOC_MAGIC 6 8"

lemmas ioctl_numbers = IOCTL_SET_def IOCTL_REMOVE_def IOCTL_SHOW_ALL_def IOCTL_SHOW_MINE_def
  IOCTL_VECTOR_FOR_PID_def IOCTL_CREATE_FROM_BITMAP_def IOC_def IOC_MAGIC_def

section \<open>Helpers of the handler\<close>

definition show_into ::
  "char list \<Rightarrow> addr \<Rightarrow> 'a registry_scheme \<Rightarrow> (cint \<times> char list) cres" where
  "show_into buf vector_addr s =
     bindE (show_my_vector (Some buf) vector_addr s) (\<lambda>(ret, b).
     Inr (ret, case b of None \<Rightarrow> buf | Some b \<Rightarrow> b))"

definition if_assigned_reduce ::
  "allocator \<Rightarrow> 'a ioctl_state_scheme \<Rightarrow> (cint \<times> 'a ioctl_state_scheme) cres" where
  "if_assigned_reduce km s =
     (if current_vector s \<noteq> 0 then
        let (buf, s) = kmalloc km (Raw BUF_LEN) s in
        if buf = 0 then Inr (- ENOMEM, s)
        else
          bindE (show_into (kzalloc_chars BUF_LEN) (current_vector s) s) (\<lambda>(_, txt).
          bindE (strncmp_eq txt (''vector not assigned'' @ [NUL]) 19) (\<lambda>unassigned.
          if unassigned then bindE (kfree buf s) (\<lambda>s. Inr (0, s))
          else
            bindE (reduce_ref_count txt s) (\<lambda>(err, s).
            let err = if sint err < 0 then - EINVAL else err in
            bindE (kfree buf s) (\<lambda>s. Inr (err, s)))))
      else bindE (kfree 0 s) (\<lambda>s. Inr (0, s)))"

definition validate_bitmap :: "uint \<Rightarrow> cint" where
  "validate_bitmap bm =
     (if bm AND WRITE_OVERRIDE \<noteq> 0 \<and> bm AND WRITE_LOGGED \<noteq> 0 then - EINVAL
      else if bm AND OPEN_OVERRIDE \<noteq> 0 \<and> bm AND OPEN_BLOCKED \<noteq> 0 then - EINVAL
      else if bm > 1023 then - EINVAL
      else 0)"

section \<open>The six commands\<close>

text \<open>
  A case of the switch ends at one of the two labels, with \<open>err\<close> and the buffers it left in
  \<open>vector_name\<close>, \<open>pid_buf\<close> and \<open>kernel_bitmap\<close>.
\<close>

datatype ioctl_exit = Goto_out | Goto_free_vector_name

record ioctl_case =
  c_exit :: ioctl_exit
  c_err :: ulong
  c_vector_name :: addr
  c_pid_buf :: addr
  c_kernel_bitmap :: addr

definition leave :: "ioctl_exit \<Rightarrow> ulong \<Rightarrow> ioctl_case" where
  "leave e err = \<lparr>c_exit = e, c_err = err, c_vector_name = 0, c_pid_buf = 0, c_kernel_bitmap = 0\<rparr>"

definition ioctl_set ::
  "allocator \<Rightarrow> user_mem \<Rightarrow> addr \<Rightarrow> 'a ioctl_state_scheme \<Rightarrow> (ioctl_case \<times> 'a ioctl_state_scheme) cres" where
  "ioctl_set km u user_vector_name s =
     bindE (user_string u user_vector_name) (\<lambda>bytes.
     bindE (strlen bytes) (\<lambda>n.
     let vector_length = of_nat n :: uint;
         size = unat (vector_length + 1);
         (vector_name, s) = kmalloc km (Raw size) s in
     if vector_name = 0 then Inr (leave Goto_out (- ENOMEM), s)
     else if is_err vector_name then
       Inr ((leave Goto_out vector_name)\<lparr>c_vector_name := vector_name\<rparr>, s)
     else
       let s = try_module_get Mod_ioctl_module s in
       if not_copied u user_vector_name (unat vector_length) \<noteq> 0 then
         Inr ((leave Goto_free_vector_name (- EINVAL))\<lparr>c_vector_name := vector_name\<rparr>,
              module_put Mod_ioctl_module s)
       else
         bindE (read_bytes (unat vector_length) bytes) (\<lambda>copied.
         bindE (write_at 0 copied (kzalloc_chars size)) (\<lambda>name.
         bindE (get_vector_address name s) (\<lambda>(vector_address, s).
         if vector_address = 0 then
           Inr ((leave Goto_free_vector_name (- EINVAL))\<lparr>c_vector_name := vector_name\<rparr>,
                module_put Mod_ioctl_module s)
         else
           bindE (if_assigned_reduce km s) (\<lambda>(_, s).
           let (_, s) = remove_from_task_struct s;
               (_, s) = add_to_task_struct vector_address s in
           Inr ((leave Goto_free_vector_name 0)\<lparr>c_vector_name := vector_name\<rparr>,
                module_put Mod_ioctl_module s))))))) "

definition ioctl_remove ::
  "allocator \<Rightarrow> user_mem \<Rightarrow> addr \<Rightarrow> 'a ioctl_state_scheme \<Rightarrow> (ioctl_case \<times> 'a ioctl_state_scheme) cres" where
  "ioctl_remove km u user_vector_name s =
     bindE (user_string u user_vector_name) (\<lambda>bytes.
     bindE (strlen bytes) (\<lambda>n.
     let vector_length = of_nat n :: uint;
         size = unat (vector_length + 1);
         (vector_name, s) = kmalloc km (Raw size) s in
     if vector_name = 0 then Inr (leave Goto_out (- ENOMEM), s)
     else if is_err vector_name then
       Inr ((leave Goto_out vector_name)\<lparr>c_vector_name := vector_name\<rparr>, s)
     else
       let s = try_module_get Mod_ioctl_module s in
       if not_copied u user_vector_name (unat vector_length) \<noteq> 0 then
         Inr ((leave Goto_free_vector_name (- EINVAL))\<lparr>c_vector_name := vector_name\<rparr>,
              module_put Mod_ioctl_module s)
       else
         bindE (read_bytes (unat vector_length) bytes) (\<lambda>copied.
         bindE (write_at 0 copied (kzalloc_chars size)) (\<lambda>name.
         bindE (write_at (unat vector_length) [NUL] name) (\<lambda>name.
         bindE (reduce_ref_count name s) (\<lambda>(ret, s).
         if sint ret < 0 then
           Inr ((leave Goto_free_vector_name (- EINVAL))\<lparr>c_vector_name := vector_name\<rparr>,
                module_put Mod_ioctl_module s)
         else
           let (_, s) = remove_from_task_struct s in
           Inr ((leave Goto_free_vector_name (scast ret))\<lparr>c_vector_name := vector_name\<rparr>,
                module_put Mod_ioctl_module s)))))))"

text \<open>\<open>copy_to_user\<close> of the whole buffer, the common end of the commands that print.\<close>

definition ioctl_reply ::
  "user_mem \<Rightarrow> addr \<Rightarrow> char list \<Rightarrow> ioctl_case \<Rightarrow> 'a ioctl_state_scheme \<Rightarrow> ioctl_case \<times> 'a ioctl_state_scheme" where
  "ioctl_reply u dst buf c s =
     (let (missing, s) = copy_to_user u dst buf s in
      if missing \<noteq> 0 then (c\<lparr>c_err := - EFAULT\<rparr>, module_put Mod_ioctl_module s)
      else (c, module_put Mod_ioctl_module s))"

definition ioctl_show_all ::
  "user_mem \<Rightarrow> addr \<Rightarrow> 'a ioctl_state_scheme \<Rightarrow> (ioctl_case \<times> 'a ioctl_state_scheme) cres" where
  "ioctl_show_all u ioctl_param s =
     (let s = try_module_get Mod_ioctl_module s in
      bindE (show_all_vectors (kzalloc_chars BUF_LEN) s) (\<lambda>(ret, buf).
      bindE (if ret = 0 then write_at 0 ''no vectors present'' buf else Inr buf) (\<lambda>buf.
      Inr (ioctl_reply u ioctl_param buf (leave Goto_free_vector_name 0) s))))"

definition ioctl_show_mine ::
  "user_mem \<Rightarrow> addr \<Rightarrow> 'a ioctl_state_scheme \<Rightarrow> (ioctl_case \<times> 'a ioctl_state_scheme) cres" where
  "ioctl_show_mine u ioctl_param s =
     (let s = try_module_get Mod_ioctl_module s in
      bindE (show_into (kzalloc_chars BUF_LEN) (current_vector s) s) (\<lambda>(_, buf).
      Inr (ioctl_reply u ioctl_param buf (leave Goto_free_vector_name 0) s)))"

text \<open>A NULL from \<open>kzalloc\<close> is not tested: the copy then writes through it.\<close>

definition ioctl_vector_for_pid ::
  "allocator \<Rightarrow> user_mem \<Rightarrow> addr \<Rightarrow> 'a ioctl_state_scheme \<Rightarrow> (ioctl_case \<times> 'a ioctl_state_scheme) cres" where
  "ioctl_vector_for_pid km u ioctl_param s =
     (let s = try_module_get Mod_ioctl_module s;
          (pid_buf, s) = kmalloc km (Raw 16) s;
          c = (leave Goto_free_vector_name 0)\<lparr>c_pid_buf := pid_buf\<rparr> in
      if pid_buf = 0 then Inl Null_deref
      else if not_copied u ioctl_param 16 \<noteq> 0 then
        Inr (c\<lparr>c_err := - EINVAL\<rparr>, module_put Mod_ioctl_module s)
      else
        let (pid, user_buffer) = u_pid_n_buf u ioctl_param in
        case vector_info s pid of
          None \<Rightarrow> Inl Null_deref
        | Some vector_addr \<Rightarrow>
            bindE (show_into (kzalloc_chars BUF_LEN) vector_addr s) (\<lambda>(_, buf).
            Inr (ioctl_reply u user_buffer buf c s)))"

definition ioctl_create_from_bitmap ::
  "allocator \<Rightarrow> user_mem \<Rightarrow> addr \<Rightarrow> 'a ioctl_state_scheme \<Rightarrow> (ioctl_case \<times> 'a ioctl_state_scheme) cres" where
  "ioctl_create_from_bitmap km u ioctl_param s =
     (let s = try_module_get Mod_ioctl_module s;
          (kernel_bitmap, s) = kmalloc km (Raw 4) s;
          c = (leave Goto_free_vector_name 0)\<lparr>c_kernel_bitmap := kernel_bitmap\<rparr> in
      if kernel_bitmap = 0 then Inl Null_deref
      else if not_copied u ioctl_param 4 \<noteq> 0 then
        Inr (c\<lparr>c_err := - EINVAL\<rparr>, module_put Mod_ioctl_module s)
      else
        let bm = u_bitmap u ioctl_param; err = validate_bitmap bm in
        if err \<noteq> 0 then Inr (c\<lparr>c_err := scast err\<rparr>, module_put Mod_ioctl_module s)
        else
          bindE (add_vector_from_bitmap km bm s) (\<lambda>(ret, s).
          Inr (c\<lparr>c_err := scast ret\<rparr>, module_put Mod_ioctl_module s)))"

section \<open>The handler\<close>

definition ioctl_switch ::
  "allocator \<Rightarrow> user_mem \<Rightarrow> uint \<Rightarrow> addr \<Rightarrow> 'a ioctl_state_scheme \<Rightarrow> (ioctl_case \<times> 'a ioctl_state_scheme) cres" where
  "ioctl_switch km u ioctl_request ioctl_param s =
     (if ioctl_request = IOCTL_SET then ioctl_set km u ioctl_param s
      else if ioctl_request = IOCTL_REMOVE then ioctl_remove km u ioctl_param s
      else if ioctl_request = IOCTL_SHOW_ALL then ioctl_show_all u ioctl_param s
      else if ioctl_request = IOCTL_SHOW_MINE then ioctl_show_mine u ioctl_param s
      else if ioctl_request = IOCTL_VECTOR_FOR_PID then ioctl_vector_for_pid km u ioctl_param s
      else if ioctl_request = IOCTL_CREATE_FROM_BITMAP then ioctl_create_from_bitmap km u ioctl_param s
      else Inr (leave Goto_free_vector_name (- EINVAL), s))"

definition mutex_lock_ioctl :: "'a ioctl_state_scheme \<Rightarrow> ('a ioctl_state_scheme) cres" where
  "mutex_lock_ioctl s = (if mutexlock s then Inl Self_deadlock else Inr (s\<lparr>mutexlock := True\<rparr>))"

definition ioctl_end ::
  "addr \<Rightarrow> ioctl_case \<Rightarrow> 'a ioctl_state_scheme \<Rightarrow> (ulong \<times> 'a ioctl_state_scheme) cres" where
  "ioctl_end buf c s =
     bindE (case c_exit c of
        Goto_out \<Rightarrow> Inr s
      | Goto_free_vector_name \<Rightarrow>
          bindE (kfree buf s) (\<lambda>s.
          bindE (kfree (c_vector_name c) s) (\<lambda>s.
          bindE (kfree (c_pid_buf c) s) (\<lambda>s.
          kfree (c_kernel_bitmap c) s)))) (\<lambda>s.
     Inr (c_err c, s\<lparr>mutexlock := False\<rparr>))"

definition custom_ioctl ::
  "allocator \<Rightarrow> user_mem \<Rightarrow> uint \<Rightarrow> addr \<Rightarrow> 'a ioctl_state_scheme \<Rightarrow> (ulong \<times> 'a ioctl_state_scheme) cres" where
  "custom_ioctl km u ioctl_request ioctl_param s =
     bindE (mutex_lock_ioctl s) (\<lambda>s.
     let (buf, s) = kmalloc km (Raw BUF_LEN) s in
     if buf = 0 then ioctl_end buf (leave Goto_out (- ENOMEM)) s
     else
       bindE (ioctl_switch km u ioctl_request ioctl_param s) (\<lambda>(c, s).
       ioctl_end buf c s))"

text \<open>\<open>register_chrdev\<close> is the kernel's; its result is the argument.\<close>

definition init_ioctl_module :: "cint \<Rightarrow> 'a ioctl_state_scheme \<Rightarrow> cint \<times> 'a ioctl_state_scheme" where
  "init_ioctl_module ret s =
     (if sint ret < 0 then (- EINVAL, s) else (ret, s\<lparr>chrdev := True, mutexlock := False\<rparr>))"

definition exit_ioctl_module :: "'a ioctl_state_scheme \<Rightarrow> 'a ioctl_state_scheme" where
  "exit_ioctl_module s = s\<lparr>chrdev := False\<rparr>"

section \<open>What each command keeps\<close>

lemma ioctl_frame [simp]:
  "mutexlock (take_ref i s) = mutexlock s" "mutexlock (drop_ref i s) = mutexlock s"
  "mutexlock (try_module_get m s) = mutexlock s" "mutexlock (module_put m s) = mutexlock s"
  "mutexlock (set_current_vector a s) = mutexlock s"
  "user_out (take_ref i s) = user_out s" "user_out (drop_ref i s) = user_out s"
  "user_out (try_module_get m s) = user_out s" "user_out (module_put m s) = user_out s"
  "user_out (set_current_vector a s) = user_out s"
  by (simp_all add: ref_defs set_current_vector_def)

lemma dyn_frame [simp]:
  "dyn_listHead (take_ref i s) = dyn_listHead s" "dyn_listHead (drop_ref i s) = dyn_listHead s"
  "dyn_listHead (module_put m s) = dyn_listHead s"
  "dyn_listHead (set_current_vector a s) = dyn_listHead s"
  "list_heads (take_ref i s) = list_heads s" "list_heads (drop_ref i s) = list_heads s"
  "list_heads (module_put m s) = list_heads s" "list_heads (set_current_vector a s) = list_heads s"
  "dyn_i (take_ref i s) = dyn_i s" "dyn_i (drop_ref i s) = dyn_i s"
  "dyn_i (module_put m s) = dyn_i s" "dyn_i (set_current_vector a s) = dyn_i s"
  "current (module_put m s) = current s" "vector_info (module_put m s) = vector_info s"
  by (simp_all add: ref_defs set_current_vector_def)

lemma device_frame [simp]:
  "v1_listHead (take_ref i s) = v1_listHead s" "v1_listHead (drop_ref i s) = v1_listHead s"
  "v1_listHead (try_module_get m s) = v1_listHead s" "v1_listHead (module_put m s) = v1_listHead s"
  "v1_listHead (set_current_vector a s) = v1_listHead s"
  "chrdev (take_ref i s) = chrdev s" "chrdev (drop_ref i s) = chrdev s"
  "chrdev (try_module_get m s) = chrdev s" "chrdev (module_put m s) = chrdev s"
  "chrdev (set_current_vector a s) = chrdev s"
  "user_out (take_ref i s) = user_out s" "user_out (drop_ref i s) = user_out s"
  "user_out (try_module_get m s) = user_out s" "user_out (module_put m s) = user_out s"
  "user_out (set_current_vector a s) = user_out s"
  by (simp_all add: ref_defs set_current_vector_def)

lemma pin_excess_set_current [simp]: "pin_excess m (set_current_vector a s) = pin_excess m s"
  by (rule pin_excess_frame) simp_all

text \<open>
  The invariant between calls: a registry in order, the mutex free, no half-built list, and room
  in \<open>list_heads\<close>.
\<close>

definition ioctl_ready :: "'a ioctl_state_scheme \<Rightarrow> bool" where
  "ioctl_ready s \<longleftrightarrow> reg_inv s \<and> \<not> mutexlock s \<and> dyn_listHead s = 0 \<and> dyn_i s < length (list_heads s)"

text \<open>
  What the cases of the switch keep, with the locked mutex: as \<open>dyn_kept\<close>; \<open>g\<close> is the number of
  references to this module that the case still holds.
\<close>

definition case_kept :: "cint \<Rightarrow> 'a ioctl_state_scheme \<Rightarrow> 'a ioctl_state_scheme \<Rightarrow> bool" where
  "case_kept g s s' \<longleftrightarrow> reg_inv s' \<and> heap s \<subseteq>\<^sub>m heap s' \<and> dyn_listHead s' = 0
     \<and> current s' = current s \<and> mutexlock s' = mutexlock s
     \<and> length (list_heads s') = length (list_heads s) \<and> dyn_i s' \<le> Suc (dyn_i s)
     \<and> (\<forall>m. m \<noteq> Mod_dynamic_vector \<longrightarrow>
          pin_excess m s' = pin_excess m s + (if m = Mod_ioctl_module then g else 0))"

text \<open>
  A case ends well when its buffers are live memory of its own, none of them in use when it began,
  at most one of the three pointers set.
\<close>

definition case_pointers :: "ioctl_case \<Rightarrow> addr list" where
  "case_pointers c = filter (\<lambda>p. p \<noteq> 0) [c_vector_name c, c_pid_buf c, c_kernel_bitmap c]"

definition case_ends :: "'a ioctl_state_scheme \<Rightarrow> ioctl_case \<Rightarrow> 'a ioctl_state_scheme \<Rightarrow> bool" where
  "case_ends s c s' \<longleftrightarrow> case_kept 0 s s' \<and> length (case_pointers c) \<le> 1
     \<and> (\<forall>p \<in> set (case_pointers c). heap s p = None \<and> (\<exists>n. heap s' p = Some (Raw n)))"

lemma kmalloc_cases:
  assumes "allocator_ok km"
  obtains "kmalloc km b s = (0, s\<lparr>tick := Suc (tick s)\<rparr>)" "km (tick s) (heap s) = 0"
  | a where "kmalloc km b s = (a, s\<lparr>tick := Suc (tick s), heap := (heap s)(a \<mapsto> b)\<rparr>)"
      and "a \<noteq> 0" and "\<not> is_err a" and "heap s a = None" and "a = km (tick s) (heap s)"
  using kmalloc_ok [OF assms, of b s] allocator_okD [OF assms, of "tick s" "heap s"]
  by (cases "km (tick s) (heap s) = 0") (auto simp: Let_def)

lemma case_kept_refl:
  "reg_inv s \<Longrightarrow> dyn_listHead s = 0 \<Longrightarrow> case_kept 0 s s"
  by (simp add: case_kept_def)

lemma case_kept_tick:
  "case_kept g s s' \<Longrightarrow> case_kept g s (s'\<lparr>tick := n\<rparr>)"
  by (simp add: case_kept_def reg_inv_def reg_ok_def pin_excess_def)

lemma case_kept_alloc:
  assumes "case_kept g s s'" and "heap s' a = None"
  shows "case_kept g s (s'\<lparr>tick := n, heap := (heap s')(a \<mapsto> b)\<rparr>)"
proof -
  have "heap s' \<subseteq>\<^sub>m (heap s')(a \<mapsto> b)" by (rule map_le_fresh) (rule assms(2))
  then have "heap s \<subseteq>\<^sub>m (heap s')(a \<mapsto> b)"
    using assms(1) map_le_trans unfolding case_kept_def by blast
  with assms dyn_kept_alloc [of s' a, where n = n and b = b] show ?thesis
    by (simp add: case_kept_def pin_excess_def)
qed

lemma case_kept_module:
  "case_kept g s s' \<Longrightarrow> case_kept (g + 1) s (try_module_get Mod_ioctl_module s')"
  "case_kept g s s' \<Longrightarrow> case_kept (g - 1) s (module_put Mod_ioctl_module s')"
  by (auto simp: case_kept_def pin_excess_module)

lemma case_kept_ref:
  assumes "case_kept g s s'" and "i < length (vec_list s')"
  shows "case_kept g s (take_ref i s')" and "case_kept g s (drop_ref i s')"
  using assms by (simp_all add: case_kept_def reg_inv_ref)

lemma case_kept_current:
  "case_kept g s s' \<Longrightarrow> case_kept g s (set_current_vector a s')"
  by (simp add: case_kept_def)

lemma case_ends_reply:
  assumes "case_kept 1 s s'" and "length (case_pointers c) \<le> 1"
    and "\<forall>p \<in> set (case_pointers c). heap s p = None \<and> (\<exists>n. heap s' p = Some (Raw n))"
  shows "\<exists>c' s''. ioctl_reply u dst buf c s' = (c', s'') \<and> case_ends s c' s''"
proof -
  have "case_kept 1 s (s'\<lparr>user_out := x\<rparr>)" for x
    using assms(1) by (simp add: case_kept_def reg_inv_def reg_ok_def pin_excess_def)
  from case_kept_module(2) [OF this] assms(2,3) show ?thesis
    by (auto simp: ioctl_reply_def copy_to_user_def Let_def case_ends_def case_pointers_def)
qed

lemma case_ends_module:
  assumes "case_kept 1 s s'" and "length (case_pointers c) \<le> 1"
    and "\<forall>p \<in> set (case_pointers c). heap s p = None \<and> (\<exists>n. heap s' p = Some (Raw n))"
  shows "case_ends s c (module_put Mod_ioctl_module s')"
  using case_kept_module(2) [OF assms(1)] assms(2,3) by (simp add: case_ends_def)

section \<open>Leaving the old vector\<close>

text \<open>The registry prints: every vector is printable and the text of all fits the buffer.\<close>

definition texts_fit :: "'a registry_scheme \<Rightarrow> bool" where
  "texts_fit s \<longleftrightarrow> (\<forall>v \<in> set (vec_list s). printable v)
     \<and> length (registry_text (vec_list s)) < BUF_LEN"

lemma vector_text_fits:
  assumes "texts_fit s" and "v \<in> set (vec_list s)"
  shows "length (vector_text v) < BUF_LEN"
proof -
  have "length (vector_text v) \<le> length (registry_text vs)" if "v \<in> set vs" for vs
    using that by (induction vs) (auto simp: registry_text_def)
  from this [OF assms(2)] show ?thesis using assms(1) by (simp add: texts_fit_def)
qed

text \<open>What \<open>show_my_vector\<close> leaves in a fresh buffer of 256 bytes, as a string.\<close>

definition my_text :: "addr \<Rightarrow> 'a registry_scheme \<Rightarrow> string" where
  "my_text a s =
     (if a = 0 then ''vector not assigned''
      else case addr_index a s of None \<Rightarrow> [] | Some i \<Rightarrow> vector_text (vec_list s ! i))"

lemma vector_text_no_NUL: "NUL \<notin> set (vector_text v)"
  by (auto simp: vector_text_def sprintf_d_chars sprintf_lu_chars)

lemma my_text_no_NUL: "NUL \<notin> set (my_text a s)"
  by (auto simp: my_text_def vector_text_no_NUL split: option.splits)

lemma my_text_fits: "texts_fit s \<Longrightarrow> length (my_text a s) < BUF_LEN"
  using vector_text_fits [of s] index_bounds(2) [of a s]
  by (auto simp: my_text_def BUF_LEN_def split: option.splits)

lemma show_into_spec:
  assumes "texts_fit s"
  shows "\<exists>ret. show_into (kzalloc_chars BUF_LEN) a s =
    Inr (ret, my_text a s @ replicate (BUF_LEN - length (my_text a s)) NUL)"
proof (cases "a = 0")
  case True
  then show ?thesis
    by (simp add: show_into_def show_my_vector_unassigned kzalloc_chars_def BUF_LEN_def my_text_def)
next
  case False
  note p = assms [unfolded texts_fit_def]
  show ?thesis
  proof (cases "addr_index a s")
    case None
    with False p show ?thesis
      by (simp add: show_into_def show_my_vector_spec my_text_def kzalloc_chars_def)
  next
    case (Some i)
    with vector_text_fits [OF assms, of "vec_list s ! i"] False p index_bounds(2) [OF Some]
    show ?thesis
      by (simp add: show_into_def show_my_vector_spec my_text_def kzalloc_chars_def Let_def)
  qed
qed

text \<open>
  Leaving a vector by \<open>if_assigned_reduce\<close>: the text of three lines is taken for a name. No
  reference is dropped unless some vector is called by that whole text.
\<close>

lemma strncmp_terminated:
  assumes "NUL \<notin> set t" and "terminated a"
  shows "strncmp_eq a (t @ [NUL]) (length t) = Inr (\<exists>r. c_string a = t @ r)"
  using assms
proof (induction t arbitrary: a)
  case Nil
  then show ?case by simp
next
  case (Cons x t)
  then obtain c a' where a: "a = c # a'" by (cases a) auto
  show ?case
  proof (cases "c = x")
    case True
    with Cons.prems a have "x \<noteq> NUL" "NUL \<notin> set t" "terminated a'" by auto
    with Cons.IH [of a'] True a show ?thesis by simp
  next
    case False
    with Cons.prems a show ?thesis by auto
  qed
qed

lemma len19: "length ''vector not assigned'' = 19"
  by simp

lemma if_assigned_reduce_outcome:
  assumes km: "allocator_ok km" and inv: "reg_inv s" and fit: "texts_fit s"
  shows "\<exists>err s' n. if_assigned_reduce km s = Inr (err, s') \<and>
    (s' = s\<lparr>tick := n\<rparr> \<or>
     (\<exists>i. current_vector s \<noteq> 0 \<and> name_index (my_text (current_vector s) s) s = Some i
          \<and> s' = drop_ref i (s\<lparr>tick := n\<rparr>)))"
  (is "\<exists>err s' n. ?P err s' n")
proof (cases "current_vector s = 0")
  case True
  then have "?P 0 (s\<lparr>tick := tick s\<rparr>) (tick s)" by (simp add: if_assigned_reduce_def)
  then show ?thesis by blast
next
  case False
  let ?t = "my_text (current_vector s) s"
  let ?buf = "?t @ replicate (BUF_LEN - length ?t) NUL"
  let ?q = "\<exists>r. ?t = ''vector not assigned'' @ r"
  show ?thesis
  proof (rule kmalloc_cases [OF km, of "Raw BUF_LEN" s])
    assume "kmalloc km (Raw BUF_LEN) s = (0, s\<lparr>tick := Suc (tick s)\<rparr>)"
    with False have "?P (- ENOMEM) (s\<lparr>tick := Suc (tick s)\<rparr>) (Suc (tick s))"
      by (simp add: if_assigned_reduce_def)
    then show ?thesis by blast
  next
    fix a
    let ?s = "s\<lparr>tick := Suc (tick s), heap := (heap s)(a \<mapsto> Raw BUF_LEN)\<rparr>"
    assume a: "kmalloc km (Raw BUF_LEN) s = (a, ?s)" "a \<noteq> 0" "heap s a = None"
    have fit': "texts_fit ?s" "my_text b ?s = my_text b s" for b
      using fit by (simp_all add: texts_fit_def my_text_def addr_index_def cong: option.case_cong)
    have ok: "reg_ok ?s" using inv by (simp add: reg_inv_def reg_ok_def)
    have c: "current_vector ?s = current_vector s" by (simp add: current_vector_def)
    have b: "terminated ?buf" "c_string ?buf = ?t"
      using my_text_fits [OF fit, of "current_vector s"]
      by (simp_all add: c_string_append_terminated my_text_no_NUL)
    have cmp: "strncmp_eq ?buf (''vector not assigned'' @ [NUL]) 19 = Inr ?q"
      using strncmp_terminated [OF _ b(1), of "''vector not assigned''"]
      by (simp only: b(2) len19) simp
    have idx: "name_index ?t ?s = name_index ?t s" by (simp add: name_index_def)
    obtain ret where sh: "show_into (kzalloc_chars BUF_LEN) (current_vector s) ?s = Inr (ret, ?buf)"
      using show_into_spec [OF fit'(1)] unfolding fit'(2) by blast
    have free: "kfree a ?s = Inr (s\<lparr>tick := Suc (tick s)\<rparr>)"
      by (rule kfree_fresh) (rule a)+
    have "drop_ref i ?s = (drop_ref i s)\<lparr>tick := Suc (tick s), heap := (heap (drop_ref i s))(a \<mapsto> Raw BUF_LEN)\<rparr>"
      and "drop_ref i (s\<lparr>tick := Suc (tick s)\<rparr>) = (drop_ref i s)\<lparr>tick := Suc (tick s)\<rparr>" for i
      by (simp_all add: ref_defs)
    then have free_drop: "kfree a (drop_ref i ?s) = Inr (drop_ref i (s\<lparr>tick := Suc (tick s)\<rparr>))" for i
      using kfree_fresh [OF a(2), of "drop_ref i s"] a(3) by simp
    from False a(1,2) c cmp sh free free_drop reduce_ref_count_spec [OF ok b(1)]
    show ?thesis
      by (cases ?q; cases "name_index ?t s")
        (simp_all add: if_assigned_reduce_def b(2) idx, blast+)
  qed
qed

section \<open>Every case ends well\<close>

text \<open>The user's pointer holds the string \<open>q\<close>, of a length that an \<open>unsigned int\<close> and its successor hold.\<close>

definition user_name :: "user_mem \<Rightarrow> addr \<Rightarrow> string \<Rightarrow> bool" where
  "user_name u p q \<longleftrightarrow> (\<exists>bytes. u_bytes u p = Some bytes \<and> terminated bytes \<and> c_string bytes = q)
     \<and> length q < 2 ^ 32 - 1"

lemma user_nameE:
  assumes "user_name u p q"
  obtains bytes where "user_string u p = Inr bytes" and "strlen bytes = Inr (length q)"
    and "unat (of_nat (length q) :: uint) = length q"
    and "unat (of_nat (length q) + 1 :: uint) = Suc (length q)"
    and "read_bytes (length q) bytes = Inr q"
    and "write_at 0 q (kzalloc_chars (Suc (length q))) = Inr (q @ [NUL])"
    and "write_at (length q) [NUL] (q @ [NUL]) = Inr (q @ [NUL])"
    and "terminated (q @ [NUL])" and "c_string (q @ [NUL]) = q"
proof -
  from assms obtain bytes where b: "u_bytes u p = Some bytes" "terminated bytes" "c_string bytes = q"
    and n: "length q < 2 ^ 32 - 1" by (auto simp: user_name_def)
  have no: "NUL \<notin> set q" using b(3) by (metis c_string_no_NUL)
  have l: "unat (of_nat (length q) :: uint) = length q"
    using n by (simp add: unat_of_nat)
  have "unat (of_nat (Suc (length q)) :: uint) = Suc (length q)"
    using n by (simp only: unat_of_nat) simp
  then have l1: "unat (of_nat (length q) + 1 :: uint) = Suc (length q)"
    by (simp add: add.commute)
  show ?thesis
  proof (rule that [of bytes])
    show "read_bytes (length q) bytes = Inr q"
      using length_c_string_less [OF b(2)] take_c_string [of bytes] b(3)
      by (simp add: read_bytes_def)
    show "write_at 0 q (kzalloc_chars (Suc (length q))) = Inr (q @ [NUL])"
      by (simp add: write_at_append_0 kzalloc_chars_def Suc_diff_le flip: replicate_Suc) simp
    show "write_at (length q) [NUL] (q @ [NUL]) = Inr (q @ [NUL])"
      by (simp add: write_at_append)
  qed (use b l l1 no in \<open>simp_all add: user_string_def strlen_def\<close>)
qed

text \<open>The commands on a name, as equations over the registry's specification.\<close>

lemma ioctl_set_eq:
  assumes "allocator_ok km" and "reg_ok s" and "user_name u p q"
  shows "ioctl_set km u p s =
    (let (vn, s) = kmalloc km (Raw (Suc (length q))) s;
         c = (\<lambda>e. (leave Goto_free_vector_name e)\<lparr>c_vector_name := vn\<rparr>) in
     if vn = 0 then Inr (leave Goto_out (- ENOMEM), s)
     else
       let s = try_module_get Mod_ioctl_module s in
       if not_copied u p (length q) \<noteq> 0 then Inr (c (- EINVAL), module_put Mod_ioctl_module s)
       else case name_index q s of
           None \<Rightarrow> Inr (c (- EINVAL), module_put Mod_ioctl_module s)
         | Some i \<Rightarrow>
             let a = overriddenSyscalls_address (vec_list s ! i); s = take_ref i s in
             if a = 0 then Inr (c (- EINVAL), module_put Mod_ioctl_module s)
             else bindE (if_assigned_reduce km s) (\<lambda>(_, s).
                  Inr (c 0, module_put Mod_ioctl_module (set_current_vector a s))))"
proof (rule user_nameE [OF assms(3)])
  fix bytes
  assume u: "user_string u p = Inr bytes" "strlen bytes = Inr (length q)"
    "unat (of_nat (length q) :: uint) = length q" "unat (of_nat (length q) + 1 :: uint) = Suc (length q)"
    "read_bytes (length q) bytes = Inr q"
    "write_at 0 q (kzalloc_chars (Suc (length q))) = Inr (q @ [NUL])"
    "terminated (q @ [NUL])" "c_string (q @ [NUL]) = q"
  let ?s1 = "\<lambda>a. try_module_get Mod_ioctl_module
      (s\<lparr>tick := Suc (tick s), heap := (heap s)(a \<mapsto> Raw (Suc (length q)))\<rparr>)"
  have ok: "reg_ok (?s1 a)" for a
    using assms(2) by (simp add: reg_ok_def try_module_get_def)
  note get = get_vector_address_spec [OF ok u(7), unfolded u(8)]
  show ?thesis
    by (rule kmalloc_cases [OF assms(1), of "Raw (Suc (length q))" s])
      (auto simp: ioctl_set_def u Let_def get remove_from_task_struct_def add_to_task_struct_def
        split: option.splits)
qed

lemma ioctl_remove_eq:
  assumes "allocator_ok km" and "reg_ok s" and "user_name u p q"
  shows "ioctl_remove km u p s =
    (let (vn, s) = kmalloc km (Raw (Suc (length q))) s;
         c = (\<lambda>e. (leave Goto_free_vector_name e)\<lparr>c_vector_name := vn\<rparr>) in
     if vn = 0 then Inr (leave Goto_out (- ENOMEM), s)
     else
       let s = try_module_get Mod_ioctl_module s in
       if not_copied u p (length q) \<noteq> 0 then Inr (c (- EINVAL), module_put Mod_ioctl_module s)
       else case name_index q s of
           None \<Rightarrow> Inr (c (- EINVAL), module_put Mod_ioctl_module s)
         | Some i \<Rightarrow>
             let ret = refcount (vec_list s ! i) - 1; s = drop_ref i s in
             if sint ret < 0 then Inr (c (- EINVAL), module_put Mod_ioctl_module s)
             else Inr (c (scast ret), module_put Mod_ioctl_module (set_current_vector 0 s)))"
proof (rule user_nameE [OF assms(3)])
  fix bytes
  assume u: "user_string u p = Inr bytes" "strlen bytes = Inr (length q)"
    "unat (of_nat (length q) :: uint) = length q" "unat (of_nat (length q) + 1 :: uint) = Suc (length q)"
    "read_bytes (length q) bytes = Inr q"
    "write_at 0 q (kzalloc_chars (Suc (length q))) = Inr (q @ [NUL])"
    "write_at (length q) [NUL] (q @ [NUL]) = Inr (q @ [NUL])"
    "terminated (q @ [NUL])" "c_string (q @ [NUL]) = q"
  let ?s1 = "\<lambda>a. try_module_get Mod_ioctl_module
      (s\<lparr>tick := Suc (tick s), heap := (heap s)(a \<mapsto> Raw (Suc (length q)))\<rparr>)"
  have ok: "reg_ok (?s1 a)" for a
    using assms(2) by (simp add: reg_ok_def try_module_get_def)
  note red = reduce_ref_count_spec [OF ok u(8), unfolded u(9)]
  show ?thesis
    by (rule kmalloc_cases [OF assms(1), of "Raw (Suc (length q))" s])
      (auto simp: ioctl_remove_def u Let_def red remove_from_task_struct_def
        split: option.splits)
qed

lemma texts_fit_refs:
  assumes "texts_fit s" shows "texts_fit (take_ref i s)" and "texts_fit (drop_ref i s)"
proof -
  have "texts_fit (add_refcount i d s)" for d
  proof -
    let ?l = "vec_list (add_refcount i d s)"
    have t: "map vector_text ?l = map vector_text (vec_list s)"
      by (rule add_refcount_same) (simp add: vector_text_def)
    have "map printable ?l = map printable (vec_list s)"
      by (rule add_refcount_same) (simp add: printable_def)
    then have "printable ` set ?l = printable ` set (vec_list s)" by (metis list.set_map)
    then have "\<forall>v \<in> set ?l. printable v"
      using assms unfolding texts_fit_def by (metis (mono_tags) image_iff)
    with t assms show ?thesis by (simp add: texts_fit_def registry_text_def)
  qed
  then show "texts_fit (take_ref i s)" and "texts_fit (drop_ref i s)" by (simp_all add: texts_fit_def)
qed

lemma case_kept_reduce:
  assumes "case_kept g s s'" and "allocator_ok km" and "texts_fit s'"
  shows "\<exists>err s''. if_assigned_reduce km s' = Inr (err, s'') \<and> case_kept g s s'' \<and> heap s'' = heap s'"
proof -
  have inv: "reg_inv s'" using assms(1) by (simp add: case_kept_def)
  have k: "case_kept g s (s'\<lparr>tick := n\<rparr>)" for n using assms(1) by (rule case_kept_tick)
  have "case_kept g s (drop_ref i (s'\<lparr>tick := n\<rparr>))" if "name_index t s' = Some i" for i t n
    by (rule case_kept_ref(2) [OF k]) (use index_bounds(1) [OF that] in simp)
  then show ?thesis
    using if_assigned_reduce_outcome [OF assms(2) inv assms(3)] k by fastforce
qed

lemma case_ends_set:
  assumes km: "allocator_ok km" and inv: "reg_inv s" "dyn_listHead s = 0"
    and q: "user_name u p q" and fit: "texts_fit s"
  shows "\<exists>c s'. ioctl_set km u p s = Inr (c, s') \<and> case_ends s c s'"
proof (rule kmalloc_cases [OF km, of "Raw (Suc (length q))" s])
  note k0 = case_kept_refl [OF inv]
  assume "kmalloc km (Raw (Suc (length q))) s = (0, s\<lparr>tick := Suc (tick s)\<rparr>)"
  with ioctl_set_eq [OF km reg_inv_ok [OF inv(1)] q] case_kept_tick [OF k0]
  show ?thesis by (simp add: case_ends_def case_pointers_def leave_def)
next
  fix a
  let ?s = "s\<lparr>tick := Suc (tick s), heap := (heap s)(a \<mapsto> Raw (Suc (length q)))\<rparr>"
  let ?s1 = "try_module_get Mod_ioctl_module ?s"
  let ?c = "\<lambda>e. (leave Goto_free_vector_name e)\<lparr>c_vector_name := a\<rparr>"
  assume a: "kmalloc km (Raw (Suc (length q))) s = (a, ?s)" "a \<noteq> 0" "heap s a = None"
  have k1: "case_kept 1 s ?s1"
    using case_kept_module(1) [OF case_kept_alloc [OF case_kept_refl [OF inv] a(3)]] by simp
  have ends: "case_ends s (?c e) (module_put Mod_ioctl_module s')" if "case_kept 1 s s'" "heap s' = heap ?s" for e s'
    by (rule case_ends_module [OF that(1)]) (use a that(2) in \<open>simp_all add: case_pointers_def leave_def\<close>)
  note eq = ioctl_set_eq [OF km reg_inv_ok [OF inv(1)] q, unfolded a(1) Let_def case_prod_conv]
  show ?thesis
  proof (cases "not_copied u p (length q) \<noteq> 0 \<or> name_index q ?s1 = None")
    case True
    then show ?thesis using eq a(2) ends [OF k1, of "- EINVAL"] by auto
  next
    case False
    then obtain i where i: "not_copied u p (length q) = 0" "name_index q ?s1 = Some i" by blast
    let ?va = "overriddenSyscalls_address (vec_list ?s1 ! i)" and ?s2 = "take_ref i ?s1"
    have k2: "case_kept 1 s ?s2" by (rule case_kept_ref(1) [OF k1 index_bounds(1) [OF i(2)]])
    have "texts_fit ?s1" using fit by (simp add: texts_fit_def)
    then have "texts_fit ?s2" by (rule texts_fit_refs)
    from case_kept_reduce [OF k2 km this] obtain err s3 where
      s3: "if_assigned_reduce km ?s2 = Inr (err, s3)" "case_kept 1 s s3" "heap s3 = heap ?s2" by blast
    show ?thesis
    proof (cases "?va = 0")
      case True
      then show ?thesis using eq a(2) i ends [OF k2, of "- EINVAL"] by auto
    next
      case False
      then show ?thesis
        using eq a(2) i s3 ends [OF case_kept_current [OF s3(2)], of _ 0] by auto
    qed
  qed
qed

lemma case_ends_remove:
  assumes km: "allocator_ok km" and inv: "reg_inv s" "dyn_listHead s = 0" and q: "user_name u p q"
  shows "\<exists>c s'. ioctl_remove km u p s = Inr (c, s') \<and> case_ends s c s'"
proof (rule kmalloc_cases [OF km, of "Raw (Suc (length q))" s])
  note k0 = case_kept_refl [OF inv]
  assume "kmalloc km (Raw (Suc (length q))) s = (0, s\<lparr>tick := Suc (tick s)\<rparr>)"
  with ioctl_remove_eq [OF km reg_inv_ok [OF inv(1)] q] case_kept_tick [OF k0]
  show ?thesis by (simp add: case_ends_def case_pointers_def leave_def)
next
  fix a
  let ?s = "s\<lparr>tick := Suc (tick s), heap := (heap s)(a \<mapsto> Raw (Suc (length q)))\<rparr>"
  let ?s1 = "try_module_get Mod_ioctl_module ?s"
  let ?c = "\<lambda>e. (leave Goto_free_vector_name e)\<lparr>c_vector_name := a\<rparr>"
  assume a: "kmalloc km (Raw (Suc (length q))) s = (a, ?s)" "a \<noteq> 0" "heap s a = None"
  have k1: "case_kept 1 s ?s1"
    using case_kept_module(1) [OF case_kept_alloc [OF case_kept_refl [OF inv] a(3)]] by simp
  have ends: "case_ends s (?c e) (module_put Mod_ioctl_module s')" if "case_kept 1 s s'" "heap s' = heap ?s" for e s'
    by (rule case_ends_module [OF that(1)]) (use a that(2) in \<open>simp_all add: case_pointers_def leave_def\<close>)
  note eq = ioctl_remove_eq [OF km reg_inv_ok [OF inv(1)] q, unfolded a(1) Let_def case_prod_conv]
  show ?thesis
  proof (cases "not_copied u p (length q) \<noteq> 0 \<or> name_index q ?s1 = None")
    case True
    then show ?thesis using eq a(2) ends [OF k1, of "- EINVAL"] by auto
  next
    case False
    then obtain i where i: "not_copied u p (length q) = 0" "name_index q ?s1 = Some i" by blast
    have k2: "case_kept 1 s (drop_ref i ?s1)" by (rule case_kept_ref(2) [OF k1 index_bounds(1) [OF i(2)]])
    show ?thesis
      using eq a(2) i ends [OF k2] ends [OF case_kept_current [OF k2, of 0]]
      by (cases "sint (refcount (vec_list ?s1 ! i) - 1) < 0") auto
  qed
qed

lemma case_kept_first: "reg_inv s \<Longrightarrow> dyn_listHead s = 0 \<Longrightarrow> case_kept 1 s (try_module_get Mod_ioctl_module s)"
  using case_kept_module(1) [OF case_kept_refl] by fastforce

lemma case_ends_show_all:
  assumes inv: "reg_inv s" "dyn_listHead s = 0" and fit: "texts_fit s"
  shows "\<exists>c s'. ioctl_show_all u p s = Inr (c, s') \<and> case_ends s c s'"
proof -
  let ?t = "registry_text (vec_list s)"
  have "BUF_LEN \<le> MAX_BUFFER_SIZE" by (simp add: BUF_LEN_def MAX_BUFFER_SIZE_def)
  then have show_all: "show_all_vectors (kzalloc_chars BUF_LEN) (try_module_get Mod_ioctl_module s) =
      Inr (length ?t, ?t @ drop (length ?t) (kzalloc_chars BUF_LEN))"
    using fit by (simp add: texts_fit_def show_all_vectors_spec Let_def kzalloc_chars_def)
  have "\<exists>buf. (if length ?t = 0 then write_at 0 ''no vectors present'' (?t @ drop (length ?t) (kzalloc_chars BUF_LEN))
      else Inr (?t @ drop (length ?t) (kzalloc_chars BUF_LEN))) = Inr buf"
    by (simp add: write_at_append_0 kzalloc_chars_def BUF_LEN_def)
  then obtain buf where "ioctl_show_all u p s =
      Inr (ioctl_reply u p buf (leave Goto_free_vector_name 0) (try_module_get Mod_ioctl_module s))"
    by (auto simp: ioctl_show_all_def show_all Let_def)
  moreover obtain c' s'' where
    "ioctl_reply u p buf (leave Goto_free_vector_name 0) (try_module_get Mod_ioctl_module s) = (c', s'')"
    "case_ends s c' s''"
    using case_ends_reply [OF case_kept_first [OF inv], of "leave Goto_free_vector_name 0" u p buf]
    by (auto simp: case_pointers_def leave_def)
  ultimately show ?thesis by auto
qed

lemma case_ends_show_mine:
  assumes inv: "reg_inv s" "dyn_listHead s = 0" and fit: "texts_fit s"
  shows "\<exists>c s'. ioctl_show_mine u p s = Inr (c, s') \<and> case_ends s c s'"
proof -
  let ?s = "try_module_get Mod_ioctl_module s"
  have "texts_fit ?s" using fit by (simp add: texts_fit_def)
  from show_into_spec [OF this] obtain ret buf where
    "show_into (kzalloc_chars BUF_LEN) (current_vector ?s) ?s = Inr (ret, buf)" by blast
  then have "ioctl_show_mine u p s = Inr (ioctl_reply u p buf (leave Goto_free_vector_name 0) ?s)"
    by (simp add: ioctl_show_mine_def Let_def)
  with case_ends_reply [OF case_kept_first [OF inv], of "leave Goto_free_vector_name 0" u p buf]
  show ?thesis by (auto simp: case_pointers_def leave_def)
qed

text \<open>
  The two commands that copy a structure in rely on their allocation and, for a process
  id, on the process being there.
\<close>

lemma case_ends_for_pid:
  assumes km: "allocator_ok km" "km (tick s) (heap s) \<noteq> 0"
    and inv: "reg_inv s" "dyn_listHead s = 0" and fit: "texts_fit s"
    and pid: "vector_info s (fst (u_pid_n_buf u p)) \<noteq> None"
  shows "\<exists>c s'. ioctl_vector_for_pid km u p s = Inr (c, s') \<and> case_ends s c s'"
proof -
  let ?b = "try_module_get Mod_ioctl_module s" and ?a = "km (tick s) (heap s)"
  let ?s = "?b\<lparr>tick := Suc (tick s), heap := (heap s)(?a \<mapsto> Raw 16)\<rparr>"
  let ?c = "(leave Goto_free_vector_name 0)\<lparr>c_pid_buf := ?a\<rparr>"
  note a = allocator_okD(1) [OF km]
  have alloc: "kmalloc km (Raw 16) ?b = (?a, ?s)"
    using km(2) kmalloc_ok [OF km(1), of "Raw 16" ?b] by (simp add: Let_def)
  have k: "case_kept 1 s ?s"
    using case_kept_alloc [OF case_kept_first [OF inv], of ?a, where n = "Suc (tick s)" and b = "Raw 16"] a by simp
  have c: "length (case_pointers (?c\<lparr>c_err := e\<rparr>)) \<le> 1"
    "\<forall>p \<in> set (case_pointers (?c\<lparr>c_err := e\<rparr>)). heap s p = None \<and> (\<exists>n. heap ?s p = Some (Raw n))" for e
    using a by (simp_all add: case_pointers_def leave_def)
  obtain pd ub where pu: "u_pid_n_buf u p = (pd, ub)" by (cases "u_pid_n_buf u p")
  with pid obtain va where va: "vector_info s pd = Some va" by auto
  have "texts_fit ?s" using fit by (simp add: texts_fit_def)
  from show_into_spec [OF this, of va] obtain ret buf
    where shown: "show_into (kzalloc_chars BUF_LEN) va ?s = Inr (ret, buf)" by blast
  show ?thesis
  proof (cases "not_copied u p 16 = 0")
    case False
    then show ?thesis
      using km(2) case_ends_module [OF k c, of "- EINVAL"]
      by (simp add: ioctl_vector_for_pid_def Let_def alloc)
  next
    case True
    then have "ioctl_vector_for_pid km u p s = Inr (ioctl_reply u ub buf (?c\<lparr>c_err := 0\<rparr>) ?s)"
      using km(2) pu va shown by (simp add: ioctl_vector_for_pid_def Let_def alloc) (simp add: leave_def)
    with case_ends_reply [OF k c, of u ub buf 0] show ?thesis by auto
  qed
qed

lemma map_le_live: "h \<subseteq>\<^sub>m h' \<Longrightarrow> h a = Some b \<Longrightarrow> h' a = Some b"
  by (metis domI map_le_def)

lemma case_kept_dyn:
  assumes "case_kept g s s1" and "dyn_kept s1 s'" and "dyn_i s1 = dyn_i s"
  shows "case_kept g s s'"
proof -
  have "mutexlock s' = mutexlock s1"
    using assms(2) by (cases s', cases s1) (simp add: dyn_kept_def)
  with assms map_le_trans [of "heap s" "heap s1" "heap s'"]
  show ?thesis by (simp add: case_kept_def dyn_kept_def)
qed

lemma case_ends_create:
  assumes km: "allocator_ok km" "km (tick s) (heap s) \<noteq> 0"
    and inv: "reg_inv s" "dyn_listHead s = 0" and slot: "dyn_i s < length (list_heads s)"
  shows "\<exists>c s'. ioctl_create_from_bitmap km u p s = Inr (c, s') \<and> case_ends s c s'"
proof -
  let ?b = "try_module_get Mod_ioctl_module s" and ?a = "km (tick s) (heap s)"
  let ?s = "?b\<lparr>tick := Suc (tick s), heap := (heap s)(?a \<mapsto> Raw 4)\<rparr>"
  let ?c = "(leave Goto_free_vector_name 0)\<lparr>c_kernel_bitmap := ?a\<rparr>"
  note a = allocator_okD(1) [OF km]
  have alloc: "kmalloc km (Raw 4) ?b = (?a, ?s)"
    using km(2) kmalloc_ok [OF km(1), of "Raw 4" ?b] by (simp add: Let_def)
  have k: "case_kept 1 s ?s"
    using case_kept_alloc [OF case_kept_first [OF inv], of ?a, where n = "Suc (tick s)" and b = "Raw 4"] a by simp
  have c: "length (case_pointers (?c\<lparr>c_err := e\<rparr>)) \<le> 1"
    "\<And>p. p \<in> set (case_pointers (?c\<lparr>c_err := e\<rparr>)) \<Longrightarrow> p = ?a" for e
    by (simp_all add: case_pointers_def leave_def split: if_splits)
  have "reg_inv ?s" using k by (simp add: case_kept_def)
  then obtain r s' where add: "add_vector_from_bitmap km (u_bitmap u p) ?s = Inr (r, s')" "dyn_kept ?s s'"
    using add_vector_from_bitmap_total [OF km(1), of ?s "u_bitmap u p"] inv slot by fastforce
  have k': "case_kept 1 s s'" by (rule case_kept_dyn [OF k add(2)]) simp
  have live: "heap s' ?a = Some (Raw 4)"
    by (rule map_le_live [of "heap ?s"]) (use add(2) in \<open>simp_all add: dyn_kept_def\<close>)
  have e1: "case_ends s (?c\<lparr>c_err := e\<rparr>) (module_put Mod_ioctl_module ?s)" for e
    by (rule case_ends_module [OF k c(1)]) (use c(2) a km(2) in auto)
  have e2: "case_ends s (?c\<lparr>c_err := e\<rparr>) (module_put Mod_ioctl_module s')" for e
    by (rule case_ends_module [OF k' c(1)]) (use c(2) a km(2) live in auto)
  have "ioctl_create_from_bitmap km u p s =
      (if not_copied u p 4 \<noteq> 0 then Inr (?c\<lparr>c_err := - EINVAL\<rparr>, module_put Mod_ioctl_module ?s)
       else if validate_bitmap (u_bitmap u p) \<noteq> 0
       then Inr (?c\<lparr>c_err := scast (validate_bitmap (u_bitmap u p))\<rparr>, module_put Mod_ioctl_module ?s)
       else Inr (?c\<lparr>c_err := scast r\<rparr>, module_put Mod_ioctl_module s'))"
    unfolding ioctl_create_from_bitmap_def Let_def alloc case_prod_conv add(1) bindE_Inr
    using km(2) by simp
  with e1 e2 show ?thesis by (auto split: if_splits)
qed

section \<open>The handler is safe\<close>

text \<open>
  What a request has to bring: a mapped, terminated name; an allocation that succeeds where the
  code does not test it; a process that exists.
\<close>

definition request_ok ::
  "allocator \<Rightarrow> user_mem \<Rightarrow> uint \<Rightarrow> addr \<Rightarrow> 'a ioctl_state_scheme \<Rightarrow> bool" where
  "request_ok km u req p s \<longleftrightarrow>
     (req = IOCTL_SET \<or> req = IOCTL_REMOVE \<longrightarrow> (\<exists>q. user_name u p q))
     \<and> (req = IOCTL_VECTOR_FOR_PID \<or> req = IOCTL_CREATE_FROM_BITMAP \<longrightarrow>
          km (Suc (tick s)) ((heap s)(km (tick s) (heap s) \<mapsto> Raw BUF_LEN)) \<noteq> 0)
     \<and> (req = IOCTL_VECTOR_FOR_PID \<longrightarrow> vector_info s (fst (u_pid_n_buf u p)) \<noteq> None)"

lemma case_ends_switch:
  assumes km: "allocator_ok km" and inv: "reg_inv s" "dyn_listHead s = 0" and fit: "texts_fit s"
    and slot: "dyn_i s < length (list_heads s)"
    and name: "req = IOCTL_SET \<or> req = IOCTL_REMOVE \<Longrightarrow> \<exists>q. user_name u p q"
    and room: "req = IOCTL_VECTOR_FOR_PID \<or> req = IOCTL_CREATE_FROM_BITMAP \<Longrightarrow> km (tick s) (heap s) \<noteq> 0"
    and pid: "req = IOCTL_VECTOR_FOR_PID \<Longrightarrow> vector_info s (fst (u_pid_n_buf u p)) \<noteq> None"
  shows "\<exists>c s'. ioctl_switch km u req p s = Inr (c, s') \<and> case_ends s c s'"
proof -
  have bad: "case_ends s (leave Goto_free_vector_name (- EINVAL)) s"
    using case_kept_refl [OF inv] by (simp add: case_ends_def case_pointers_def leave_def)
  consider "req = IOCTL_SET" | "req = IOCTL_REMOVE" | "req = IOCTL_SHOW_ALL" | "req = IOCTL_SHOW_MINE"
    | "req = IOCTL_VECTOR_FOR_PID" | "req = IOCTL_CREATE_FROM_BITMAP"
    | "req \<notin> {IOCTL_SET, IOCTL_REMOVE, IOCTL_SHOW_ALL, IOCTL_SHOW_MINE, IOCTL_VECTOR_FOR_PID,
        IOCTL_CREATE_FROM_BITMAP}" by blast
  then show ?thesis
  proof cases
    case 1
    then show ?thesis using name case_ends_set [OF km inv _ fit] by (auto simp: ioctl_switch_def)
  next
    case 2
    have "ioctl_switch km u req p s = ioctl_remove km u p s"
      using 2 by (simp add: ioctl_switch_def ioctl_numbers)
    with 2 show ?thesis using name case_ends_remove [OF km inv] by auto
  next
    case 3
    have "ioctl_switch km u req p s = ioctl_show_all u p s"
      using 3 by (simp add: ioctl_switch_def ioctl_numbers)
    then show ?thesis using case_ends_show_all [OF inv fit] by simp
  next
    case 4
    have "ioctl_switch km u req p s = ioctl_show_mine u p s"
      using 4 by (simp add: ioctl_switch_def ioctl_numbers)
    then show ?thesis using case_ends_show_mine [OF inv fit] by simp
  next
    case 5
    have "ioctl_switch km u req p s = ioctl_vector_for_pid km u p s"
      using 5 by (simp add: ioctl_switch_def ioctl_numbers)
    then show ?thesis using case_ends_for_pid [OF km room inv fit pid] 5 by simp
  next
    case 6
    have "ioctl_switch km u req p s = ioctl_create_from_bitmap km u p s"
      using 6 by (simp add: ioctl_switch_def ioctl_numbers)
    then show ?thesis using case_ends_create [OF km room inv slot] 6 by simp
  next
    case 7
    then show ?thesis using bad by (simp add: ioctl_switch_def)
  qed
qed

lemma kfree_pointers:
  assumes "length (case_pointers c) \<le> 1"
  shows "bindE (kfree (c_vector_name c) s) (\<lambda>s. bindE (kfree (c_pid_buf c) s) (kfree (c_kernel_bitmap c))) =
    (case case_pointers c of [] \<Rightarrow> Inr s | p # ps \<Rightarrow> kfree p s)"
  using assms by (cases "kfree (c_vector_name c) s"; cases "kfree (c_pid_buf c) s")
    (auto simp: case_pointers_def split: if_splits)

text \<open>Freeing raw buffers that were not there before the call.\<close>

lemma ioctl_end_safe:
  assumes e: "case_ends s1 c s2" and h: "heap s1 buf = Some (Raw n)" and nz: "buf \<noteq> 0"
  shows "\<exists>s'. ioctl_end buf c s2 = Inr (c_err c, s') \<and> \<not> mutexlock s' \<and> reg_inv s'
    \<and> (heap s1)(buf := None) \<subseteq>\<^sub>m heap s' \<and> dyn_listHead s' = 0 \<and> current s' = current s1
    \<and> length (list_heads s') = length (list_heads s1)
    \<and> (\<forall>m. m \<noteq> Mod_dynamic_vector \<longrightarrow> pin_excess m s' = pin_excess m s1)"
proof -
  from e have k: "case_kept 0 s1 s2" and len: "length (case_pointers c) \<le> 1"
    and ps: "\<forall>p \<in> set (case_pointers c). heap s1 p = None \<and> (\<exists>n. heap s2 p = Some (Raw n))"
    by (simp_all add: case_ends_def)
  have le: "heap s1 \<subseteq>\<^sub>m heap s2" and inv: "reg_inv s2" using k by (simp_all add: case_kept_def)
  have hb: "heap s2 buf = Some (Raw n)" by (rule map_le_live [OF le h])
  have fin: "reg_inv s' \<and> (heap s1)(buf := None) \<subseteq>\<^sub>m heap s' \<and> dyn_listHead s' = 0 \<and> current s' = current s1
      \<and> length (list_heads s') = length (list_heads s1)
      \<and> (\<forall>m. m \<noteq> Mod_dynamic_vector \<longrightarrow> pin_excess m s' = pin_excess m s1)"
    if "s' = s2\<lparr>heap := h', mutexlock := False\<rparr>" "\<And>a. heap s2 a = Some Vector_node \<Longrightarrow> h' a = Some Vector_node"
      "(heap s1)(buf := None) \<subseteq>\<^sub>m h'" for s' h'
    using k that reg_inv_heap [OF inv, of s'] by (simp add: case_kept_def pin_excess_def)
  show ?thesis
  proof (cases "c_exit c")
    case Goto_out
    have "(heap s1)(buf := None) \<subseteq>\<^sub>m heap s2" using le by (auto simp: map_le_def)
    with fin [OF refl, of "heap s2"] Goto_out show ?thesis by (simp add: ioctl_end_def)
  next
    case Goto_free_vector_name
    let ?s3 = "s2\<lparr>heap := (heap s2)(buf := None)\<rparr>"
    have b: "kfree buf s2 = Inr ?s3" using hb nz by (simp add: kfree_live)
    have run: "ioctl_end buf c s2 = bindE (case case_pointers c of [] \<Rightarrow> Inr ?s3 | p # ps \<Rightarrow> kfree p ?s3)
        (\<lambda>s. Inr (c_err c, s\<lparr>mutexlock := False\<rparr>))"
      using Goto_free_vector_name by (simp add: ioctl_end_def b kfree_pointers [OF len])
    show ?thesis
    proof (cases "case_pointers c")
      case Nil
      have "(heap s1)(buf := None) \<subseteq>\<^sub>m (heap s2)(buf := None)" using le by (auto simp: map_le_def)
      moreover have "((heap s2)(buf := None)) a = Some Vector_node" if "heap s2 a = Some Vector_node" for a
        using that hb by auto
      ultimately show ?thesis
        using fin [OF refl, of "(heap s2)(buf := None)"] Nil unfolding run by simp
    next
      case (Cons p l)
      with ps obtain j where p: "heap s1 p = None" "heap s2 p = Some (Raw j)" by auto
      have "p \<in> set (case_pointers c)" using Cons by simp
      then have "p \<noteq> 0" unfolding case_pointers_def set_filter by blast
      moreover have "p \<noteq> buf" using p(1) h by auto
      ultimately have "kfree p ?s3 = Inr (s2\<lparr>heap := (heap s2)(buf := None, p := None)\<rparr>)"
        using p(2) by (simp add: kfree_live)
      moreover have "(heap s1)(buf := None) \<subseteq>\<^sub>m (heap s2)(buf := None, p := None)"
        using le p(1) by (auto simp: map_le_def)
      moreover have "((heap s2)(buf := None, p := None)) a = Some Vector_node"
        if "heap s2 a = Some Vector_node" for a using that hb p(2) by auto
      ultimately show ?thesis
        using fin [OF refl, of "(heap s2)(buf := None, p := None)"] Cons unfolding run by simp
    qed
  qed
qed

lemma custom_ioctl_kept:
  assumes km: "allocator_ok km" and ready: "ioctl_ready s" and fit: "texts_fit s"
    and req: "request_ok km u req p s"
  shows "\<exists>err s'. custom_ioctl km u req p s = Inr (err, s') \<and> \<not> mutexlock s' \<and> reg_inv s'
    \<and> heap s \<subseteq>\<^sub>m heap s' \<and> dyn_listHead s' = 0 \<and> current s' = current s
    \<and> (\<forall>m. m \<noteq> Mod_dynamic_vector \<longrightarrow> pin_excess m s' = pin_excess m s)"
proof (rule kmalloc_cases [OF km, of "Raw BUF_LEN" "s\<lparr>mutexlock := True\<rparr>"])
  assume "kmalloc km (Raw BUF_LEN) (s\<lparr>mutexlock := True\<rparr>) =
      (0, s\<lparr>mutexlock := True, tick := Suc (tick (s\<lparr>mutexlock := True\<rparr>))\<rparr>)"
  with ready show ?thesis
    by (simp add: custom_ioctl_def mutex_lock_ioctl_def ioctl_ready_def ioctl_end_def leave_def
        reg_inv_def reg_ok_def pin_excess_def)
next
  fix a
  let ?s = "s\<lparr>mutexlock := True, tick := Suc (tick (s\<lparr>mutexlock := True\<rparr>)),
      heap := (heap (s\<lparr>mutexlock := True\<rparr>))(a \<mapsto> Raw BUF_LEN)\<rparr>"
  assume a: "kmalloc km (Raw BUF_LEN) (s\<lparr>mutexlock := True\<rparr>) = (a, ?s)" "a \<noteq> 0"
    "heap (s\<lparr>mutexlock := True\<rparr>) a = None" "a = km (tick (s\<lparr>mutexlock := True\<rparr>)) (heap (s\<lparr>mutexlock := True\<rparr>))"
  have inv: "reg_inv ?s"
    by (rule reg_inv_heap [of s]) (use ready a(3) in \<open>auto simp: ioctl_ready_def\<close>)
  have "texts_fit ?s" using fit by (simp add: texts_fit_def)
  then obtain c s2 where sw: "ioctl_switch km u req p ?s = Inr (c, s2)" "case_ends ?s c s2"
    using case_ends_switch [OF km inv, of req u p] ready req a(4)
    by (auto simp: ioctl_ready_def request_ok_def)
  have "heap ?s a = Some (Raw BUF_LEN)" by simp
  from ioctl_end_safe [OF sw(2) this a(2)] obtain s' where
    s': "ioctl_end a c s2 = Inr (c_err c, s')" "\<not> mutexlock s'" "reg_inv s'"
      "(heap ?s)(a := None) \<subseteq>\<^sub>m heap s'" "dyn_listHead s' = 0" "current s' = current s"
      "\<forall>m. m \<noteq> Mod_dynamic_vector \<longrightarrow> pin_excess m s' = pin_excess m ?s" by auto
  have "(heap ?s)(a := None) = heap s" using a(3) by (simp add: fun_upd_idem)
  then have "heap s \<subseteq>\<^sub>m heap s'" using s'(4) by (simp only:)
  moreover have "pin_excess m ?s = pin_excess m s" for m by (simp add: pin_excess_def)
  moreover have "custom_ioctl km u req p s = Inr (c_err c, s')"
    using ready a(1,2) sw(1) s'(1) by (simp add: custom_ioctl_def mutex_lock_ioctl_def ioctl_ready_def)
  ultimately show ?thesis using s' by auto
qed

section \<open>What taking and leaving a vector does\<close>

text \<open>Names of one line: no vector's name is the text that \<open>show_my_vector\<close> prints for another.\<close>

definition plain_names :: "'a registry_scheme \<Rightarrow> bool" where
  "plain_names s \<longleftrightarrow> (\<forall>v \<in> set (vec_list s). c_string (vector_name v) \<noteq> []
     \<and> NL \<notin> set (c_string (vector_name v)))"

lemma plain_names_refs:
  assumes "plain_names s" shows "plain_names (take_ref i s)"
proof -
  let ?l = "vec_list (add_refcount i 1 s)"
  have "map vector_name ?l = map vector_name (vec_list s)" by (rule add_refcount_same) simp
  then have "vector_name ` set ?l = vector_name ` set (vec_list s)" by (metis list.set_map)
  with assms show ?thesis unfolding plain_names_def ref_frame by (metis image_iff)
qed

lemma plain_names_no_text:
  assumes "plain_names s" and "a \<noteq> 0"
  shows "name_index (my_text a s) s = None"
proof -
  have "my_text a s = [] \<or> NL \<in> set (my_text a s)"
    using assms(2) by (auto simp: my_text_def vector_text_def split: option.splits)
  then show ?thesis
    using assms(1) by (auto simp: name_index_def first_index_None plain_names_def)
qed

lemma if_assigned_reduce_plain:
  assumes "allocator_ok km" and "reg_inv s" and "texts_fit s" and "plain_names s"
  shows "\<exists>err n. if_assigned_reduce km s = Inr (err, s\<lparr>tick := n\<rparr>)"
  using if_assigned_reduce_outcome [OF assms(1-3)] plain_names_no_text [OF assms(4)] by fastforce

text \<open>The two allocations of a command on a name, and freeing both at its end.\<close>

lemma ioctl_start:
  assumes km: "allocator_ok km" "roomy b km" and free: "\<not> mutexlock s" and room: "card (dom (heap s)) + 2 \<le> b"
  obtains buf n where "custom_ioctl km u req p s =
      bindE (ioctl_switch km u req p (s\<lparr>mutexlock := True, tick := n, heap := (heap s)(buf \<mapsto> Raw BUF_LEN)\<rparr>))
        (\<lambda>(c, s). ioctl_end buf c s)"
    and "buf \<noteq> 0" and "heap s buf = None"
    and "card (dom ((heap s)(buf \<mapsto> Raw BUF_LEN))) < b"
proof -
  have "card (dom (heap (s\<lparr>mutexlock := True\<rparr>))) \<le> b" using room by simp
  from kmalloc_roomy [OF km this, of "Raw BUF_LEN"] obtain a where
    a: "kmalloc km (Raw BUF_LEN) (s\<lparr>mutexlock := True\<rparr>) =
      (a, s\<lparr>mutexlock := True, tick := Suc (tick s), heap := (heap s)(a \<mapsto> Raw BUF_LEN)\<rparr>)"
      "a \<noteq> 0" "heap s a = None" "card (dom ((heap s)(a \<mapsto> Raw BUF_LEN))) = Suc (card (dom (heap s)))"
    by auto
  show ?thesis
    by (rule that [where n = "Suc (tick s)" and buf = a])
      (use a free room in \<open>simp_all add: custom_ioctl_def mutex_lock_ioctl_def\<close>)
qed

lemma ioctl_end_frees:
  assumes "heap s buf = None" and "heap s vn = None" and "buf \<noteq> vn" and "buf \<noteq> 0" and "vn \<noteq> 0"
    and "c = (leave Goto_free_vector_name e)\<lparr>c_vector_name := vn\<rparr>"
    and "heap s' = (heap s)(buf \<mapsto> x, vn \<mapsto> y)"
  shows "ioctl_end buf c s' = Inr (e, s'\<lparr>heap := heap s, mutexlock := False\<rparr>)"
proof -
  have "(heap s)(buf \<mapsto> x, vn \<mapsto> y, buf := None, vn := None) = heap s"
    using assms(1-3) by (auto simp: fun_eq_iff)
  with assms(3-7) show ?thesis by (simp add: ioctl_end_def leave_def kfree_live fun_upd_twist)
qed

lemma ioctl_set_taken:
  assumes km: "allocator_ok km" "roomy b km" and ready: "ioctl_ready s" and fit: "texts_fit s"
    and plain: "plain_names s" and room: "card (dom (heap s)) + 2 \<le> b"
    and q: "user_name u p q" "not_copied u p (length q) = 0"
    and i: "name_index q s = Some i" "overriddenSyscalls_address (vec_list s ! i) = a" "a \<noteq> 0"
  shows "\<exists>s'. custom_ioctl km u IOCTL_SET p s = Inr (0, s') \<and> ioctl_ready s' \<and> heap s' = heap s
    \<and> vec_list s' = vec_list (add_refcount i 1 s) \<and> vector_info s' = (vector_info s)(current s \<mapsto> a)
    \<and> v1_listHead s' = v1_listHead s \<and> current s' = current s \<and> chrdev s' = chrdev s
    \<and> user_out s' = user_out s \<and> dyn_i s' = dyn_i s \<and> list_heads s' = list_heads s \<and> (\<forall>m. pin_excess m s' = pin_excess m s)"
proof -
  have free: "\<not> mutexlock s" and inv: "reg_inv s" using ready by (simp_all add: ioctl_ready_def)
  obtain buf n where start: "custom_ioctl km u IOCTL_SET p s =
      bindE (ioctl_switch km u IOCTL_SET p (s\<lparr>mutexlock := True, tick := n, heap := (heap s)(buf \<mapsto> Raw BUF_LEN)\<rparr>))
        (\<lambda>(c, s). ioctl_end buf c s)"
    and buf: "buf \<noteq> 0" "heap s buf = None" "card (dom ((heap s)(buf \<mapsto> Raw BUF_LEN))) < b"
    by (rule ioctl_start [OF km free room])
  let ?s = "s\<lparr>mutexlock := True, tick := n, heap := (heap s)(buf \<mapsto> Raw BUF_LEN)\<rparr>"
  have invs: "reg_inv ?s" by (rule reg_inv_heap [OF inv]) (use buf in auto)
  have "card (dom (heap ?s)) \<le> b" using buf(3) by simp
  from kmalloc_roomy [OF km this, of "Raw (Suc (length q))"] obtain vn where
    vn: "kmalloc km (Raw (Suc (length q))) ?s = (vn, ?s\<lparr>tick := Suc (tick ?s),
        heap := (heap ?s)(vn \<mapsto> Raw (Suc (length q)))\<rparr>)" "vn \<noteq> 0" "heap ?s vn = None" by metis
  let ?s2 = "take_ref i (try_module_get Mod_ioctl_module (?s\<lparr>tick := Suc (tick ?s),
        heap := (heap ?s)(vn \<mapsto> Raw (Suc (length q)))\<rparr>))"
  have inv2: "reg_inv ?s2"
    by (rule reg_inv_ref) (simp only: reg_inv_module, rule dyn_kept_alloc [OF invs vn(3)])
  have "texts_fit ?s2" by (rule texts_fit_refs) (use fit in \<open>simp add: texts_fit_def\<close>)
  moreover have "plain_names ?s2" by (rule plain_names_refs) (use plain in \<open>simp add: plain_names_def\<close>)
  ultimately obtain err k where red: "if_assigned_reduce km ?s2 = Inr (err, ?s2\<lparr>tick := k\<rparr>)"
    using if_assigned_reduce_plain [OF km(1) inv2] by blast
  let ?c = "(leave Goto_free_vector_name 0)\<lparr>c_vector_name := vn\<rparr>"
  let ?s3 = "module_put Mod_ioctl_module (set_current_vector a (?s2\<lparr>tick := k\<rparr>))"
  have idx: "name_index q (try_module_get Mod_ioctl_module (?s\<lparr>tick := Suc (tick ?s),
        heap := (heap ?s)(vn \<mapsto> Raw (Suc (length q)))\<rparr>)) = Some i"
    using i(1) by (simp add: name_index_def)
  have "ioctl_switch km u IOCTL_SET p ?s = ioctl_set km u p ?s" by (simp add: ioctl_switch_def)
  also have "\<dots> = Inr (?c, ?s3)"
    unfolding ioctl_set_eq [OF km(1) reg_inv_ok [OF invs] q(1)] vn(1) Let_def case_prod_conv idx option.case
    using vn(2) q(2) i(2,3) red by simp
  finally have sw: "ioctl_switch km u IOCTL_SET p ?s = Inr (?c, ?s3)" .
  have fresh: "heap s vn = None" "buf \<noteq> vn" using vn(3) by (auto split: if_splits)
  have "ioctl_end buf ?c ?s3 = Inr (0, ?s3\<lparr>heap := heap s, mutexlock := False\<rparr>)"
    by (rule ioctl_end_frees [OF buf(2) fresh buf(1) vn(2) refl]) simp
  with start sw have run: "custom_ioctl km u IOCTL_SET p s = Inr (0, ?s3\<lparr>heap := heap s, mutexlock := False\<rparr>)"
    by simp
  have vl: "vec_list (add_refcount i 1 (try_module_get Mod_ioctl_module (s\<lparr>mutexlock := l, tick := k,
      heap := h\<rparr>))) = vec_list (add_refcount i 1 s)" for k l h
    by (simp add: add_refcount_def)
  show ?thesis unfolding run
  proof (intro exI [of _ "?s3\<lparr>heap := heap s, mutexlock := False\<rparr>"] conjI refl)
    have "reg_inv (?s3\<lparr>heap := heap s, mutexlock := False\<rparr>)"
      by (rule reg_inv_heap [OF reg_inv_ref(1) [OF inv, of i]]) (simp_all add: vl)
    then show "ioctl_ready (?s3\<lparr>heap := heap s, mutexlock := False\<rparr>)"
      using ready by (simp add: ioctl_ready_def)
  qed (use index_bounds(1) [OF i(1)] in \<open>simp_all add: pin_excess_def vector_refs_add_refcount vl\<close>)
qed

lemma ioctl_remove_found:
  assumes km: "allocator_ok km" "roomy b km" and ready: "ioctl_ready s"
    and room: "card (dom (heap s)) + 2 \<le> b"
    and q: "user_name u p q" "not_copied u p (length q) = 0"
    and i: "name_index q s = Some i" and r: "refcount (vec_list s ! i) - 1 = r"
  shows "\<exists>s'. custom_ioctl km u IOCTL_REMOVE p s = Inr (if sint r < 0 then - EINVAL else scast r, s')
    \<and> ioctl_ready s' \<and> heap s' = heap s \<and> vec_list s' = vec_list (add_refcount i (- 1) s)
    \<and> vector_info s' = (if sint r < 0 then vector_info s else (vector_info s)(current s \<mapsto> 0))
    \<and> v1_listHead s' = v1_listHead s \<and> current s' = current s \<and> chrdev s' = chrdev s
    \<and> user_out s' = user_out s \<and> dyn_i s' = dyn_i s \<and> list_heads s' = list_heads s \<and> (\<forall>m. pin_excess m s' = pin_excess m s)"
proof -
  have free: "\<not> mutexlock s" and inv: "reg_inv s" using ready by (simp_all add: ioctl_ready_def)
  obtain buf n where start: "custom_ioctl km u IOCTL_REMOVE p s =
      bindE (ioctl_switch km u IOCTL_REMOVE p (s\<lparr>mutexlock := True, tick := n, heap := (heap s)(buf \<mapsto> Raw BUF_LEN)\<rparr>))
        (\<lambda>(c, s). ioctl_end buf c s)"
    and buf: "buf \<noteq> 0" "heap s buf = None" "card (dom ((heap s)(buf \<mapsto> Raw BUF_LEN))) < b"
    by (rule ioctl_start [OF km free room])
  let ?s = "s\<lparr>mutexlock := True, tick := n, heap := (heap s)(buf \<mapsto> Raw BUF_LEN)\<rparr>"
  have invs: "reg_inv ?s" by (rule reg_inv_heap [OF inv]) (use buf in auto)
  have "card (dom (heap ?s)) \<le> b" using buf(3) by simp
  from kmalloc_roomy [OF km this, of "Raw (Suc (length q))"] obtain vn where
    vn: "kmalloc km (Raw (Suc (length q))) ?s = (vn, ?s\<lparr>tick := Suc (tick ?s),
        heap := (heap ?s)(vn \<mapsto> Raw (Suc (length q)))\<rparr>)" "vn \<noteq> 0" "heap ?s vn = None" by metis
  let ?s1 = "try_module_get Mod_ioctl_module (?s\<lparr>tick := Suc (tick ?s),
        heap := (heap ?s)(vn \<mapsto> Raw (Suc (length q)))\<rparr>)"
  let ?e = "if sint r < 0 then - EINVAL else scast r :: ulong"
  let ?c = "(leave Goto_free_vector_name ?e)\<lparr>c_vector_name := vn\<rparr>"
  let ?d = "drop_ref i ?s1"
  let ?s3 = "module_put Mod_ioctl_module (if sint r < 0 then ?d else set_current_vector 0 ?d)"
  have idx: "name_index q ?s1 = Some i" using i by (simp add: name_index_def)
  have "ioctl_switch km u IOCTL_REMOVE p ?s = ioctl_remove km u p ?s"
    by (simp add: ioctl_switch_def ioctl_numbers)
  also have "\<dots> = Inr (?c, ?s3)"
    unfolding ioctl_remove_eq [OF km(1) reg_inv_ok [OF invs] q(1)] vn(1) Let_def case_prod_conv idx option.case
    using vn(2) q(2) r by simp
  finally have sw: "ioctl_switch km u IOCTL_REMOVE p ?s = Inr (?c, ?s3)" .
  have fresh: "heap s vn = None" "buf \<noteq> vn" using vn(3) by (auto split: if_splits)
  have "ioctl_end buf ?c ?s3 = Inr (?e, ?s3\<lparr>heap := heap s, mutexlock := False\<rparr>)"
    by (rule ioctl_end_frees [OF buf(2) fresh buf(1) vn(2) refl]) simp
  with start sw have run: "custom_ioctl km u IOCTL_REMOVE p s = Inr (?e, ?s3\<lparr>heap := heap s, mutexlock := False\<rparr>)"
    by (simp only: bindE_Inr case_prod_conv)
  have vl: "vec_list (add_refcount i (- 1) (try_module_get Mod_ioctl_module (s\<lparr>mutexlock := l, tick := k,
      heap := h\<rparr>))) = vec_list (add_refcount i (- 1) s)" for k l h
    by (simp add: add_refcount_def)
  show ?thesis unfolding run
  proof (intro exI [of _ "?s3\<lparr>heap := heap s, mutexlock := False\<rparr>"] conjI refl)
    have "reg_inv (?s3\<lparr>heap := heap s, mutexlock := False\<rparr>)"
      by (rule reg_inv_heap [OF reg_inv_ref(2) [OF inv, of i]]) (simp_all add: vl)
    then show "ioctl_ready (?s3\<lparr>heap := heap s, mutexlock := False\<rparr>)"
      using ready by (simp add: ioctl_ready_def)
  qed (use index_bounds(1) [OF i] in \<open>simp_all add: pin_excess_def vector_refs_add_refcount vl\<close>)
qed

text \<open>The commands that print end by copying the whole buffer out and freeing it.\<close>

lemma reply_ends:
  assumes "heap s buf = None" and "buf \<noteq> 0" and "not_copied u dst (length b) = 0" and "\<not> mutexlock s"
  shows "(case ioctl_reply u dst b (leave Goto_free_vector_name 0) (try_module_get Mod_ioctl_module
        (s\<lparr>mutexlock := True, tick := n, heap := (heap s)(buf \<mapsto> x)\<rparr>)) of (c, s) \<Rightarrow> ioctl_end buf c s) =
    Inr (0, s\<lparr>tick := n, user_out := (user_out s)(dst \<mapsto> b),
      mod_log := Module_put Mod_ioctl_module # Module_get Mod_ioctl_module # mod_log s\<rparr>)"
  using assms upd_None_idem [of "heap s" buf x]
  by (simp add: ioctl_reply_def copy_to_user_def ioctl_end_def leave_def kfree_live
      try_module_get_def module_put_def Let_def)

text \<open>The text of \<open>IOCTL_SHOW_ALL\<close>, and the buffer it fills.\<close>

definition all_text :: "'a registry_scheme \<Rightarrow> string" where
  "all_text s = (if vec_list s = [] then ''no vectors present'' else registry_text (vec_list s))"

definition padded :: "string \<Rightarrow> char list" where
  "padded t = t @ replicate (BUF_LEN - length t) NUL"

lemma registry_text_empty: "registry_text vs = [] \<longleftrightarrow> vs = []"
  by (cases vs) (simp_all add: registry_text_def vector_text_def)

lemma all_text_fits: "texts_fit s \<Longrightarrow> length (all_text s) < BUF_LEN"
  by (simp add: all_text_def texts_fit_def BUF_LEN_def)

lemma padded_length: "length t < BUF_LEN \<Longrightarrow> length (padded t) = BUF_LEN"
  by (simp add: padded_def)

lemma padded_string: "length t < BUF_LEN \<Longrightarrow> NUL \<notin> set t \<Longrightarrow> c_string (padded t) = t"
  by (simp add: padded_def c_string_append_terminated)

lemma ioctl_show_all_eq:
  assumes "texts_fit s"
  shows "ioctl_show_all u p s = Inr (ioctl_reply u p (padded (all_text s)) (leave Goto_free_vector_name 0)
    (try_module_get Mod_ioctl_module s))"
proof -
  let ?t = "registry_text (vec_list s)"
  have "BUF_LEN \<le> MAX_BUFFER_SIZE" by (simp add: BUF_LEN_def MAX_BUFFER_SIZE_def)
  then have "show_all_vectors (kzalloc_chars BUF_LEN) (try_module_get Mod_ioctl_module s) =
      Inr (length ?t, padded ?t)"
    using assms by (simp add: texts_fit_def show_all_vectors_spec Let_def kzalloc_chars_def padded_def)
  moreover have "(if length ?t = 0 then write_at 0 ''no vectors present'' (padded ?t) else Inr (padded ?t)) =
      Inr (padded (all_text s))"
    by (cases "vec_list s = []")
      (simp_all add: registry_text_empty registry_text_empty [THEN iffD2, OF refl] all_text_def padded_def write_at_append_0 BUF_LEN_def)
  ultimately show ?thesis by (simp add: ioctl_show_all_def Let_def)
qed

lemma ioctl_show_mine_eq:
  assumes "texts_fit s"
  shows "ioctl_show_mine u p s = Inr (ioctl_reply u p (padded (my_text (current_vector s) s))
    (leave Goto_free_vector_name 0) (try_module_get Mod_ioctl_module s))"
proof -
  let ?s = "try_module_get Mod_ioctl_module s"
  have "texts_fit ?s" using assms by (simp add: texts_fit_def)
  moreover have "my_text a ?s = my_text a s" "current_vector ?s = current_vector s" for a
    by (simp_all add: my_text_def addr_index_def current_vector_def cong: option.case_cong)
  ultimately show ?thesis
    using show_into_spec [of ?s "current_vector ?s"]
    by (auto simp: ioctl_show_mine_def Let_def padded_def)
qed

text \<open>\<open>IOCTL_VECTOR_FOR_PID\<close>, with a second block to free, and its fault for a process that does not exist.\<close>

lemma reply_ends_pid:
  assumes "heap s buf = None" and "heap s q = None" and "buf \<noteq> q" and "buf \<noteq> 0" and "q \<noteq> 0"
    and "not_copied u dst (length b) = 0" and "\<not> mutexlock s"
  shows "(case ioctl_reply u dst b ((leave Goto_free_vector_name 0)\<lparr>c_pid_buf := q\<rparr>) (try_module_get Mod_ioctl_module
        (s\<lparr>mutexlock := True, tick := n, heap := (heap s)(buf \<mapsto> x, q \<mapsto> y)\<rparr>)) of (c, s) \<Rightarrow> ioctl_end buf c s) =
    Inr (0, s\<lparr>tick := n, user_out := (user_out s)(dst \<mapsto> b),
      mod_log := Module_put Mod_ioctl_module # Module_get Mod_ioctl_module # mod_log s\<rparr>)"
proof -
  have "(heap s)(buf \<mapsto> x, q \<mapsto> y, buf := None, q := None) = heap s"
    using assms(1-3) by (auto simp: fun_eq_iff)
  with assms(3-) show ?thesis
    by (simp add: ioctl_reply_def copy_to_user_def ioctl_end_def leave_def kfree_live
        try_module_get_def module_put_def Let_def)
qed

lemma ioctl_vector_for_pid_eq:
  assumes "texts_fit s" and "kmalloc km (Raw 16) (try_module_get Mod_ioctl_module s) = (q, try_module_get Mod_ioctl_module s1)"
    and "q \<noteq> 0" and "not_copied u p 16 = 0" and "u_pid_n_buf u p = (pid, dst)"
    and "vec_list s1 = vec_list s" and "vector_info s1 = vector_info s"
  shows "ioctl_vector_for_pid km u p s = (case vector_info s pid of
      None \<Rightarrow> Inl Null_deref
    | Some a \<Rightarrow> Inr (ioctl_reply u dst (padded (my_text a s)) ((leave Goto_free_vector_name 0)\<lparr>c_pid_buf := q\<rparr>)
        (try_module_get Mod_ioctl_module s1)))"
proof -
  let ?s = "try_module_get Mod_ioctl_module s1"
  have s1: "texts_fit ?s" "my_text a ?s = my_text a s" for a
    using assms(1,6) by (simp_all add: texts_fit_def my_text_def addr_index_def cong: option.case_cong)
  show ?thesis
  proof (cases "vector_info s pid")
    case None
    with assms show ?thesis by (simp add: ioctl_vector_for_pid_def Let_def)
  next
    case (Some a)
    with assms show_into_spec [OF s1(1), of a] s1(2) show ?thesis
      by (auto simp: ioctl_vector_for_pid_def Let_def padded_def)
  qed
qed

end
