(* ===== verification/Clone2.thy ===== *)
theory Clone2
  imports Ioctl
begin

text \<open>
  The system call \<open>sys_clone2\<close> of \<open>sys_clone2.c\<close> and the lines of \<open>copy_process\<close> in
  \<open>fork.cpy\<close> that give the child its vector. The kernel's \<open>_do_fork\<close> with its extra argument is
  not in the sources: it is a parameter.
\<close>

section \<open>Definitions\<close>

record clone_state = ioctl_state +
  sysptr :: bool        \<comment> \<open>\<open>sysptr\<close> points to \<open>sys_clone2\<close>\<close>

definition CLONE_SYSCALLS :: ulong where "CLONE_SYSCALLS = 0x00001000"

text \<open>
  \<open>_do_fork(clone_flags, stack_start, stack_size, parent_tidptr, child_tidptr, tls,
  vector_address)\<close>
\<close>

type_synonym 's do_fork =
  "ulong \<Rightarrow> addr \<Rightarrow> ulong \<Rightarrow> addr \<Rightarrow> addr \<Rightarrow> ulong \<Rightarrow> addr \<Rightarrow> 's \<Rightarrow> (ulong \<times> 's) cres"

definition sys_clone2 ::
  "('a clone_state_scheme) do_fork \<Rightarrow> ulong \<Rightarrow> addr \<Rightarrow> addr \<Rightarrow> ulong \<Rightarrow> addr \<Rightarrow> ulong
   \<Rightarrow> 'a clone_state_scheme \<Rightarrow> (ulong \<times> 'a clone_state_scheme) cres" where
  "sys_clone2 do_fork flags child_stack ptid newtls ctid vid s =
     (if flags AND CLONE_SYSCALLS \<noteq> 0 then
        bindE (increment_ref_count_from_address (current_vector s) s) (\<lambda>(ret, s).
        if sint ret < 0 then Inr (- 1, s)
        else do_fork flags child_stack 0 ptid ctid 0 0 s)
      else
        bindE (get_vector_address_from_id (ucast vid) s) (\<lambda>(addr, s).
        let addr = (if addr = 0 then - 1 else addr) in
        do_fork flags child_stack 0 ptid ctid 0 addr s))"

definition init_sys_clone2 :: "'a clone_state_scheme \<Rightarrow> cint \<times> 'a clone_state_scheme" where
  "init_sys_clone2 s = (0, if \<not> sysptr s then s\<lparr>sysptr := True\<rparr> else s)"

definition exit_sys_clone2 :: "'a clone_state_scheme \<Rightarrow> 'a clone_state_scheme" where
  "exit_sys_clone2 s = (if sysptr s then s\<lparr>sysptr := False\<rparr> else s)"

text \<open>\<open>copy_process\<close>: the vector of the new process \<open>child\<close>. The result of the call is not looked at.\<close>

definition copy_vector_info ::
  "ulong \<Rightarrow> pid \<Rightarrow> 'a tasks_scheme \<Rightarrow> ('a tasks_scheme) cres" where
  "copy_vector_info clone_flags child s =
     (if clone_flags AND CLONE_SYSCALLS \<noteq> 0 then
        bindE (increment_ref_count_from_address (current_vector s) s) (\<lambda>(_, s).
        Inr (s\<lparr>vector_info := (vector_info s)(child \<mapsto> current_vector s)\<rparr>))
      else Inr (s\<lparr>vector_info := (vector_info s)(child \<mapsto> 0)\<rparr>))"

text \<open>A \<open>_do_fork\<close> that makes the process \<open>child\<close> with those lines and returns its id.\<close>

definition fork_child :: "pid \<Rightarrow> ('a clone_state_scheme) do_fork" where
  "fork_child child flags stack sz ptid ctid tls vector_address s =
     bindE (copy_vector_info flags child s) (\<lambda>s. Inr (scast child, s))"

section \<open>Lemmas\<close>

lemma clone_frame [simp]:
  "current_vector (take_ref i s) = current_vector s"
  by (simp add: current_vector_def)

lemma addr_index_take_ref [simp]: "addr_index a (take_ref i s) = addr_index a s"
proof -
  have "addr_index a (take_ref i s) = addr_index a (add_refcount i 1 s)" by (simp add: addr_index_def)
  then show ?thesis by simp
qed

lemma sys_clone2_inherit:
  assumes "reg_ok s" and "flags AND CLONE_SYSCALLS \<noteq> 0"
  shows "sys_clone2 do_fork flags stack ptid tls ctid vid s =
    (case addr_index (current_vector s) s of
       None \<Rightarrow> Inr (- 1, s)
     | Some i \<Rightarrow> do_fork flags stack 0 ptid ctid 0 0 (take_ref i s))"
  using assms
  by (simp add: sys_clone2_def increment_ref_count_from_address_spec split: option.splits)

lemma sys_clone2_by_id:
  assumes "reg_ok s" and "flags AND CLONE_SYSCALLS = 0"
  shows "sys_clone2 do_fork flags stack ptid tls ctid vid s =
    (case bitmap_index (ucast vid) s of
       None \<Rightarrow> do_fork flags stack 0 ptid ctid 0 (- 1) s
     | Some i \<Rightarrow>
         let a = overriddenSyscalls_address (vec_list s ! i) in
         do_fork flags stack 0 ptid ctid 0 (if a = 0 then - 1 else a) (take_ref i s))"
  using assms
  by (simp add: sys_clone2_def get_vector_address_from_id_spec Let_def split: option.splits)

lemma copy_vector_info_spec:
  assumes "reg_ok s"
  shows "copy_vector_info flags child s =
    (if flags AND CLONE_SYSCALLS = 0 then Inr (s\<lparr>vector_info := (vector_info s)(child \<mapsto> 0)\<rparr>)
     else let s' = (case addr_index (current_vector s) s of None \<Rightarrow> s | Some i \<Rightarrow> take_ref i s)
       in Inr (s'\<lparr>vector_info := (vector_info s)(child \<mapsto> current_vector s)\<rparr>))"
  using assms
  by (simp add: copy_vector_info_def increment_ref_count_from_address_spec Let_def split: option.splits)

end
