(* ===== verification/Overridden_Syscalls.thy ===== *)
theory Overridden_Syscalls
  imports Clone2
begin

text \<open>
  The flavours of the system calls, \<open>overridden_syscalls.c\<close>: each looks up the caller's name,
  decides, and passes the call on to the original of the system call table. The table, the
  \<open>/proc\<close> file system, the open files and the contents of fresh memory are the kernel's: they are
  the parameters in \<open>kernel_env\<close>.
\<close>

section \<open>State and environment\<close>

text \<open>
  A call of an original system call; a write carries the bytes that are at the caller's address
  when it is made, \<open>None\<close> for memory that is not mapped.
\<close>

datatype sys_call =
    Read_call cint addr ulong
  | Write_call cint addr "char list option"
  | Open_call addr cint uint
  | Close_call cint
  | Link_call addr addr
  | Unlink_call addr
  | Mkdir_call addr uint
  | Rmdir_call addr

datatype open_result =
    Opened "char list"     \<comment> \<open>the bytes that \<open>read\<close> finds\<close>
  | Open_error             \<comment> \<open>an error pointer\<close>
  | Open_null

text \<open>
  \<open>k_orig table log call\<close> is what the original returns after the calls in \<open>log\<close>;
  \<open>k_file fd\<close> the path of an open file, \<open>None\<close> for no such file, \<open>Some None\<close> when \<open>d_path\<close> fails.
\<close>

record kernel_env =
  k_orig :: "addr \<Rightarrow> sys_call list \<Rightarrow> sys_call \<Rightarrow> ulong"
  k_open :: "string \<Rightarrow> open_result"
  k_fresh :: "nat \<Rightarrow> char list"
  k_file :: "cint \<Rightarrow> string option option"
  k_uid :: cint

record syscall_state = clone_state +
  static_table :: addr                  \<comment> \<open>\<open>static ... syscallTablePtr\<close>\<close>
  orig_log :: "sys_call list"           \<comment> \<open>calls of originals, latest first\<close>
  user_data :: "addr \<rightharpoonup> char list"      \<comment> \<open>the caller's memory from an address on\<close>
  file_refs :: "cint \<Rightarrow> nat"            \<comment> \<open>references \<open>fget\<close> took on open files\<close>

definition PAGE_SIZE :: nat where "PAGE_SIZE = 4096"

definition user_array :: "addr \<Rightarrow> 'a syscall_state_scheme \<Rightarrow> char list cres" where
  "user_array p s = (case user_data s p of None \<Rightarrow> Inl Bad_pointer | Some a \<Rightarrow> Inr a)"

definition user_bytes :: "addr \<Rightarrow> nat \<Rightarrow> 'a syscall_state_scheme \<Rightarrow> char list option" where
  "user_bytes p n s = map_option (take n) (user_data s p)"

text \<open>\<open>strstr\<close> on two arrays that have to be terminated; \<open>printk("%s")\<close> reads up to the NUL.\<close>

definition contains :: "char list \<Rightarrow> string \<Rightarrow> bool cres" where
  "contains a t = bindE (strlen a) (\<lambda>_. Inr (strstr (c_string a) t))"

definition printk_s :: "char list \<Rightarrow> unit cres" where
  "printk_s a = bindE (strlen a) (\<lambda>_. Inr ())"

section \<open>Helpers of the module\<close>

definition initSyscallTablePtr :: "'a syscall_state_scheme \<Rightarrow> (cint \<times> 'a syscall_state_scheme) cres" where
  "initSyscallTablePtr s =
     (if current_vector s \<noteq> 0 then
        let vec_head = current_vector s in
        if vec_head = 0 then Inr (- EFAULT, s)
        else bindE (node_at (heap s) vec_head) (\<lambda>n.
             Inr (0, s\<lparr>static_table := syscallTablePtr n\<rparr>))
      else Inr (0, s))"

text \<open>
  The buffer is not cleared: after the path and the bytes read from the file it keeps what was
  there. The result is the buffer's address and contents, NULL and nothing without memory.
\<close>

definition getProcessName ::
  "kernel_env \<Rightarrow> allocator \<Rightarrow> 'a syscall_state_scheme \<Rightarrow> (addr \<times> char list \<times> 'a syscall_state_scheme) cres" where
  "getProcessName env km s =
     (let (name, s) = kmalloc km (Raw 4096) s in
      if name = 0 then Inr (0, [], s)
      else
        let path = ''/proc/'' @ sprintf_d (current s) @ ''/cmdline'' in
        bindE (write_at 0 (path @ [NUL]) (k_fresh env 4096)) (\<lambda>buf.
        case k_open env path of
          Open_null \<Rightarrow> Inl Null_deref
        | Open_error \<Rightarrow> Inl Bad_pointer
        | Opened contents \<Rightarrow>
            bindE (write_at 0 (take 4096 contents) buf) (\<lambda>buf. Inr (name, buf, s))))"

text \<open>\<open>original = *(syscallTablePtr + nr); ret = original(...)\<close>, with \<open>ret\<close> an \<open>int\<close>.\<close>

definition call_original ::
  "kernel_env \<Rightarrow> sys_call \<Rightarrow> 'a syscall_state_scheme \<Rightarrow> (cint \<times> 'a syscall_state_scheme) cres" where
  "call_original env c s =
     (if static_table s = 0 then Inl Null_deref
      else Inr (ucast (k_orig env (static_table s) (orig_log s) c), s\<lparr>orig_log := c # orig_log s\<rparr>))"

text \<open>From \<open>if (syscallTablePtr == NULL)\<close> to the end, the same in every function but \<open>loggedWrite\<close>.\<close>

definition pass_on ::
  "kernel_env \<Rightarrow> addr \<Rightarrow> sys_call \<Rightarrow> 'a syscall_state_scheme \<Rightarrow> (cint \<times> 'a syscall_state_scheme) cres" where
  "pass_on env processName c s =
     bindE (if static_table s = 0 then initSyscallTablePtr s else Inr (0, s)) (\<lambda>(ret, s).
     bindE (if ret \<noteq> 0 then Inr (ret, s) else call_original env c s) (\<lambda>(ret, s).
     bindE (kfree processName s) (\<lambda>s. Inr (ret, s))))"

section \<open>The flavours that only report\<close>

definition overriddenRead ::
  "kernel_env \<Rightarrow> allocator \<Rightarrow> cint \<Rightarrow> addr \<Rightarrow> ulong \<Rightarrow> 'a syscall_state_scheme \<Rightarrow> (ulong \<times> 'a syscall_state_scheme) cres" where
  "overriddenRead env km fd buf count s =
     bindE (getProcessName env km s) (\<lambda>(processName, name, s).
     if processName = 0 then Inr (8787, s)
     else
       bindE (printk_s name) (\<lambda>_.
       bindE (pass_on env processName (Read_call fd buf count) s) (\<lambda>(ret, s).
       Inr (scast ret, s))))"

definition overriddenWrite ::
  "kernel_env \<Rightarrow> allocator \<Rightarrow> cint \<Rightarrow> addr \<Rightarrow> ulong \<Rightarrow> 'a syscall_state_scheme \<Rightarrow> (cint \<times> 'a syscall_state_scheme) cres" where
  "overriddenWrite env km fd buf count s =
     bindE (getProcessName env km s) (\<lambda>(processName, name, s).
     if processName = 0 then Inr (8787, s)
     else
       bindE (printk_s name) (\<lambda>_.
       pass_on env processName (Write_call fd buf (user_bytes buf (unat count) s)) s))"

definition overriddenOpen ::
  "kernel_env \<Rightarrow> allocator \<Rightarrow> addr \<Rightarrow> cint \<Rightarrow> uint \<Rightarrow> 'a syscall_state_scheme \<Rightarrow> (cint \<times> 'a syscall_state_scheme) cres" where
  "overriddenOpen env km pathname flags mode s =
     bindE (getProcessName env km s) (\<lambda>(processName, name, s).
     if processName = 0 then Inr (8787, s)
     else bindE (printk_s name) (\<lambda>_. pass_on env processName (Open_call pathname flags mode) s))"

definition overriddenClose ::
  "kernel_env \<Rightarrow> allocator \<Rightarrow> cint \<Rightarrow> 'a syscall_state_scheme \<Rightarrow> (cint \<times> 'a syscall_state_scheme) cres" where
  "overriddenClose env km fd s =
     bindE (getProcessName env km s) (\<lambda>(processName, name, s).
     if processName = 0 then Inr (8787, s)
     else bindE (printk_s name) (\<lambda>_. pass_on env processName (Close_call fd) s))"

definition overriddenLink ::
  "kernel_env \<Rightarrow> allocator \<Rightarrow> addr \<Rightarrow> addr \<Rightarrow> 'a syscall_state_scheme \<Rightarrow> (cint \<times> 'a syscall_state_scheme) cres" where
  "overriddenLink env km oldname newname s =
     bindE (getProcessName env km s) (\<lambda>(processName, name, s).
     if processName = 0 then Inr (8787, s)
     else bindE (printk_s name) (\<lambda>_. pass_on env processName (Link_call oldname newname) s))"

definition overriddenMkdir ::
  "kernel_env \<Rightarrow> allocator \<Rightarrow> addr \<Rightarrow> uint \<Rightarrow> 'a syscall_state_scheme \<Rightarrow> (cint \<times> 'a syscall_state_scheme) cres" where
  "overriddenMkdir env km pathname mode s =
     bindE (getProcessName env km s) (\<lambda>(processName, name, s).
     if processName = 0 then Inr (8787, s)
     else bindE (printk_s name) (\<lambda>_. pass_on env processName (Mkdir_call pathname mode) s))"

definition overriddenRmdir ::
  "kernel_env \<Rightarrow> allocator \<Rightarrow> addr \<Rightarrow> 'a syscall_state_scheme \<Rightarrow> (cint \<times> 'a syscall_state_scheme) cres" where
  "overriddenRmdir env km pathname s =
     bindE (getProcessName env km s) (\<lambda>(processName, name, s).
     if processName = 0 then Inr (8787, s)
     else bindE (printk_s name) (\<lambda>_. pass_on env processName (Rmdir_call pathname) s))"

section \<open>The flavours that refuse\<close>

definition overriddenUnlink ::
  "kernel_env \<Rightarrow> allocator \<Rightarrow> addr \<Rightarrow> 'a syscall_state_scheme \<Rightarrow> (cint \<times> 'a syscall_state_scheme) cres" where
  "overriddenUnlink env km pathname s =
     bindE (getProcessName env km s) (\<lambda>(processName, name, s).
     if processName = 0 then Inr (8787, s)
     else
       bindE (printk_s name) (\<lambda>_.
       bindE (user_array pathname s) (\<lambda>path.
       bindE (contains path ''.protected'') (\<lambda>protected.
       if protected then bindE (kfree processName s) (\<lambda>s. Inr (8787, s))
       else pass_on env processName (Unlink_call pathname) s))))"

definition blockedOpen ::
  "kernel_env \<Rightarrow> allocator \<Rightarrow> addr \<Rightarrow> cint \<Rightarrow> uint \<Rightarrow> 'a syscall_state_scheme \<Rightarrow> (cint \<times> 'a syscall_state_scheme) cres" where
  "blockedOpen env km pathname flags mode s =
     bindE (getProcessName env km s) (\<lambda>(processName, name, s).
     if processName = 0 then Inr (8787, s)
     else
       bindE (printk_s name) (\<lambda>_.
       bindE (contains name ''httpd'') (\<lambda>httpd.
       bindE (if httpd then
                bindE (user_array pathname s) (\<lambda>path.
                bindE (contains path ''/etc/passwd'') (\<lambda>passwd.
                if passwd then Inr True else contains path ''/etc/shadow''))
              else Inr False) (\<lambda>blocked.
       if blocked then bindE (kfree processName s) (\<lambda>s. Inr (- 1, s))
       else pass_on env processName (Open_call pathname flags mode) s))))"

section \<open>The flavour that logs\<close>

text \<open>\<open>copy_from_user(kbuf, buf, count)\<close>: \<open>None\<close> when the user's region is too short.\<close>

definition copy_in :: "addr \<Rightarrow> nat \<Rightarrow> char list \<Rightarrow> 'a syscall_state_scheme \<Rightarrow> char list option cres" where
  "copy_in p n kbuf s =
     (case user_data s p of
        None \<Rightarrow> Inr None
      | Some a \<Rightarrow>
          if n \<le> length a then bindE (write_at 0 (take n a) kbuf) (\<lambda>k. Inr (Some k)) else Inr None)"

text \<open>\<open>copy_to_user(buf, src, n)\<close> for the \<open>n\<close> bytes \<open>src\<close>; \<open>False\<close> when they do not fit.\<close>

definition copy_out :: "addr \<Rightarrow> char list \<Rightarrow> 'a syscall_state_scheme \<Rightarrow> bool \<times> 'a syscall_state_scheme" where
  "copy_out p src s =
     (case user_data s p of
        None \<Rightarrow> (False, s)
      | Some a \<Rightarrow>
          if length src \<le> length a
          then (True, s\<lparr>user_data := (user_data s)(p \<mapsto> src @ drop (length src) a)\<rparr>)
          else (False, s\<lparr>user_data := (user_data s)(p \<mapsto> take (length a) src)\<rparr>))"

definition log_header :: "kernel_env \<Rightarrow> string" where
  "log_header env =
     NL # ''/*below code was added by the user: '' @ sprintf_d (k_uid env) @ ''*/'' @ [NL]"

text \<open>The frees at the label \<open>out\<close>; \<open>fput\<close> is not called.\<close>

definition logged_out ::
  "addr \<Rightarrow> addr \<Rightarrow> addr \<Rightarrow> cint \<Rightarrow> 'a syscall_state_scheme \<Rightarrow> (ulong \<times> 'a syscall_state_scheme) cres" where
  "logged_out str kbuf processName ret s =
     bindE (kfree str s) (\<lambda>s. bindE (kfree kbuf s) (\<lambda>s. bindE (kfree processName s) (\<lambda>s. Inr (scast ret, s))))"

definition original_write ::
  "kernel_env \<Rightarrow> cint \<Rightarrow> addr \<Rightarrow> nat \<Rightarrow> 'a syscall_state_scheme \<Rightarrow> (cint \<times> 'a syscall_state_scheme) cres" where
  "original_write env fd buf n s = call_original env (Write_call fd buf (user_bytes buf n s)) s"

definition write_twice ::
  "kernel_env \<Rightarrow> allocator \<Rightarrow> cint \<Rightarrow> addr \<Rightarrow> nat \<Rightarrow> char list \<Rightarrow> addr \<Rightarrow> addr
   \<Rightarrow> 'a syscall_state_scheme \<Rightarrow> (ulong \<times> 'a syscall_state_scheme) cres" where
  "write_twice env km fd buf count kdata kbuf processName s =
     (let (str, s) = kmalloc km (Raw PAGE_SIZE) s in
      if str = 0 then Inl Null_deref
      else
        let (ok, s) = copy_out buf (log_header env) s in
        if \<not> ok then logged_out str kbuf processName (- 1) s
        else
          bindE (original_write env fd buf (length (log_header env)) s) (\<lambda>(ret, s).
          let (ok, s) = copy_out buf (take count kdata) s in
          if \<not> ok then logged_out str kbuf processName (- 1) s
          else
            bindE (original_write env fd buf count s) (\<lambda>(ret, s).
            logged_out str kbuf processName ret s)))"

definition log_to_file ::
  "kernel_env \<Rightarrow> allocator \<Rightarrow> cint \<Rightarrow> addr \<Rightarrow> nat \<Rightarrow> string option \<Rightarrow> addr
   \<Rightarrow> 'a syscall_state_scheme \<Rightarrow> (ulong \<times> 'a syscall_state_scheme) cres" where
  "log_to_file env km fd buf count d_path processName s =
     (let (kbuf, s) = kmalloc km (Raw PAGE_SIZE) s in
      if kbuf = 0 then logged_out 0 0 processName (- ENOMEM) s
      else
        case d_path of
          None \<Rightarrow> Inl Bad_pointer
        | Some path \<Rightarrow>
            if strstr path ''.c'' then
              bindE (copy_in buf count (k_fresh env PAGE_SIZE) s) (\<lambda>copied.
              case copied of
                None \<Rightarrow> logged_out 0 kbuf processName (- 1) s
              | Some kdata \<Rightarrow> write_twice env km fd buf count kdata kbuf processName s)
            else
              bindE (original_write env fd buf count s) (\<lambda>(ret, s).
              logged_out 0 kbuf processName ret s))"

definition loggedWrite ::
  "kernel_env \<Rightarrow> allocator \<Rightarrow> cint \<Rightarrow> addr \<Rightarrow> ulong \<Rightarrow> 'a syscall_state_scheme \<Rightarrow> (ulong \<times> 'a syscall_state_scheme) cres" where
  "loggedWrite env km fd buf count s =
     bindE (if static_table s = 0 then initSyscallTablePtr s else Inr (8787, s)) (\<lambda>(ret, s').
     if static_table s = 0 \<and> ret \<noteq> 0 then Inr (scast ret, s')
     else if static_table s' = 0 then Inl Null_deref
     else
       bindE (getProcessName env km s') (\<lambda>(processName, name, s).
       if processName = 0 then Inr (scast ret, s)
       else
         bindE (printk_s name) (\<lambda>_.
         if sint fd < 3 then
           bindE (original_write env fd buf (unat count) s) (\<lambda>(ret, s).
           logged_out 0 0 processName ret s)
         else
           case k_file env fd of
             None \<Rightarrow> logged_out 0 0 processName ret s
           | Some d_path \<Rightarrow>
               log_to_file env km fd buf (unat count) d_path processName
                 (s\<lparr>file_refs := (file_refs s)(fd := file_refs s fd + 1)\<rparr>))))"

section \<open>Lemmas\<close>

text \<open>
  The usual caller: its \<open>cmdline\<close> file opens and holds a terminated first argument \<open>nm\<close>. The table
  of originals is \<open>t\<close>: already remembered, or in the first node of the caller's vector.
\<close>

definition proc_path :: "'a syscall_state_scheme \<Rightarrow> string" where
  "proc_path s = ''/proc/'' @ sprintf_d (current s) @ ''/cmdline''"

definition named :: "kernel_env \<Rightarrow> 'a syscall_state_scheme \<Rightarrow> string \<Rightarrow> bool" where
  "named env s nm \<longleftrightarrow> length (k_fresh env 4096) = 4096 \<and>
     (case k_open env (proc_path s) of
        Opened contents \<Rightarrow> terminated (take 4096 contents) \<and> c_string (take 4096 contents) = nm
      | _ \<Rightarrow> False)"

definition table_found :: "addr \<Rightarrow> 'a syscall_state_scheme \<Rightarrow> bool" where
  "table_found t s \<longleftrightarrow> t \<noteq> 0 \<and> (static_table s = t \<or> static_table s = 0 \<and> current_vector s \<noteq> 0 \<and>
     (case node_at (heap s) (current_vector s) of Inl e \<Rightarrow> False | Inr n \<Rightarrow> syscallTablePtr n = t))"

text \<open>The state after one call of an original, nothing else having changed.\<close>

definition called :: "addr \<Rightarrow> sys_call \<Rightarrow> 'a syscall_state_scheme \<Rightarrow> 'a syscall_state_scheme" where
  "called t c s = s\<lparr>tick := Suc (tick s), static_table := t, orig_log := c # orig_log s\<rparr>"

definition returned :: "kernel_env \<Rightarrow> addr \<Rightarrow> sys_call \<Rightarrow> 'a syscall_state_scheme \<Rightarrow> cint" where
  "returned env t c s = ucast (k_orig env t (orig_log s) c)"

lemma c_string_terminated_append: "terminated a \<Longrightarrow> c_string (a @ b) = c_string a"
  by (induction a) auto

lemma getProcessName_none:
  assumes "allocator_ok km" and "km (tick s) (heap s) = 0"
  shows "getProcessName env km s = Inr (0, [], s\<lparr>tick := Suc (tick s)\<rparr>)"
  using assms by (simp add: getProcessName_def kmalloc_ok)

lemma getProcessName_some:
  assumes "allocator_ok km" and "km (tick s) (heap s) = a" and "a \<noteq> 0" and "named env s nm"
  shows "\<exists>buf. getProcessName env km s =
      Inr (a, buf, s\<lparr>tick := Suc (tick s), heap := (heap s)(a \<mapsto> Raw 4096)\<rparr>)
    \<and> terminated buf \<and> c_string buf = nm"
proof -
  from assms(4) obtain contents where c: "k_open env (proc_path s) = Opened contents"
    "terminated (take 4096 contents)" "c_string (take 4096 contents) = nm"
    and len: "length (k_fresh env 4096) = 4096"
    by (auto simp: named_def split: open_result.splits)
  have fits: "length (proc_path s) + 1 \<le> 4096"
    using length_sprintf_d [of "current s"] by (simp add: proc_path_def)
  have w: "write_at 0 (proc_path s @ [NUL]) (k_fresh env 4096) =
      Inr ((proc_path s @ [NUL]) @ drop (length (proc_path s @ [NUL])) (k_fresh env 4096))"
    using fits len by (simp add: write_at_append_0)
  let ?b = "(proc_path s @ [NUL]) @ drop (length (proc_path s @ [NUL])) (k_fresh env 4096)"
  have "length ?b = 4096" using fits len by simp
  then have w2: "write_at 0 (take 4096 contents) ?b =
      Inr (take 4096 contents @ drop (length (take 4096 contents)) ?b)"
    unfolding write_at_append_0 by simp
  have "getProcessName env km s = Inr (a, take 4096 contents @ drop (length (take 4096 contents)) ?b,
      s\<lparr>tick := Suc (tick s), heap := (heap s)(a \<mapsto> Raw 4096)\<rparr>)"
    unfolding getProcessName_def kmalloc_ok [OF assms(1)] Let_def assms(2)
    using assms(3) w w2 c(1) by (simp add: proc_path_def)
  with c(2,3) show ?thesis by (simp add: c_string_terminated_append)
qed

lemma printk_ok: "terminated a \<Longrightarrow> printk_s a = Inr ()"
  by (simp add: printk_s_def strlen_def)

lemma contains_ok: "terminated a \<Longrightarrow> contains a t = Inr (strstr (c_string a) t)"
  by (simp add: contains_def strlen_def)

lemma table_found_iff:
  "table_found t s \<longleftrightarrow> t \<noteq> 0 \<and> (static_table s = t \<or> static_table s = 0 \<and> current_vector s \<noteq> 0
     \<and> (\<exists>n. node_at (heap s) (current_vector s) = Inr n \<and> syscallTablePtr n = t))"
  by (cases "node_at (heap s) (current_vector s)") (simp_all add: table_found_def)

lemma node_at_fresh: "h a = None \<Longrightarrow> node_at h p = Inr n \<Longrightarrow> node_at (h(a \<mapsto> b)) p = Inr n"
  by (auto simp: node_at_Inr)

lemma init_table_found:
  assumes "table_found t s" and "static_table s = 0"
  shows "initSyscallTablePtr s = Inr (0, s\<lparr>static_table := t\<rparr>)"
  using assms by (auto simp: table_found_def initSyscallTablePtr_def split: sum.splits)

lemma kfree_name:
  assumes "a \<noteq> 0" and "heap s a = None"
  shows "kfree a ((called t c s)\<lparr>heap := (heap s)(a \<mapsto> b)\<rparr>) = Inr (called t c s)"
proof -
  have "(called t c s)\<lparr>heap := (heap s)(a \<mapsto> b)\<rparr> =
      (called t c s)\<lparr>tick := Suc (tick s), heap := (heap (called t c s))(a \<mapsto> b)\<rparr>"
    by (simp add: called_def)
  moreover have "(called t c s)\<lparr>tick := Suc (tick s)\<rparr> = called t c s" by (simp add: called_def)
  moreover have "heap (called t c s) a = None" using assms(2) by (simp add: called_def)
  ultimately show ?thesis using kfree_fresh [OF assms(1), of "called t c s"] by metis
qed

text \<open>From the lookup of the table to the end, the buffer with the name being freed.\<close>

lemma pass_on_ok:
  assumes "table_found t s" and "a \<noteq> 0" and "heap s a = None"
  shows "pass_on env a c (s\<lparr>tick := Suc (tick s), heap := (heap s)(a \<mapsto> Raw 4096)\<rparr>) =
    Inr (returned env t c s, called t c s)"
proof -
  let ?s = "s\<lparr>tick := Suc (tick s), heap := (heap s)(a \<mapsto> Raw 4096)\<rparr>"
  have cur: "current_vector ?s = current_vector s" by (simp add: current_vector_def)
  have t: "table_found t ?s"
    using assms(1) node_at_fresh [of "heap s" a, OF assms(3)] unfolding table_found_iff cur by auto
  have "(if static_table ?s = 0 then initSyscallTablePtr ?s else Inr (0, ?s)) = Inr (0, ?s\<lparr>static_table := t\<rparr>)"
    using init_table_found [OF t] assms(1) by (auto simp: table_found_def)
  moreover have "call_original env c (?s\<lparr>static_table := t\<rparr>) =
      Inr (returned env t c s, (called t c s)\<lparr>heap := (heap s)(a \<mapsto> Raw 4096)\<rparr>)"
    using assms(1) by (simp add: call_original_def table_found_def returned_def called_def)
  ultimately show ?thesis
    using kfree_name [OF assms(2,3)] by (simp add: pass_on_def)
qed

lemma pass_on_no_table:
  assumes "static_table s = 0" and "current_vector s = 0"
  shows "pass_on env a c s = Inl Null_deref"
  using assms by (simp add: pass_on_def initSyscallTablePtr_def call_original_def)

section \<open>The functions that report or refuse\<close>

text \<open>Every one of them begins with the name; the rest is a continuation on the name's buffer.\<close>

lemma with_name:
  assumes "allocator_ok km" and "km (tick s) (heap s) \<noteq> 0" and "named env s nm"
    and "\<And>a buf. a \<noteq> 0 \<Longrightarrow> heap s a = None \<Longrightarrow> terminated buf \<Longrightarrow> c_string buf = nm \<Longrightarrow>
      f (a, buf, s\<lparr>tick := Suc (tick s), heap := (heap s)(a \<mapsto> Raw 4096)\<rparr>) = r"
  shows "bindE (getProcessName env km s) f = r"
proof -
  from getProcessName_some [OF assms(1) refl assms(2,3)] obtain buf where
    b: "getProcessName env km s = Inr (km (tick s) (heap s), buf,
      s\<lparr>tick := Suc (tick s), heap := (heap s)(km (tick s) (heap s) \<mapsto> Raw 4096)\<rparr>)"
      "terminated buf" "c_string buf = nm" by blast
  have "heap s (km (tick s) (heap s)) = None" by (rule allocator_okD(1) [OF assms(1,2)])
  with assms(4) [OF assms(2) _ b(2,3)] b(1) show ?thesis by simp
qed

text \<open>A refusal: the buffer is freed and no original is called.\<close>

definition refused :: "'a syscall_state_scheme \<Rightarrow> 'a syscall_state_scheme" where
  "refused s = s\<lparr>tick := Suc (tick s)\<rparr>"

lemma kfree_refused:
  "a \<noteq> 0 \<Longrightarrow> heap s a = None \<Longrightarrow>
   kfree a (s\<lparr>tick := Suc (tick s), heap := (heap s)(a \<mapsto> b)\<rparr>) = Inr (refused s)"
  unfolding refused_def by (rule kfree_fresh)

lemma user_frame [simp]:
  "user_array p (s\<lparr>tick := n, heap := h\<rparr>) = user_array p s"
  "user_bytes p k (s\<lparr>tick := n, heap := h\<rparr>) = user_bytes p k s"
  "user_bytes p k (s\<lparr>static_table := t\<rparr>) = user_bytes p k s"
  by (simp_all add: user_array_def user_bytes_def)

lemma user_array_terminated:
  assumes "user_data s p = Some path" and "terminated path"
  shows "user_array p s = Inr path" and "contains path t = Inr (strstr (c_string path) t)"
  using assms by (simp_all add: user_array_def contains_ok)

lemma overriddenUnlink_spec:
  assumes km: "allocator_ok km" "km (tick s) (heap s) \<noteq> 0" and nm: "named env s nm"
    and t: "table_found t s" and p: "user_data s p = Some path" "terminated path"
  shows "overriddenUnlink env km p s =
    (if strstr (c_string path) ''.protected'' then Inr (8787, refused s)
     else Inr (returned env t (Unlink_call p) s, called t (Unlink_call p) s))"
  unfolding overriddenUnlink_def
  by (rule with_name [OF km nm])
    (auto simp: printk_ok user_array_terminated [OF p] kfree_refused pass_on_ok [OF t])

lemma blockedOpen_spec:
  assumes km: "allocator_ok km" "km (tick s) (heap s) \<noteq> 0" and nm: "named env s nm"
    and t: "table_found t s" and p: "user_data s p = Some path" "terminated path"
  shows "blockedOpen env km p flags mode s =
    (if strstr nm ''httpd'' \<and> (strstr (c_string path) ''/etc/passwd'' \<or> strstr (c_string path) ''/etc/shadow'')
     then Inr (- 1, refused s)
     else Inr (returned env t (Open_call p flags mode) s, called t (Open_call p flags mode) s))"
  unfolding blockedOpen_def
  by (rule with_name [OF km nm])
    (auto simp: printk_ok contains_ok user_array_terminated [OF p] kfree_refused pass_on_ok [OF t])

section \<open>The function that logs\<close>

text \<open>Its frees, of one, two or three buffers that the call allocated.\<close>

lemma frees2:
  assumes "heap s a = None" and "heap s b = None" and "a \<noteq> b"
  shows "(heap s)(a \<mapsto> x, b \<mapsto> y, b := None, a := None) = heap s"
  using assms by (auto simp: fun_eq_iff)

lemma frees3:
  assumes "heap s a = None" and "heap s b = None" and "heap s c = None"
    and "a \<noteq> b" and "a \<noteq> c" and "b \<noteq> c"
  shows "(heap s)(a \<mapsto> x, b \<mapsto> y, c \<mapsto> z, c := None, b := None, a := None) = heap s"
  using assms by (auto simp: fun_eq_iff)

text \<open>The part of \<open>loggedWrite\<close> before the name, when there is a table.\<close>

lemma logged_table:
  assumes "table_found t s"
  shows "(if static_table s = 0 then initSyscallTablePtr s else Inr (8787, s)) =
    Inr (if static_table s = 0 then 0 else 8787, s\<lparr>static_table := t\<rparr>)"
  using init_table_found [OF assms] assms by (auto simp: table_found_def)

lemma named_table [simp]: "named env (s\<lparr>static_table := t\<rparr>) nm \<longleftrightarrow> named env s nm"
  by (simp add: named_def proc_path_def)

text \<open>Standard streams: one write of what the caller gave.\<close>

lemma loggedWrite_std:
  assumes km: "allocator_ok km" "km (tick s) (heap s) \<noteq> 0" and nm: "named env s nm"
    and t: "table_found t s" and fd: "sint fd < 3"
  shows "loggedWrite env km fd buf count s =
    (let c = Write_call fd buf (user_bytes buf (unat count) s)
     in Inr (scast (returned env t c s), called t c s))"
proof -
  let ?z = s and ?s = "s\<lparr>static_table := t\<rparr>" and ?c = "Write_call fd buf (user_bytes buf (unat count) s)"
  have t0: "t \<noteq> 0" using t by (simp add: table_found_def)
  have fin: "original_write env fd buf (unat count) (?s\<lparr>tick := Suc (tick s), heap := (heap s)(a \<mapsto> Raw 4096)\<rparr>) =
      Inr (returned env t ?c s, (called t ?c s)\<lparr>heap := (heap s)(a \<mapsto> Raw 4096)\<rparr>)" for a
    using t0 by (simp add: original_write_def call_original_def returned_def called_def)
  have "loggedWrite env km fd buf count s =
      bindE (getProcessName env km ?s) (\<lambda>(processName, name, s).
       if processName = 0 then Inr (scast (if static_table ?z = 0 then 0 else 8787 :: cint), s)
       else bindE (printk_s name) (\<lambda>_.
         bindE (original_write env fd buf (unat count) s) (\<lambda>(ret, s). logged_out 0 0 processName ret s)))"
    unfolding loggedWrite_def logged_table [OF t] using t0 fd by (simp cong: if_cong)
  also have "\<dots> = Inr (scast (returned env t ?c s), called t ?c s)"
  proof (rule with_name [OF km(1), of ?s])
    fix a name
    assume a: "a \<noteq> 0" "heap ?s a = None" "terminated name"
    then have "kfree a ((called t ?c s)\<lparr>heap := (heap s)(a \<mapsto> Raw 4096)\<rparr>) = Inr (called t ?c s)"
      by (intro kfree_name) simp_all
    with a fin [of a] show "(case (a, name, ?s\<lparr>tick := Suc (tick ?s), heap := (heap ?s)(a \<mapsto> Raw 4096)\<rparr>) of
       (processName, name, s) \<Rightarrow> if processName = 0 then Inr (scast (if static_table ?z = 0 then 0 else 8787 :: cint), s)
       else bindE (printk_s name) (\<lambda>_.
         bindE (original_write env fd buf (unat count) s) (\<lambda>(ret, s). logged_out 0 0 processName ret s))) =
      Inr (scast (returned env t ?c s), called t ?c s)"
      by (simp add: printk_ok logged_out_def)
  qed (use km(2) nm in simp_all)
  finally show ?thesis by (simp add: Let_def)
qed

text \<open>
  A file whose path has \<open>.c\<close> in it: the header is written first, through the caller's buffer,
  then the caller's bytes; the first \<open>count\<close> bytes of the buffer are put back.
\<close>

definition logged ::
  "kernel_env \<Rightarrow> addr \<Rightarrow> cint \<Rightarrow> addr \<Rightarrow> nat \<Rightarrow> char list \<Rightarrow> 'a syscall_state_scheme \<Rightarrow> 'a syscall_state_scheme" where
  "logged env t fd buf n data s =
     (let h = log_header env in
      s\<lparr>tick := tick s + 3, static_table := t, file_refs := (file_refs s)(fd := file_refs s fd + 1),
        orig_log := Write_call fd buf (Some (take n data)) # Write_call fd buf (Some h) # orig_log s,
        user_data := (user_data s)(buf \<mapsto> take n data @ drop n (h @ drop (length h) data))\<rparr>)"

lemma copy_in_ok:
  assumes "user_data s p = Some a" and "n \<le> length a" and "n \<le> length kbuf"
  shows "copy_in p n kbuf s = Inr (Some (take n a @ drop n kbuf))"
  using assms by (simp add: copy_in_def write_at_append_0 min_absorb2)

lemma copy_out_ok:
  assumes "user_data s p = Some a" and "length src \<le> length a"
  shows "copy_out p src s = (True, s\<lparr>user_data := (user_data s)(p \<mapsto> src @ drop (length src) a)\<rparr>)"
  using assms by (simp add: copy_out_def)

text \<open>The frees at the end, when the buffers are the last three allocations.\<close>

lemma logged_out_frees:
  assumes "a \<noteq> 0" "b \<noteq> 0" "c \<noteq> 0" and "heap s a = None" "heap s b = None" "heap s c = None"
    and "a \<noteq> b" "a \<noteq> c" "b \<noteq> c" and "heap s' = (heap s)(a \<mapsto> x, b \<mapsto> y, c \<mapsto> z)"
  shows "logged_out c b a ret s' = Inr (scast ret, s'\<lparr>heap := heap s\<rparr>)"
  using assms frees3 [OF assms(4-9), of x y z]
  by (simp add: logged_out_def kfree_live)

lemma write_twice_ok:
  assumes d: "user_data s buf = Some data" and n: "n \<le> length data" "length (log_header env) \<le> length data"
    and t: "static_table s = t" "t \<noteq> 0" and k: "take n kdata = take n data"
    and c: "kmalloc km (Raw PAGE_SIZE) s = (c, s1)" "c \<noteq> 0" "s1 = s\<lparr>tick := Suc (tick s), heap := h1\<rparr>"
  shows "write_twice env km fd buf n kdata kbuf a s =
    (let h = log_header env; c1 = Write_call fd buf (Some h); c2 = Write_call fd buf (Some (take n data))
     in logged_out c kbuf a (ucast (k_orig env t (c1 # orig_log s) c2))
          (s1\<lparr>user_data := (user_data s)(buf \<mapsto> take n data @ drop n (h @ drop (length h) data)),
            orig_log := c2 # c1 # orig_log s\<rparr>))"
proof -
  let ?h = "log_header env"
  let ?d1 = "?h @ drop (length ?h) data"
  let ?s2 = "s1\<lparr>user_data := (user_data s)(buf \<mapsto> ?d1)\<rparr>"
  have o1: "copy_out buf ?h s1 = (True, ?s2)" using copy_out_ok [of s1 buf data ?h] d n(2) c(3) by simp
  let ?c1 = "Write_call fd buf (Some ?h)"
  let ?s3 = "?s2\<lparr>orig_log := ?c1 # orig_log s\<rparr>"
  have w1: "original_write env fd buf (length ?h) ?s2 = Inr (ucast (k_orig env t (orig_log s) ?c1), ?s3)"
    using t c(3) by (simp add: original_write_def call_original_def user_bytes_def)
  have len: "length (take n data) \<le> length ?d1" using n by simp
  have o2: "copy_out buf (take n kdata) ?s3 = (True, ?s3\<lparr>user_data := (user_data ?s3)(buf \<mapsto>
      take n data @ drop (length (take n data)) ?d1)\<rparr>)"
    unfolding k by (rule copy_out_ok [OF _ len]) simp
  have m: "min (length data) n = n" using n(1) by simp
  show ?thesis
    unfolding write_twice_def Let_def c(1) case_prod_conv o1 w1 bindE_Inr o2
    using t n(1) c(2,3) by (simp add: original_write_def call_original_def user_bytes_def m)
qed

lemma loggedWrite_c:
  assumes km: "allocator_ok km" "roomy b km" "card (dom (heap s)) + 2 \<le> b" and nm: "named env s nm"
    and t: "table_found t s" and fd: "\<not> sint fd < 3" and f: "k_file env fd = Some (Some path)" "strstr path ''.c''"
    and d: "user_data s buf = Some data" and n: "unat count \<le> length data" "unat count \<le> PAGE_SIZE"
      "length (log_header env) \<le> length data"
    and fresh: "length (k_fresh env PAGE_SIZE) = PAGE_SIZE"
  shows "loggedWrite env km fd buf count s =
    (let c1 = Write_call fd buf (Some (log_header env)); c2 = Write_call fd buf (Some (take (unat count) data))
     in Inr (scast (ucast (k_orig env t (c1 # orig_log s) c2) :: cint), logged env t fd buf (unat count) data s))"
proof -
  let ?z = s and ?s = "s\<lparr>static_table := t\<rparr>" and ?n = "unat count" and ?r = "\<lambda>(fs :: cint \<Rightarrow> nat). fs(fd := fs fd + 1)"
  let ?c1 = "Write_call fd buf (Some (log_header env))" and ?c2 = "Write_call fd buf (Some (take ?n data))"
  have t0: "t \<noteq> 0" using t by (simp add: table_found_def)
  have k0: "km (tick s) (heap s) \<noteq> 0" using km(2,3) by (simp add: roomy_def)
  have "loggedWrite env km fd buf count s = bindE (getProcessName env km ?s) (\<lambda>(processName, name, s).
       if processName = 0 then Inr (scast (if static_table ?z = 0 then 0 else 8787 :: cint), s)
       else bindE (printk_s name) (\<lambda>_. log_to_file env km fd buf ?n (Some path) processName
                 (s\<lparr>file_refs := ?r (file_refs s)\<rparr>)))"
    unfolding loggedWrite_def logged_table [OF t] using t0 fd f by (simp cong: if_cong)
  also have "\<dots> = Inr (scast (ucast (k_orig env t (?c1 # orig_log s) ?c2) :: cint), logged env t fd buf ?n data s)"
  proof (rule with_name [OF km(1), of ?s])
    fix a name
    assume a: "a \<noteq> 0" "heap ?s a = None" "terminated name"
    let ?s1 = "?s\<lparr>tick := Suc (tick s), heap := (heap s)(a \<mapsto> Raw 4096), file_refs := ?r (file_refs s)\<rparr>"
    have "card (dom (heap ?s1)) \<le> b" using a(2) km(3) by (simp add: domIff)
    from kmalloc_roomy [OF km(1,2) this, of "Raw PAGE_SIZE"] obtain kb where kb:
      "kmalloc km (Raw PAGE_SIZE) ?s1 = (kb, ?s1\<lparr>tick := Suc (tick ?s1), heap := (heap ?s1)(kb \<mapsto> Raw PAGE_SIZE)\<rparr>)"
      "kb \<noteq> 0" "heap ?s1 kb = None" "card (dom ((heap ?s1)(kb \<mapsto> Raw PAGE_SIZE))) = Suc (card (dom (heap ?s1)))"
      by blast
    let ?s2 = "?s1\<lparr>tick := Suc (tick ?s1), heap := (heap ?s1)(kb \<mapsto> Raw PAGE_SIZE)\<rparr>"
    have "card (dom (heap ?s2)) \<le> b" using a(2) km(3) kb(4) by (simp add: domIff)
    from kmalloc_roomy [OF km(1,2) this, of "Raw PAGE_SIZE"] obtain c where c:
      "kmalloc km (Raw PAGE_SIZE) ?s2 = (c, ?s2\<lparr>tick := Suc (tick ?s2), heap := (heap ?s2)(c \<mapsto> Raw PAGE_SIZE)\<rparr>)"
      "c \<noteq> 0" "heap ?s2 c = None" by blast
    have d2: "user_data ?s2 buf = Some data" "static_table ?s2 = t" using d by simp_all
    have k: "take ?n (take ?n data @ drop ?n (k_fresh env PAGE_SIZE)) = take ?n data" using n(1) by simp
    have ci: "copy_in buf ?n (k_fresh env PAGE_SIZE) ?s2 = Inr (Some (take ?n data @ drop ?n (k_fresh env PAGE_SIZE)))"
      by (rule copy_in_ok [OF d2(1) n(1)]) (use n(2) fresh in simp)
    have ne: "heap s kb = None" "a \<noteq> kb" "heap s c = None" "a \<noteq> c" "kb \<noteq> c"
      using kb(3) c(3) a(2) by (auto split: if_splits)
    note wt = write_twice_ok [OF d2(1) n(1,3) d2(2) t0 k c(1,2) refl, of fd kb a]
    let ?s3 = "?s2\<lparr>tick := Suc (tick ?s2), heap := (heap ?s2)(c \<mapsto> Raw PAGE_SIZE),
        user_data := (user_data ?s2)(buf \<mapsto> take ?n data @ drop ?n (log_header env @ drop (length (log_header env)) data)),
        orig_log := ?c2 # ?c1 # orig_log ?s2\<rparr>"
    have "?s3\<lparr>heap := heap s\<rparr> = logged env t fd buf ?n data s"
      by (rule syscall_state.equality) (simp_all add: logged_def Let_def)
    moreover have "logged_out c kb a ret ?s3 = Inr (scast ret, ?s3\<lparr>heap := heap s\<rparr>)" for ret
      by (rule logged_out_frees [OF a(1) kb(2) c(2) _ ne(1,3,2,4,5)]) (use a(2) in simp_all)
    ultimately have "write_twice env km fd buf ?n (take ?n data @ drop ?n (k_fresh env PAGE_SIZE)) kb a ?s2 =
        Inr (scast (ucast (k_orig env t (?c1 # orig_log s) ?c2) :: cint), logged env t fd buf ?n data s)"
      unfolding wt Let_def by simp
    then have "log_to_file env km fd buf ?n (Some path) a ?s1 =
        Inr (scast (ucast (k_orig env t (?c1 # orig_log s) ?c2) :: cint), logged env t fd buf ?n data s)"
      unfolding log_to_file_def kb(1) Let_def case_prod_conv
      using kb(2) f(2) ci by simp
    with a show "(case (a, name, ?s\<lparr>tick := Suc (tick ?s), heap := (heap ?s)(a \<mapsto> Raw 4096)\<rparr>) of
       (processName, name, s) \<Rightarrow> if processName = 0 then Inr (scast (if static_table ?z = 0 then 0 else 8787 :: cint), s)
       else bindE (printk_s name) (\<lambda>_. log_to_file env km fd buf ?n (Some path) processName
                 (s\<lparr>file_refs := ?r (file_refs s)\<rparr>))) =
      Inr (scast (ucast (k_orig env t (?c1 # orig_log s) ?c2) :: cint), logged env t fd buf ?n data s)"
      by (simp add: printk_ok)
  qed (use k0 nm in simp_all)
  finally show ?thesis by (simp add: Let_def)
qed

end
