(* ===== verification/System.thy ===== *)
theory System
  imports Overridden_Syscalls
begin

text \<open>
  The modules together: from the state after boot, modules are loaded and removed, processes call
  the device and \<open>sys_clone2\<close>, in any order. Every call runs under its mutex, so a step is one whole
  call; the inductive relation lists the calls, and what holds of every reachable state is proved
  by rule induction.
\<close>

section \<open>Boot and steps\<close>

definition boot :: syscall_state where
  "boot = \<lparr>heap = Map.empty, tick = 0, mod_log = [], vec_list = [], list_lock = False,
     v1_listHead = 0, v2_listHead = 0, current = 1, vector_info = [1 \<mapsto> 0],
     dyn_listHead = 0, list_heads = replicate 256 0, dyn_i = 0,
     mutexlock = False, user_out = Map.empty, chrdev = False, sysptr = False,
     static_table = 0, orig_log = [], user_data = Map.empty, file_refs = (\<lambda>_. 0)\<rparr>"

text \<open>
  \<open>rmmod\<close> removes a module only when its reference counter, an \<open>int\<close>, is 0; the process \<open>child\<close> of a clone is
  made by the lines of \<open>fork.cpy\<close>.
\<close>

inductive sys_step :: "allocator \<Rightarrow> syscall_state \<Rightarrow> syscall_state \<Rightarrow> bool" for km where
  load_v1: "v1_listHead s = 0 \<Longrightarrow> v1_init_override km s = Inr (r, s') \<Longrightarrow> sys_step km s s'"
| load_v2: "v2_listHead s = 0 \<Longrightarrow> v2_init_override km s = Inr (r, s') \<Longrightarrow> sys_step km s s'"
| load_dyn: "dyn_init_override s = (r, s') \<Longrightarrow> sys_step km s s'"
| rm_v1: "of_int (module_refs Mod_vector1 (mod_log s)) = (0 :: cint) \<Longrightarrow> v1_cleanup_override s = Inr s' \<Longrightarrow> sys_step km s s'"
| rm_v2: "of_int (module_refs Mod_vector2 (mod_log s)) = (0 :: cint) \<Longrightarrow> v2_cleanup_override s = Inr s' \<Longrightarrow> sys_step km s s'"
| rm_dyn: "of_int (module_refs Mod_dynamic_vector (mod_log s)) = (0 :: cint) \<Longrightarrow> dyn_cleanup_override s = Inr s' \<Longrightarrow> sys_step km s s'"
| load_ioctl: "\<not> chrdev s \<Longrightarrow> init_ioctl_module ret s = (r, s') \<Longrightarrow> sys_step km s s'"
| rm_ioctl: "sys_step km s (exit_ioctl_module s)"
| load_clone2: "init_sys_clone2 s = (r, s') \<Longrightarrow> sys_step km s s'"
| rm_clone2: "sys_step km s (exit_sys_clone2 s)"
| ioctl: "chrdev s \<Longrightarrow> custom_ioctl km u req p s = Inr (err, s') \<Longrightarrow> sys_step km s s'"
| clone2: "sysptr s \<Longrightarrow> vector_info s child = None \<Longrightarrow>
    sys_clone2 (fork_child child) flags stack ptid tls ctid vid s = Inr (err, s') \<Longrightarrow> sys_step km s s'"
| switch: "vector_info s pd \<noteq> None \<Longrightarrow> sys_step km s (s\<lparr>current := pd\<rparr>)"

inductive reachable :: "allocator \<Rightarrow> syscall_state \<Rightarrow> bool" for km where
  start: "reachable km boot"
| step: "reachable km s \<Longrightarrow> sys_step km s s' \<Longrightarrow> reachable km s'"

inductive_cases sys_stepE: "sys_step km s s'"

section \<open>Freeing a list spares the registry\<close>

text \<open>
  Whatever \<open>delete_vector\<close> is called on, if it returns it has freed nodes of system call lists
  only: the loop checks nothing, but any other memory would be a fault.
\<close>

lemma kfree_Inr: "kfree a s = Inr s' \<Longrightarrow> s' = s\<lparr>heap := (heap s)(a := None)\<rparr> \<or> s' = s"
  by (auto simp: kfree_def split: if_splits)

lemma free_nodes_spares:
  assumes "free_nodes p s = Some r" and "r = Inr s'"
  shows "(\<forall>a. heap s a = Some Vector_node \<longrightarrow> heap s' a = Some Vector_node) \<and> (\<exists>h. s' = s\<lparr>heap := h\<rparr>)"
  using assms
proof (induct arbitrary: s' rule: free_nodes.raw_induct [rotated, consumes 1, case_names 1])
  case (1 f p s r)
  from 1(2,3) obtain n where n: "node_at (heap s) p = Inr n" by (cases "node_at (heap s) p") auto
  then have p: "p \<noteq> 0" "heap s p = Some (Syscall_node n)" by (simp_all add: node_at_Inr)
  then have k: "kfree p s = Inr (s\<lparr>heap := (heap s)(p := None)\<rparr>)" by (simp add: kfree_live)
  show ?case
  proof (cases "nextSyscall n = 0")
    case True
    with 1(2,3) n k have "s' = s\<lparr>heap := (heap s)(p := None)\<rparr>" by simp
    with p(2) show ?thesis by auto
  next
    case False
    with 1(2) n k have "f (nextSyscall n) (s\<lparr>heap := (heap s)(p := None)\<rparr>) = Some r" by simp
    from 1(1) [OF this 1(3)] p(2) show ?thesis by (auto split: if_splits)
  qed
qed

lemma free_list_spares:
  assumes "free_syscall_list p s = Inr s'" and "reg_inv s"
  shows "reg_inv s' \<and> (\<exists>h. s' = s\<lparr>heap := h\<rparr>)"
proof (cases "p = 0")
  case True
  with assms show ?thesis by (auto simp: free_syscall_list_def intro!: exI [of _ "heap s"])
next
  case False
  with assms(1) obtain r where r: "free_nodes p s = Some r" "r = Inr s'"
    by (auto simp: free_syscall_list_def run_loop_def split: option.splits)
  from free_nodes_spares [OF this] obtain h where h: "s' = s\<lparr>heap := h\<rparr>"
    and v: "\<forall>a. heap s a = Some Vector_node \<longrightarrow> heap s' a = Some Vector_node" by blast
  have "reg_inv s'" by (rule reg_inv_heap [OF assms(2)]) (use h v in simp_all)
  with h show ?thesis by blast
qed

section \<open>Calls that return keep the invariant\<close>

text \<open>
  Partial correctness of the device's commands: whatever the user passes and whatever the
  registry holds, a command that returns ends well in the sense of \<open>case_ends\<close>.
\<close>

lemma list_scan_bound: "list_scan t xs = Inr (Some i) \<Longrightarrow> i < length xs"
proof (induction xs arbitrary: i)
  case Nil
  then show ?case by simp
next
  case (Cons x xs)
  then show ?case by (auto simp: bindE_eq_Inr split: if_splits)
qed

lemma get_vector_address_Inr:
  assumes "get_vector_address n s = Inr (a, s')" and "\<not> list_lock s"
  shows "s' = s \<or> (\<exists>i < length (vec_list s). s' = take_ref i s)"
proof -
  from assms obtain hit where hit: "list_scan (\<lambda>v. strcmp_eq n (vector_name v)) (vec_list s) = Inr hit"
    by (auto simp: get_vector_address_def mutex_lock_list_def bindE_eq_Inr)
  show ?thesis
  proof (cases hit)
    case None
    with assms hit show ?thesis
      by (simp add: get_vector_address_def mutex_lock_list_def mutex_unlock_list_def)
  next
    case (Some i)
    with hit have i: "i < length (vec_list s)" by (simp add: list_scan_bound)
    with assms hit Some have "s' = take_ref i s"
      by (simp add: get_vector_address_def ref_defs Let_def)
    with i show ?thesis by blast
  qed
qed

lemma reduce_ref_count_Inr:
  assumes "reduce_ref_count n s = Inr (a, s')" and "\<not> list_lock s"
  shows "s' = s \<or> (\<exists>i < length (vec_list s). s' = drop_ref i s)"
proof -
  from assms obtain hit where hit: "list_scan (\<lambda>v. strcmp_eq n (vector_name v)) (vec_list s) = Inr hit"
    by (auto simp: reduce_ref_count_def mutex_lock_list_def bindE_eq_Inr)
  show ?thesis
  proof (cases hit)
    case None
    with assms hit show ?thesis
      by (simp add: reduce_ref_count_def mutex_lock_list_def mutex_unlock_list_def)
  next
    case (Some i)
    with hit have i: "i < length (vec_list s)" by (simp add: list_scan_bound)
    with assms hit Some have "s' = drop_ref i s"
      by (auto simp: reduce_ref_count_def ref_defs Let_def)
    with i show ?thesis by blast
  qed
qed

lemma case_kept_get:
  assumes "case_kept g s s'" and "get_vector_address n s' = Inr (a, s'')"
  shows "case_kept g s s''" and "heap s'' = heap s'"
  using get_vector_address_Inr [OF assms(2)] case_kept_ref(1) [OF assms(1)] assms(1)
  by (auto simp: case_kept_def reg_inv_def reg_ok_def)

lemma case_kept_reduce_Inr:
  assumes "case_kept g s s'" and "reduce_ref_count n s' = Inr (a, s'')"
  shows "case_kept g s s''" and "heap s'' = heap s'"
  using reduce_ref_count_Inr [OF assms(2)] case_kept_ref(2) [OF assms(1)] assms(1)
  by (auto simp: case_kept_def reg_inv_def reg_ok_def)

text \<open>A buffer freed again, around a step that kept the rest of the heap.\<close>

lemma case_kept_free:
  assumes k: "case_kept g s s2" and h: "heap s2 = (heap s')(a \<mapsto> Raw m)" and fresh: "heap s' a = None"
    and a: "a \<noteq> 0" and le: "heap s \<subseteq>\<^sub>m heap s'"
  shows "kfree a s2 = Inr (s2\<lparr>heap := heap s'\<rparr>)" and "case_kept g s (s2\<lparr>heap := heap s'\<rparr>)"
proof -
  have "(heap s')(a \<mapsto> Raw m, a := None) = heap s'" using fresh by (auto simp: fun_eq_iff)
  with h a show "kfree a s2 = Inr (s2\<lparr>heap := heap s'\<rparr>)" by (simp add: kfree_live)
  have "reg_inv (s2\<lparr>heap := heap s'\<rparr>)"
    by (rule reg_inv_heap [of s2]) (use k h in \<open>auto simp: case_kept_def split: if_splits\<close>)
  with k le show "case_kept g s (s2\<lparr>heap := heap s'\<rparr>)" by (simp add: case_kept_def pin_excess_def)
qed

lemma case_kept_if_assigned:
  assumes k: "case_kept g s s'" and km: "allocator_ok km" and r: "if_assigned_reduce km s' = Inr (e, s'')"
  shows "case_kept g s s'' \<and> heap s'' = heap s'"
proof (cases "current_vector s' = 0")
  case True
  with r k show ?thesis by (simp add: if_assigned_reduce_def)
next
  case False
  have le: "heap s \<subseteq>\<^sub>m heap s'" using k by (simp add: case_kept_def)
  show ?thesis
  proof (rule kmalloc_cases [OF km, of "Raw BUF_LEN" s'])
    assume "kmalloc km (Raw BUF_LEN) s' = (0, s'\<lparr>tick := Suc (tick s')\<rparr>)"
    with r False case_kept_tick [OF k] show ?thesis by (auto simp: if_assigned_reduce_def)
  next
    fix a
    let ?s = "s'\<lparr>tick := Suc (tick s'), heap := (heap s')(a \<mapsto> Raw BUF_LEN)\<rparr>"
    assume a: "kmalloc km (Raw BUF_LEN) s' = (a, ?s)" "a \<noteq> 0" "heap s' a = None"
    have k1: "case_kept g s ?s" by (rule case_kept_alloc [OF k a(3)])
    from r False a(1,2) obtain ret tx un where
      "show_into (kzalloc_chars BUF_LEN) (current_vector ?s) ?s = Inr (ret, tx)"
      and rest: "(if un then bindE (kfree a ?s) (\<lambda>s. Inr (0, s))
          else bindE (reduce_ref_count tx ?s) (\<lambda>(err, s).
            let err = if sint err < 0 then - EINVAL else err in
            bindE (kfree a s) (\<lambda>s. Inr (err, s)))) = Inr (e, s'')"
      by (auto simp: if_assigned_reduce_def bindE_eq_Inr)
    show ?thesis
    proof (cases un)
      case True
      with rest case_kept_free [OF k1 _ a(3,2) le] show ?thesis by (auto simp: bindE_eq_Inr)
    next
      case False
      with rest obtain err s3 where s3: "reduce_ref_count tx ?s = Inr (err, s3)" "kfree a s3 = Inr s''"
        by (auto simp: bindE_eq_Inr Let_def)
      from case_kept_reduce_Inr [OF k1 s3(1)] have "case_kept g s s3" "heap s3 = (heap s')(a \<mapsto> Raw BUF_LEN)"
        by simp_all
      from case_kept_free [OF this a(3,2) le] s3(2) show ?thesis by auto
    qed
  qed
qed

text \<open>Commands on a name: a buffer for the name, then the command's calls, then the end.\<close>

lemma case_ends_name:
  assumes k: "case_kept 1 s s'" and a: "heap s a = None" "a \<noteq> 0" and h: "heap s' = (heap s)(a \<mapsto> Raw m)"
  shows "case_ends s ((leave x e)\<lparr>c_vector_name := a\<rparr>) (module_put Mod_ioctl_module s')"
  by (rule case_ends_module [OF k]) (use a h in \<open>simp_all add: case_pointers_def leave_def\<close>)

lemma case_kept_name:
  assumes inv: "reg_inv s" "dyn_listHead s = 0" and a: "heap s a = None"
  shows "case_kept 1 s (try_module_get Mod_ioctl_module (s\<lparr>tick := n, heap := (heap s)(a \<mapsto> b)\<rparr>))"
  using case_kept_module(1) [OF case_kept_alloc [OF case_kept_refl [OF inv] a]] by simp

lemma ioctl_set_Inr:
  assumes r: "ioctl_set km u p s = Inr (c, s')" and km: "allocator_ok km"
    and inv: "reg_inv s" "dyn_listHead s = 0"
  shows "case_ends s c s'"
proof -
  from r obtain bytes n where b: "user_string u p = Inr bytes" "strlen bytes = Inr n"
    by (auto simp: ioctl_set_def bindE_eq_Inr)
  let ?l = "of_nat n :: uint"
  show ?thesis
  proof (rule kmalloc_cases [OF km, of "Raw (unat (?l + 1))" s])
    assume "kmalloc km (Raw (unat (?l + 1))) s = (0, s\<lparr>tick := Suc (tick s)\<rparr>)"
    with r b case_kept_tick [OF case_kept_refl [OF inv]] show ?thesis
      by (auto simp: ioctl_set_def case_ends_def case_pointers_def leave_def)
  next
    fix a
    let ?m = "unat (?l + 1)"
    let ?s = "s\<lparr>tick := Suc (tick s), heap := (heap s)(a \<mapsto> Raw ?m)\<rparr>"
    let ?s1 = "try_module_get Mod_ioctl_module ?s"
    assume a: "kmalloc km (Raw ?m) s = (a, ?s)" "a \<noteq> 0" "\<not> is_err a" "heap s a = None"
    have k1: "case_kept 1 s ?s1" by (rule case_kept_name [OF inv a(4)])
    have h1: "heap ?s1 = (heap s)(a \<mapsto> Raw ?m)" by simp
    show ?thesis
    proof (cases "not_copied u p (unat ?l) = 0")
      case False
      with r b a(1-3) case_ends_name [OF k1 a(4,2) h1] show ?thesis by (auto simp: ioctl_set_def)
    next
      case True
      with r [unfolded ioctl_set_def Let_def remove_from_task_struct_def add_to_task_struct_def case_prod_conv set_current_vector_twice]
        b a(1-3) obtain name va s2 where g: "get_vector_address name ?s1 = Inr (va, s2)"
        and rest: "(if va = 0 then Inr ((leave Goto_free_vector_name (- EINVAL))\<lparr>c_vector_name := a\<rparr>,
              module_put Mod_ioctl_module s2)
          else bindE (if_assigned_reduce km s2) (\<lambda>(_, s).
              Inr ((leave Goto_free_vector_name 0)\<lparr>c_vector_name := a\<rparr>,
                module_put Mod_ioctl_module (set_current_vector va s)))) = Inr (c, s')"
        by (auto simp: bindE_eq_Inr)
      note k2 = case_kept_get [OF k1 g]
      then have h2: "heap s2 = (heap s)(a \<mapsto> Raw ?m)" by simp
      show ?thesis
      proof (cases "va = 0")
        case True
        with rest case_ends_name [OF k2(1) a(4,2) h2] show ?thesis by auto
      next
        case False
        with rest obtain e s3 where s3: "if_assigned_reduce km s2 = Inr (e, s3)"
          and fin: "c = (leave Goto_free_vector_name 0)\<lparr>c_vector_name := a\<rparr>"
            "s' = module_put Mod_ioctl_module (set_current_vector va s3)" by (auto simp: bindE_eq_Inr)
        from case_kept_if_assigned [OF k2(1) km s3] h2
        have k3: "case_kept 1 s (set_current_vector va s3)"
          and h3: "heap (set_current_vector va s3) = (heap s)(a \<mapsto> Raw ?m)"
          by (simp_all add: case_kept_current)
        show ?thesis unfolding fin by (rule case_ends_name [OF k3 a(4,2) h3])
      qed
    qed
  qed
qed

lemma ioctl_remove_Inr:
  assumes r: "ioctl_remove km u p s = Inr (c, s')" and km: "allocator_ok km"
    and inv: "reg_inv s" "dyn_listHead s = 0"
  shows "case_ends s c s'"
proof -
  from r obtain bytes n where b: "user_string u p = Inr bytes" "strlen bytes = Inr n"
    by (auto simp: ioctl_remove_def bindE_eq_Inr)
  let ?l = "of_nat n :: uint"
  show ?thesis
  proof (rule kmalloc_cases [OF km, of "Raw (unat (?l + 1))" s])
    assume "kmalloc km (Raw (unat (?l + 1))) s = (0, s\<lparr>tick := Suc (tick s)\<rparr>)"
    with r b case_kept_tick [OF case_kept_refl [OF inv]] show ?thesis
      by (auto simp: ioctl_remove_def case_ends_def case_pointers_def leave_def)
  next
    fix a
    let ?m = "unat (?l + 1)"
    let ?s = "s\<lparr>tick := Suc (tick s), heap := (heap s)(a \<mapsto> Raw ?m)\<rparr>"
    let ?s1 = "try_module_get Mod_ioctl_module ?s"
    assume a: "kmalloc km (Raw ?m) s = (a, ?s)" "a \<noteq> 0" "\<not> is_err a" "heap s a = None"
    have k1: "case_kept 1 s ?s1" by (rule case_kept_name [OF inv a(4)])
    have h1: "heap ?s1 = (heap s)(a \<mapsto> Raw ?m)" by simp
    show ?thesis
    proof (cases "not_copied u p (unat ?l) = 0")
      case False
      with r b a(1-3) case_ends_name [OF k1 a(4,2) h1] show ?thesis by (auto simp: ioctl_remove_def)
    next
      case True
      with r [unfolded ioctl_remove_def Let_def remove_from_task_struct_def case_prod_conv]
        b a(1-3) obtain name ret s2 where g: "reduce_ref_count name ?s1 = Inr (ret, s2)"
        and rest: "(if sint ret < 0 then Inr ((leave Goto_free_vector_name (- EINVAL))\<lparr>c_vector_name := a\<rparr>,
              module_put Mod_ioctl_module s2)
          else Inr ((leave Goto_free_vector_name (scast ret))\<lparr>c_vector_name := a\<rparr>,
                module_put Mod_ioctl_module (set_current_vector 0 s2)) :: (ioctl_case \<times> _) cres) = Inr (c, s')"
        by (auto simp: bindE_eq_Inr)
      note k2 = case_kept_reduce_Inr [OF k1 g]
      then have h2: "heap s2 = (heap s)(a \<mapsto> Raw ?m)" by simp
      have k3: "case_kept 1 s (set_current_vector 0 s2)" by (rule case_kept_current [OF k2(1)])
      have h3: "heap (set_current_vector 0 s2) = (heap s)(a \<mapsto> Raw ?m)" using h2 by simp
      show ?thesis
        using rest case_ends_name [OF k2(1) a(4,2) h2] case_ends_name [OF k3 a(4,2) h3]
        by (auto split: if_splits)
    qed
  qed
qed

text \<open>The other four commands.\<close>

lemma ioctl_show_all_Inr:
  assumes r: "ioctl_show_all u p s = Inr (c, s')" and inv: "reg_inv s" "dyn_listHead s = 0"
  shows "case_ends s c s'"
proof -
  from r obtain buf where "ioctl_reply u p buf (leave Goto_free_vector_name 0) (try_module_get Mod_ioctl_module s) = (c, s')"
    by (auto simp: ioctl_show_all_def Let_def bindE_eq_Inr)
  with case_ends_reply [OF case_kept_first [OF inv], of "leave Goto_free_vector_name 0" u p buf]
  show ?thesis by (auto simp: case_pointers_def leave_def)
qed

lemma ioctl_show_mine_Inr:
  assumes r: "ioctl_show_mine u p s = Inr (c, s')" and inv: "reg_inv s" "dyn_listHead s = 0"
  shows "case_ends s c s'"
proof -
  from r obtain buf where "ioctl_reply u p buf (leave Goto_free_vector_name 0) (try_module_get Mod_ioctl_module s) = (c, s')"
    by (auto simp: ioctl_show_mine_def bindE_eq_Inr Let_def)
  with case_ends_reply [OF case_kept_first [OF inv], of "leave Goto_free_vector_name 0" u p buf]
  show ?thesis by (auto simp: case_pointers_def leave_def)
qed

text \<open>The structures copied in: the buffer is the one pointer the case leaves.\<close>

lemma struct_case:
  fixes n :: nat and s :: "'a ioctl_state_scheme"
  assumes km: "allocator_ok km" "km (tick s) (heap s) \<noteq> 0" and inv: "reg_inv s" "dyn_listHead s = 0"
  defines "s1 \<equiv> (try_module_get Mod_ioctl_module s)\<lparr>tick := Suc (tick s),
      heap := (heap s)(km (tick s) (heap s) \<mapsto> Raw n)\<rparr>"
  shows "kmalloc km (Raw n) (try_module_get Mod_ioctl_module s) = (km (tick s) (heap s), s1)"
    and "case_kept 1 s s1" and "heap s (km (tick s) (heap s)) = None"
    and "heap s1 (km (tick s) (heap s)) = Some (Raw n)"
proof -
  note a = allocator_okD(1) [OF km]
  show "kmalloc km (Raw n) (try_module_get Mod_ioctl_module s) = (km (tick s) (heap s), s1)"
    using km(2) kmalloc_ok [OF km(1), of "Raw n" "try_module_get Mod_ioctl_module s"]
    by (simp add: Let_def s1_def)
  show "case_kept 1 s s1"
    using case_kept_alloc [OF case_kept_first [OF inv], of "km (tick s) (heap s)", where n = "Suc (tick s)" and b = "Raw n"] a
    by (simp add: s1_def)
  show "heap s (km (tick s) (heap s)) = None" by (rule a)
  show "heap s1 (km (tick s) (heap s)) = Some (Raw n)" by (simp add: s1_def)
qed

lemma ioctl_for_pid_Inr:
  assumes r: "ioctl_vector_for_pid km u p s = Inr (c, s')" and km: "allocator_ok km"
    and inv: "reg_inv s" "dyn_listHead s = 0"
  shows "case_ends s c s'"
proof (cases "km (tick s) (heap s) = 0")
  case True
  with r kmalloc_ok [OF km, of "Raw 16" "try_module_get Mod_ioctl_module s"] show ?thesis
    by (simp add: ioctl_vector_for_pid_def Let_def)
next
  case False
  let ?a = "km (tick s) (heap s)"
  let ?s = "(try_module_get Mod_ioctl_module s)\<lparr>tick := Suc (tick s), heap := (heap s)(?a \<mapsto> Raw 16)\<rparr>"
  let ?c = "(leave Goto_free_vector_name 0)\<lparr>c_pid_buf := ?a\<rparr>"
  note a = struct_case(1,2) [OF km False inv, where n = 16] struct_case(3) [OF km False inv] struct_case(4) [OF km False inv, where n = 16]
  have ps: "length (case_pointers (?c\<lparr>c_err := e\<rparr>)) \<le> 1"
    "\<forall>q \<in> set (case_pointers (?c\<lparr>c_err := e\<rparr>)). heap s q = None \<and> (\<exists>n. heap ?s q = Some (Raw n))" for e
    using a(3,4) by (simp_all add: case_pointers_def leave_def)
  obtain pd ub where pu: "u_pid_n_buf u p = (pd, ub)" by (cases "u_pid_n_buf u p")
  show ?thesis
  proof (cases "not_copied u p 16 = 0")
    case nc: False
    with r False case_ends_module [OF a(2) ps, of "- EINVAL"] show ?thesis
      by (simp add: ioctl_vector_for_pid_def Let_def a(1))
  next
    case True
    with r False pu obtain va where "vector_info s pd = Some va"
      by (auto simp: ioctl_vector_for_pid_def Let_def a(1) split: option.splits)
    with r True False pu obtain buf where "ioctl_reply u ub buf ?c ?s = (c, s')"
      by (auto simp: ioctl_vector_for_pid_def Let_def a(1) bindE_eq_Inr)
    moreover have "?c\<lparr>c_err := 0\<rparr> = ?c" by (simp add: leave_def)
    ultimately show ?thesis using case_ends_reply [OF a(2) ps, of u ub buf 0] by auto
  qed
qed

lemma ioctl_create_Inr:
  assumes r: "ioctl_create_from_bitmap km u p s = Inr (c, s')" and km: "allocator_ok km"
    and inv: "reg_inv s" "dyn_listHead s = 0"
  shows "case_ends s c s'"
proof (cases "km (tick s) (heap s) = 0")
  case True
  with r kmalloc_ok [OF km, of "Raw 4" "try_module_get Mod_ioctl_module s"] show ?thesis
    by (simp add: ioctl_create_from_bitmap_def Let_def)
next
  case nz: False
  let ?a = "km (tick s) (heap s)"
  let ?s = "(try_module_get Mod_ioctl_module s)\<lparr>tick := Suc (tick s), heap := (heap s)(?a \<mapsto> Raw 4)\<rparr>"
  let ?c = "(leave Goto_free_vector_name 0)\<lparr>c_kernel_bitmap := ?a\<rparr>"
  note a = struct_case(1,2) [OF km nz inv, where n = 4] struct_case(3) [OF km nz inv] struct_case(4) [OF km nz inv, where n = 4]
  have ps: "length (case_pointers (?c\<lparr>c_err := e\<rparr>)) \<le> 1" "set (case_pointers (?c\<lparr>c_err := e\<rparr>)) = {?a}" for e
    using nz by (simp_all add: case_pointers_def leave_def)
  have e1: "case_ends s (?c\<lparr>c_err := e\<rparr>) (module_put Mod_ioctl_module ?s)" for e
    by (rule case_ends_module [OF a(2) ps(1)]) (simp add: ps(2) a(3,4))
  have "reg_inv ?s" "dyn_listHead ?s = 0" using a(2) by (simp_all add: case_kept_def)
  from add_vector_from_bitmap_total [OF km this, of "u_bitmap u p"] obtain r' s2 where
    add: "add_vector_from_bitmap km (u_bitmap u p) ?s = Inr (r', s2)
      \<or> add_vector_from_bitmap km (u_bitmap u p) ?s = Inl Buffer_overflow" and kept: "dyn_kept ?s s2" by blast
  have k2: "case_kept 1 s s2" by (rule case_kept_dyn [OF a(2) kept]) simp
  have live: "heap s2 ?a = Some (Raw 4)"
    by (rule map_le_live [of "heap ?s"]) (use kept in \<open>simp_all add: dyn_kept_def\<close>)
  have e2: "case_ends s (?c\<lparr>c_err := e\<rparr>) (module_put Mod_ioctl_module s2)" for e
    by (rule case_ends_module [OF k2 ps(1)]) (simp add: ps(2) a(3) live)
  from r have "(if not_copied u p 4 \<noteq> 0 then Inr (?c\<lparr>c_err := - EINVAL\<rparr>, module_put Mod_ioctl_module ?s)
       else if validate_bitmap (u_bitmap u p) \<noteq> 0
       then Inr (?c\<lparr>c_err := scast (validate_bitmap (u_bitmap u p))\<rparr>, module_put Mod_ioctl_module ?s)
       else bindE (add_vector_from_bitmap km (u_bitmap u p) ?s)
         (\<lambda>(ret, s). Inr (?c\<lparr>c_err := scast ret\<rparr>, module_put Mod_ioctl_module s))) = Inr (c, s')"
    unfolding ioctl_create_from_bitmap_def Let_def a(1) case_prod_conv using nz by simp
  with add e1 e2 show ?thesis by (auto split: if_splits)
qed

text \<open>The whole call: the mutex is taken, the case runs, the buffers are freed, the mutex is let go.\<close>

lemma ioctl_switch_Inr:
  assumes "ioctl_switch km u req p s = Inr (c, s')" and "allocator_ok km"
    and "reg_inv s" "dyn_listHead s = 0"
  shows "case_ends s c s'"
proof -
  have "case_ends s (leave Goto_free_vector_name (- EINVAL)) s"
    using case_kept_refl [OF assms(3,4)] by (simp add: case_ends_def case_pointers_def leave_def)
  with assms show ?thesis
    by (auto simp: ioctl_switch_def split: if_splits
        intro: ioctl_set_Inr ioctl_remove_Inr ioctl_show_all_Inr ioctl_show_mine_Inr
          ioctl_for_pid_Inr ioctl_create_Inr)
qed

lemma custom_ioctl_Inr:
  assumes r: "custom_ioctl km u req p s = Inr (e, s')" and km: "allocator_ok km"
    and inv: "reg_inv s" "dyn_listHead s = 0"
  shows "\<not> mutexlock s' \<and> reg_inv s' \<and> heap s \<subseteq>\<^sub>m heap s' \<and> dyn_listHead s' = 0
    \<and> current s' = current s \<and> length (list_heads s') = length (list_heads s)
    \<and> (\<forall>m. m \<noteq> Mod_dynamic_vector \<longrightarrow> pin_excess m s' = pin_excess m s)"
proof -
  from r have free: "\<not> mutexlock s" by (auto simp: custom_ioctl_def mutex_lock_ioctl_def)
  show ?thesis
  proof (rule kmalloc_cases [OF km, of "Raw BUF_LEN" "s\<lparr>mutexlock := True\<rparr>"])
    assume "kmalloc km (Raw BUF_LEN) (s\<lparr>mutexlock := True\<rparr>) =
        (0, s\<lparr>mutexlock := True, tick := Suc (tick (s\<lparr>mutexlock := True\<rparr>))\<rparr>)"
    with r free inv show ?thesis
      by (auto simp: custom_ioctl_def mutex_lock_ioctl_def ioctl_end_def leave_def
          reg_inv_def reg_ok_def pin_excess_def)
  next
    fix a
    let ?s = "s\<lparr>mutexlock := True, tick := Suc (tick (s\<lparr>mutexlock := True\<rparr>)),
        heap := (heap (s\<lparr>mutexlock := True\<rparr>))(a \<mapsto> Raw BUF_LEN)\<rparr>"
    assume a: "kmalloc km (Raw BUF_LEN) (s\<lparr>mutexlock := True\<rparr>) = (a, ?s)" "a \<noteq> 0"
      "heap (s\<lparr>mutexlock := True\<rparr>) a = None"
    have inv': "reg_inv ?s" by (rule reg_inv_heap [OF inv(1)]) (use a(3) in auto)
    have start: "dyn_listHead ?s = 0" using inv(2) by simp
    from r free a(1,2) obtain c s2 where sw: "ioctl_switch km u req p ?s = Inr (c, s2)"
      and fin: "ioctl_end a c s2 = Inr (e, s')"
      by (auto simp: custom_ioctl_def mutex_lock_ioctl_def bindE_eq_Inr)
    have "heap ?s a = Some (Raw BUF_LEN)" by simp
    from ioctl_end_safe [OF ioctl_switch_Inr [OF sw km inv' start] this a(2)] fin
    have e: "\<not> mutexlock s'" "reg_inv s'" "(heap ?s)(a := None) \<subseteq>\<^sub>m heap s'" "dyn_listHead s' = 0"
      "current s' = current s" "length (list_heads s') = length (list_heads s)"
      "\<forall>m. m \<noteq> Mod_dynamic_vector \<longrightarrow> pin_excess m s' = pin_excess m ?s" by auto
    have "(heap ?s)(a := None) = heap s" using a(3) by (simp add: fun_upd_idem)
    then have "heap s \<subseteq>\<^sub>m heap s'" using e(3) by (simp only:)
    moreover have "pin_excess m ?s = pin_excess m s" for m by (simp add: pin_excess_def)
    ultimately show ?thesis using e by auto
  qed
qed

section \<open>The invariant of the system\<close>

definition sys_inv :: "syscall_state \<Rightarrow> bool" where
  "sys_inv s \<longleftrightarrow> reg_inv s \<and> \<not> mutexlock s \<and> dyn_listHead s = 0 \<and> length (list_heads s) = 256"

lemma sys_inv_frame:
  assumes "sys_inv s" and "reg_inv s'" and "vec_modules.more s' = vec_modules.more s"
  shows "sys_inv s'"
proof -
  have "mutexlock s' = mutexlock s" "dyn_listHead s' = dyn_listHead s" "list_heads s' = list_heads s"
    using assms(3) by (cases s; cases s'; simp)+
  with assms show ?thesis by (simp add: sys_inv_def)
qed

lemma sys_inv_boot: "sys_inv boot"
  by (simp add: sys_inv_def reg_inv_def reg_ok_def boot_def)

subsection \<open>Loading and removing the sample vectors\<close>

lemma add_calls_frame:
  assumes "\<And>nr f s r s'. add nr f s = Inr (r, s') \<Longrightarrow> g s' = g s"
    and "add_calls add cs s = Inr (r, s')"
  shows "g s' = g s"
  using assms(2)
proof (induction cs arbitrary: s)
  case Nil
  then show ?case by simp
next
  case (Cons c cs)
  obtain nr f where c: "c = (nr, f)" by (cases c)
  with Cons.prems obtain ret s1 where a: "add nr f s = Inr (ret, s1)"
    and rest: "(if sint ret < 0 then Inr (ret, s1) else add_calls add cs s1) = Inr (r, s')"
    by (auto simp: bindE_eq_Inr)
  have "g s1 = g s" by (rule assms(1) [OF a])
  with rest Cons.IH [of s1] show ?case by (cases "sint ret < 0") auto
qed

lemma append_frame:
  assumes "append_syscall_node km nr f l s = Inr (r, h, s')"
  shows "vec_modules.more s' = vec_modules.more s"
  using assms by (auto simp: append_syscall_node_def kmalloc_def Let_def bindE_eq_Inr split: if_splits)

lemma register_frame:
  assumes "register_syscall km n a m b s = Inr (r, s')"
  shows "vec_modules.more s' = vec_modules.more s"
  using assms by (auto simp: register_syscall_def mutex_lock_list_def mutex_unlock_list_def
      add_vector_address_def kmalloc_def Let_def bindE_eq_Inr split: if_splits)

lemma unregister_frame:
  assumes "unregister_syscall a s = Inr (r, s')" and "reg_inv s"
  shows "vec_modules.more s' = vec_modules.more s" and "reg_inv s'"
proof -
  note u = unregister_syscall_spec [OF assms(2), of a]
  show "vec_modules.more s' = vec_modules.more s"
    using assms(1) unfolding u by (auto split: option.splits if_splits)
  show "reg_inv s'"
    using assms reg_inv_delete [OF assms(2) index_bounds(2)] unfolding u
    by (auto split: option.splits if_splits)
qed

lemma v1_init_frame:
  fixes s s' :: syscall_state
  assumes "allocator_ok km" and "v1_listHead s = 0" and init: "v1_init_override km s = Inr (r, s')"
  shows "vec_modules.more s' = vec_modules.more s"
proof -
  have add: "vec_modules.more t' = vec_modules.more t"
    if "v1_add_syscall_to_vector km nr f t = Inr (q, t')" for nr f q and t t' :: syscall_state
    using that append_frame by (fastforce simp: v1_add_syscall_to_vector_def bindE_eq_Inr)
  from init obtain q s1 where a: "add_calls (v1_add_syscall_to_vector km) v1_calls s = Inr (q, s1)"
    and rest: "(if sint q < 0 then bindE (v1_delete_vector s1) (\<lambda>s. Inr (q, s))
      else register_syscall km v1_vector_name (v1_listHead s1) Mod_vector1
        (READ_OVERRIDE + WRITE_OVERRIDE + OPEN_OVERRIDE + LINK_OVERRIDE + UNLINK_OVERRIDE) s1) = Inr (r, s')"
    by (auto simp: v1_init_override_def v1_initVector_def bindE_eq_Inr)
  have m1: "vec_modules.more s1 = vec_modules.more s" by (rule add_calls_frame [OF add a])
  have "built (heap s) (heap s) (v1_listHead s) []" using assms(2) by simp
  from v1.add_calls_built [OF assms(1) this, of v1_calls] a obtain es where
    es: "v1_rest s1 = v1_rest s" "built (heap s) (heap s1) (v1_listHead s1) es" by auto
  show ?thesis
  proof (cases "sint q < 0")
    case True
    from sample1.delete_list [of s1 es] es(2) True rest have "v1_rest s' = v1_rest s1"
      by (auto simp: built_def)
    from arg_cong [OF this, of vec_modules.more] m1 show ?thesis by (simp add: v1_rest_def)
  next
    case False
    with rest m1 show ?thesis
      using register_frame [of km v1_vector_name "v1_listHead s1" Mod_vector1 _ s1 r s'] by simp
  qed
qed

lemma sys_inv_load_v1:
  assumes "sys_inv s" and "allocator_ok km" and "v1_listHead s = 0" and "v1_init_override km s = Inr (r, s')"
  shows "sys_inv s'"
proof (rule sys_inv_frame [OF assms(1) _ v1_init_frame [OF assms(2-4)]])
  have inv: "reg_inv s" using assms(1) by (simp add: sys_inv_def)
  show "reg_inv s'" using sample1.init_outcome [OF assms(2) inv assms(3)] assms(4) by auto
qed

lemma v2_init_frame:
  fixes s s' :: syscall_state
  assumes "allocator_ok km" and "v2_listHead s = 0" and init: "v2_init_override km s = Inr (r, s')"
  shows "vec_modules.more s' = vec_modules.more s"
proof -
  have add: "vec_modules.more t' = vec_modules.more t"
    if "v2_add_syscall_to_vector km nr f t = Inr (q, t')" for nr f q and t t' :: syscall_state
    using that append_frame by (fastforce simp: v2_add_syscall_to_vector_def bindE_eq_Inr)
  from init obtain q s1 where a: "add_calls (v2_add_syscall_to_vector km) v2_calls s = Inr (q, s1)"
    and rest: "(if sint q < 0 then bindE (v2_delete_vector s1) (\<lambda>s. Inr (q, s))
      else register_syscall km v2_vector_name (v2_listHead s1) Mod_vector2
        (MKDIR_OVERRIDE + RMDIR_OVERRIDE + WRITE_LOGGED + OPEN_BLOCKED + CLOSE_OVERRIDE) s1) = Inr (r, s')"
    by (auto simp: v2_init_override_def v2_initVector_def bindE_eq_Inr)
  have m1: "vec_modules.more s1 = vec_modules.more s" by (rule add_calls_frame [OF add a])
  have "built (heap s) (heap s) (v2_listHead s) []" using assms(2) by simp
  from v2.add_calls_built [OF assms(1) this, of v2_calls] a obtain es where
    es: "v2_rest s1 = v2_rest s" "built (heap s) (heap s1) (v2_listHead s1) es" by auto
  show ?thesis
  proof (cases "sint q < 0")
    case True
    from sample2.delete_list [of s1 es] es(2) True rest have "v2_rest s' = v2_rest s1"
      by (auto simp: built_def)
    from arg_cong [OF this, of vec_modules.more] m1 show ?thesis by (simp add: v2_rest_def)
  next
    case False
    with rest m1 show ?thesis
      using register_frame [of km v2_vector_name "v2_listHead s1" Mod_vector2 _ s1 r s'] by simp
  qed
qed

lemma sys_inv_load_v2:
  assumes "sys_inv s" and "allocator_ok km" and "v2_listHead s = 0" and "v2_init_override km s = Inr (r, s')"
  shows "sys_inv s'"
proof (rule sys_inv_frame [OF assms(1) _ v2_init_frame [OF assms(2-4)]])
  have inv: "reg_inv s" using assms(1) by (simp add: sys_inv_def)
  show "reg_inv s'" using sample2.init_outcome [OF assms(2) inv assms(3)] assms(4) by auto
qed

lemma sys_inv_rm_v1:
  assumes "sys_inv s" and "v1_cleanup_override s = Inr s'"
  shows "sys_inv s'"
proof -
  have inv: "reg_inv s" using assms(1) by (simp add: sys_inv_def)
  from assms(2) obtain r s1 where u: "unregister_syscall (v1_listHead s) s = Inr (r, s1)"
    and rest: "(if v1_listHead s1 \<noteq> 0 then v1_delete_vector s1 else Inr s1) = Inr s'"
    by (auto simp: v1_cleanup_override_def bindE_eq_Inr)
  note f = unregister_frame [OF u inv]
  have s1: "sys_inv s1" by (rule sys_inv_frame [OF assms(1) f(2,1)])
  show ?thesis
  proof (cases "v1_listHead s1 = 0")
    case True
    with rest s1 show ?thesis by simp
  next
    case False
    with rest obtain s2 where d: "free_syscall_list (v1_listHead s1) s1 = Inr s2"
      and s': "s' = s2\<lparr>v1_listHead := 0\<rparr>" by (auto simp: v1_delete_vector_def bindE_eq_Inr)
    from free_list_spares [OF d f(2)] s' have "reg_inv s'" "vec_modules.more s' = vec_modules.more s1"
      by (auto simp: reg_inv_def reg_ok_def)
    then show ?thesis by (rule sys_inv_frame [OF s1])
  qed
qed

lemma sys_inv_rm_v2:
  assumes "sys_inv s" and "v2_cleanup_override s = Inr s'"
  shows "sys_inv s'"
proof -
  have inv: "reg_inv s" using assms(1) by (simp add: sys_inv_def)
  from assms(2) obtain r s1 where u: "unregister_syscall (v2_listHead s) s = Inr (r, s1)"
    and rest: "(if v2_listHead s1 \<noteq> 0 then v2_delete_vector s1 else Inr s1) = Inr s'"
    by (auto simp: v2_cleanup_override_def bindE_eq_Inr)
  note f = unregister_frame [OF u inv]
  have s1: "sys_inv s1" by (rule sys_inv_frame [OF assms(1) f(2,1)])
  show ?thesis
  proof (cases "v2_listHead s1 = 0")
    case True
    with rest s1 show ?thesis by simp
  next
    case False
    with rest obtain s2 where d: "free_syscall_list (v2_listHead s1) s1 = Inr s2"
      and s': "s' = s2\<lparr>v2_listHead := 0\<rparr>" by (auto simp: v2_delete_vector_def bindE_eq_Inr)
    from free_list_spares [OF d f(2)] s' have "reg_inv s'" "vec_modules.more s' = vec_modules.more s1"
      by (auto simp: reg_inv_def reg_ok_def)
    then show ?thesis by (rule sys_inv_frame [OF s1])
  qed
qed

subsection \<open>The dynamic vectors and the clone\<close>

lemma sys_inv_cleanup_loop:
  assumes "dyn_cleanup_loop js s = Inr s'" and "sys_inv s"
  shows "sys_inv s'"
  using assms
proof (induction js arbitrary: s)
  case Nil
  then show ?case by simp
next
  case (Cons j js)
  have "j < length (list_heads s)" using Cons.prems(1) by (simp split: if_splits)
  with Cons.prems(1) obtain r s1 s2 where u: "unregister_syscall (list_heads s ! j) s = Inr (r, s1)"
    and d: "(if list_heads s1 ! j \<noteq> 0 then dyn_delete_vector (list_heads s1 ! j) s1 else Inr s1) = Inr s2"
    and rest: "dyn_cleanup_loop js s2 = Inr s'" by (auto simp: bindE_eq_Inr)
  have inv: "reg_inv s" using Cons.prems(2) by (simp add: sys_inv_def)
  note f = unregister_frame [OF u inv]
  have s1: "sys_inv s1" by (rule sys_inv_frame [OF Cons.prems(2) f(2,1)])
  have "sys_inv s2"
  proof (cases "list_heads s1 ! j = 0")
    case False
    with d free_list_spares [OF _ f(2)] have "reg_inv s2" "vec_modules.more s2 = vec_modules.more s1"
      by (fastforce simp: dyn_delete_vector_def)+
    then show ?thesis by (rule sys_inv_frame [OF s1])
  qed (use d s1 in simp)
  from Cons.IH [OF rest this] show ?case .
qed

lemma length_zero_loop: "length (foldl (\<lambda>hs i. hs[i := a]) hs is) = length hs"
  by (induction "is" arbitrary: hs) auto

lemma sys_inv_take_ref: "sys_inv s \<Longrightarrow> sys_inv (take_ref i s)"
  by (simp add: sys_inv_def reg_inv_ref)

lemma sys_inv_clone2:
  assumes s: "sys_inv s" and r: "sys_clone2 (fork_child child) flags st ptid tls ctid vid s = Inr (e, s')"
  shows "sys_inv s'"
proof -
  have vi: "sys_inv (t\<lparr>vector_info := v\<rparr>)" if "sys_inv t" for t v
    using that by (simp add: sys_inv_def reg_inv_def reg_ok_def)
  have fork: "sys_inv t'" if t: "sys_inv t" and f: "fork_child child flags a b c d e g t = Inr (q, t')"
    for a b c d e g q t t'
  proof -
    have ok: "reg_ok t" using t by (simp add: sys_inv_def reg_inv_def)
    from f show ?thesis
      unfolding fork_child_def copy_vector_info_spec [OF ok] Let_def
      by (auto simp: vi t sys_inv_take_ref split: if_splits option.splits)
  qed
  have ok: "reg_ok s" using s by (simp add: sys_inv_def reg_inv_def)
  show ?thesis
  proof (cases "flags AND CLONE_SYSCALLS = 0")
    case True
    from r fork [OF s] fork [OF sys_inv_take_ref [OF s]] show ?thesis
      unfolding sys_clone2_by_id [OF ok True] Let_def by (auto split: option.splits)
  next
    case False
    from r s fork [OF sys_inv_take_ref [OF s]] show ?thesis
      unfolding sys_clone2_inherit [OF ok False] by (auto split: option.splits)
  qed
qed

text \<open>Every step keeps the invariant, so it holds in every reachable state.\<close>

lemma sys_inv_step:
  assumes "sys_step km s s'" and "allocator_ok km" and "sys_inv s"
  shows "sys_inv s'"
  using assms(1)
proof cases
  case load_v1
  then show ?thesis using assms(2,3) sys_inv_load_v1 by blast
next
  case load_v2
  then show ?thesis using assms(2,3) sys_inv_load_v2 by blast
next
  case load_dyn
  with assms(3) show ?thesis
    by (auto simp: dyn_init_override_def sys_inv_def reg_inv_def reg_ok_def length_zero_loop)
next
  case rm_v1
  then show ?thesis using assms(3) sys_inv_rm_v1 by blast
next
  case rm_v2
  then show ?thesis using assms(3) sys_inv_rm_v2 by blast
next
  case rm_dyn
  then obtain s1 where s1: "dyn_cleanup_loop [0..<dyn_i s] s = Inr s1" "s' = s1\<lparr>dyn_i := 0\<rparr>"
    by (auto simp: dyn_cleanup_override_def bindE_eq_Inr)
  from sys_inv_cleanup_loop [OF s1(1) assms(3)] s1(2) show ?thesis
    by (simp add: sys_inv_def reg_inv_def reg_ok_def)
next
  case (ioctl u req p err)
  from custom_ioctl_Inr [OF ioctl(2) assms(2)] assms(3) show ?thesis by (simp add: sys_inv_def)
next
  case clone2
  then show ?thesis using assms(3) sys_inv_clone2 by blast
next
  case (load_ioctl ret r)
  with assms(3) show ?thesis
    by (simp add: init_ioctl_module_def sys_inv_def reg_inv_def reg_ok_def split: if_splits) auto
next
  case load_clone2
  with assms(3) show ?thesis
    by (auto simp: init_sys_clone2_def sys_inv_def reg_inv_def reg_ok_def split: if_splits)
qed (use assms(3) in \<open>simp_all add: exit_ioctl_module_def exit_sys_clone2_def sys_inv_def reg_inv_def reg_ok_def\<close>)

lemma reachable_sys_inv: "reachable km s \<Longrightarrow> allocator_ok km \<Longrightarrow> sys_inv s"
proof (induction rule: reachable.induct)
  case start
  show ?case by (rule sys_inv_boot)
next
  case (step s s')
  then show ?case by (blast intro: sys_inv_step)
qed

end
