(* ===== verification/Vec_Copy.thy ===== *)
theory Vec_Copy
  imports Vec_Registry
begin

text \<open>
  The earlier registry \<open>vec_copy.c\<close>: the same list and reference counts, with vectors numbered by
  \<open>vector_count\<close>, without bitmaps, printing names only, and with two vectors of its own.
\<close>

section \<open>State and operations\<close>

record vc_registry = registry +
  vector_count :: cint

definition vc_vec_line :: "struct_vector \<Rightarrow> nat \<times> char list \<Rightarrow> (nat \<times> char list) cres" where
  "vc_vec_line v out =
     bindE (strlen (vector_name v)) (\<lambda>vec_len.
     bindE (read_bytes vec_len (vector_name v)) (\<lambda>nm. emit_line nm out))"

fun vc_show_all_loop :: "struct_vector list \<Rightarrow> nat \<times> char list \<Rightarrow> (nat \<times> char list) cres" where
  "vc_show_all_loop [] (ret, buf) = Inr (ret, buf)"
| "vc_show_all_loop (v # vs) (ret, buf) =
     (if ret > MAX_BUFFER_SIZE then Inr (ret, buf)
      else bindE (vc_vec_line v (ret, buf)) (vc_show_all_loop vs))"

definition vc_show_all_vectors :: "char list \<Rightarrow> 'a vc_registry_scheme \<Rightarrow> (nat \<times> char list) cres" where
  "vc_show_all_vectors user_buffer s =
     bindE (vc_show_all_loop (vec_list s) (0, kzalloc_chars MAX_BUFFER_SIZE)) (\<lambda>(ret, buffer).
     bindE (read_bytes ret buffer) (\<lambda>bytes.
     bindE (write_at 0 bytes user_buffer) (\<lambda>user_buffer.
     Inr (ret, user_buffer))))"

definition vc_show_my_vector ::
  "char list option \<Rightarrow> addr \<Rightarrow> 'a vc_registry_scheme \<Rightarrow> (cint \<times> char list option) cres" where
  "vc_show_my_vector user_buffer vector_addr s =
     (case user_buffer of
        None \<Rightarrow> Inr (- EFAULT, None)
      | Some buf \<Rightarrow>
          if vector_addr = 0 then Inr (- EFAULT, Some buf)
          else
            bindE (list_scan (\<lambda>v. Inr (overriddenSyscalls_address v = vector_addr)) (vec_list s))
              (\<lambda>hit. case hit of
                 None \<Rightarrow> Inr (0, Some buf)
               | Some i \<Rightarrow>
                   bindE (strlen (vector_name (vec_list s ! i))) (\<lambda>vec_len.
                   bindE (read_bytes vec_len (vector_name (vec_list s ! i))) (\<lambda>nm.
                   bindE (write_at 0 nm buf) (\<lambda>buf. Inr (of_nat vec_len, Some buf))))))"

definition vc_add_vector_address ::
  "allocator \<Rightarrow> char list \<Rightarrow> addr \<Rightarrow> kmodule \<Rightarrow> 'a vc_registry_scheme \<Rightarrow> (cint \<times> 'a vc_registry_scheme) cres" where
  "vc_add_vector_address km name vector_address vmod s =
     (let (va, s) = kmalloc km Vector_node s in
      if va = 0 then Inr (- ENOMEM, s)
      else if is_err va then Inr (ucast va, s)
      else
        let s = s\<lparr>vector_count := vector_count s + 1\<rparr> in
        bindE (strlen name) (\<lambda>n.
        bindE (read_bytes n name) (\<lambda>bytes.
        bindE (write_at 0 bytes (kzalloc_chars MAX_VECTOR_NAME_LEN)) (\<lambda>stored.
        Inr (0, s\<lparr>vec_list := \<lparr>node_ptr = va, vector_id = scast (vector_count s), vector_name = stored,
            overriddenSyscalls_address = vector_address, refcount = 0, overfuncs_bitmap = 0,
            vector_module = vmod\<rparr> # vec_list s\<rparr>)))))"

definition vc_remove_vector_address ::
  "addr \<Rightarrow> 'a vc_registry_scheme \<Rightarrow> (cint \<times> 'a vc_registry_scheme) cres" where
  "vc_remove_vector_address vector_address s =
     bindE (list_scan (\<lambda>v. Inr (overriddenSyscalls_address v = vector_address)) (vec_list s))
       (\<lambda>hit. case hit of
          None \<Rightarrow> Inr (- EFAULT, s)
        | Some i \<Rightarrow>
            let tmp = vec_list s ! i in
            if sint (refcount tmp) > 0 then Inr (- 2222, s)
            else bindE (kfree (node_ptr tmp) (s\<lparr>vec_list := list_del i (vec_list s)\<rparr>)) (\<lambda>s.
                 Inr (0, s)))"

definition vc_register_syscall ::
  "allocator \<Rightarrow> char list \<Rightarrow> addr \<Rightarrow> kmodule \<Rightarrow> 'a vc_registry_scheme \<Rightarrow> (cint \<times> 'a vc_registry_scheme) cres" where
  "vc_register_syscall km name vector_address vmod s =
     bindE (mutex_lock_list s) (\<lambda>s.
     bindE (vc_add_vector_address km name vector_address vmod s) (\<lambda>(ret, s).
     Inr (ret, mutex_unlock_list s)))"

definition vc_unregister_syscall ::
  "addr \<Rightarrow> 'a vc_registry_scheme \<Rightarrow> (cint \<times> 'a vc_registry_scheme) cres" where
  "vc_unregister_syscall vector_address s =
     bindE (mutex_lock_list s) (\<lambda>s.
     bindE (vc_remove_vector_address vector_address s) (\<lambda>(ret, s).
     Inr (ret, mutex_unlock_list s)))"

definition vc_get_vector_address ::
  "char list \<Rightarrow> 'a vc_registry_scheme \<Rightarrow> (addr \<times> 'a vc_registry_scheme) cres" where
  "vc_get_vector_address name s =
     bindE (mutex_lock_list s) (\<lambda>s.
     bindE (list_scan (\<lambda>v. strcmp_eq name (vector_name v)) (vec_list s)) (\<lambda>hit.
     let (va, s) = (case hit of
           None \<Rightarrow> (0, s)
         | Some i \<Rightarrow>
             let s = add_refcount i 1 s;
                 s = try_module_get (vector_module (vec_list s ! i)) s
             in (overriddenSyscalls_address (vec_list s ! i), s))
     in Inr (va, mutex_unlock_list s)))"

definition vc_reduce_ref_count ::
  "char list \<Rightarrow> 'a vc_registry_scheme \<Rightarrow> (cint \<times> 'a vc_registry_scheme) cres" where
  "vc_reduce_ref_count name s =
     bindE (mutex_lock_list s) (\<lambda>s.
     bindE (list_scan (\<lambda>v. strcmp_eq name (vector_name v)) (vec_list s)) (\<lambda>hit.
     let (ref_cnt, s) = (case hit of
           None \<Rightarrow> (- 1, s)
         | Some i \<Rightarrow>
             let s = add_refcount i (- 1) s
             in (refcount (vec_list s ! i), module_put (vector_module (vec_list s ! i)) s))
     in Inr (ref_cnt, mutex_unlock_list s)))"

text \<open>
  \<open>init_module\<close>: two scratch structures only lend their name arrays; \<open>&first->vector_name\<close> is 8
  bytes into the structure, which is 304 bytes long.
\<close>

definition vc_name :: "string \<Rightarrow> char list" where
  "vc_name n = n @ replicate (MAX_VECTOR_NAME_LEN - length n) NUL"

definition vc_init_module ::
  "allocator \<Rightarrow> 'a vc_registry_scheme \<Rightarrow> (cint \<times> 'a vc_registry_scheme) cres" where
  "vc_init_module km s =
     (let s = s\<lparr>vector_count := 0, list_lock := False\<rparr>;
          (first, s) = kmalloc km (Raw 304) s in
      if first = 0 then Inr (- ENOMEM, s)
      else
        let (second, s) = kmalloc km (Raw 304) s in
        if second = 0 then bindE (kfree first s) (\<lambda>s. Inr (- ENOMEM, s))
        else
          bindE (mutex_lock_list s) (\<lambda>s.
          bindE (vc_add_vector_address km (vc_name ''Vector1'') (first + 8) Mod_vec_copy s) (\<lambda>(ret, s).
          bindE (vc_add_vector_address km (vc_name ''Vector2'') (second + 8) Mod_vec_copy s) (\<lambda>(ret, s).
          Inr (ret, mutex_unlock_list s)))))"

text \<open>\<open>list_for_each_safe\<close> of \<open>cleanup_module\<close>: the nodes left in the list, and the state.\<close>

fun vc_free_unused ::
  "struct_vector list \<Rightarrow> 'a vc_registry_scheme \<Rightarrow> (struct_vector list \<times> 'a vc_registry_scheme) cres" where
  "vc_free_unused [] s = Inr ([], s)"
| "vc_free_unused (tmp # vs) s =
     (if refcount tmp = 0 then bindE (kfree (node_ptr tmp) s) (vc_free_unused vs)
      else bindE (vc_free_unused vs s) (\<lambda>(left, s). Inr (tmp # left, s)))"

definition vc_cleanup_module :: "'a vc_registry_scheme \<Rightarrow> ('a vc_registry_scheme) cres" where
  "vc_cleanup_module s =
     bindE (vc_free_unused (vec_list s) s) (\<lambda>(left, s). Inr (s\<lparr>vec_list := left\<rparr>))"

section \<open>The same contract\<close>

lemma vc_get_spec:
  assumes "reg_ok s" and "terminated name"
  shows "vc_get_vector_address name s = Inr (case name_index (c_string name) s of
      None \<Rightarrow> (0, s)
    | Some i \<Rightarrow> (overriddenSyscalls_address (vec_list s ! i), take_ref i s))"
  using scan_names [OF assms] reg_okD(1) [OF assms(1)]
  by (auto simp: vc_get_vector_address_def ref_defs Let_def index_bounds split: option.splits)

lemma vc_reduce_spec:
  assumes "reg_ok s" and "terminated name"
  shows "vc_reduce_ref_count name s = Inr (case name_index (c_string name) s of
      None \<Rightarrow> (- 1, s)
    | Some i \<Rightarrow> (refcount (vec_list s ! i) - 1, drop_ref i s))"
  using scan_names [OF assms] reg_okD(1) [OF assms(1)]
  by (auto simp: vc_reduce_ref_count_def ref_defs Let_def index_bounds split: option.splits)

text \<open>The second provider of the reference-counting contract.\<close>

interpretation vc_by_name: ref_counted reg_ok terminated c_string view_name
  vc_get_vector_address "\<lambda>a. a" 0 vc_reduce_ref_count
proof unfold_locales
  fix s :: "'a vc_registry_scheme" and q a r
  assume a: "reg_ok s" "terminated q" "view_name s (c_string q) = Some (a, r)"
  show "\<exists>s'. vc_get_vector_address q s = Inr (a, s') \<and> reg_ok s'
      \<and> view_name s' = (view_name s)(c_string q \<mapsto> (a, r + 1))"
    using by_name.acquire_hit [OF a] a by (simp add: vc_get_spec get_vector_address_spec)
  show "\<exists>s'. vc_reduce_ref_count q s = Inr (r - 1, s') \<and> reg_ok s'
      \<and> view_name s' = (view_name s)(c_string q \<mapsto> (a, r - 1))"
    using by_name.release_hit [OF a] a by (simp add: vc_reduce_spec reduce_ref_count_spec)
next
  fix s :: "'a vc_registry_scheme" and q
  assume a: "reg_ok s" "terminated q" "view_name s (c_string q) = None"
  show "vc_get_vector_address q s = Inr (0, s)"
    using by_name.acquire_miss [OF a] a by (simp add: vc_get_spec get_vector_address_spec)
  show "vc_reduce_ref_count q s = Inr (- 1, s)"
    using by_name.release_miss [OF a] a by (simp add: vc_reduce_spec reduce_ref_count_spec)
qed

lemma vc_unregister_same: "vc_unregister_syscall = unregister_syscall"
  by (intro ext) (simp add: vc_unregister_syscall_def unregister_syscall_def
      vc_remove_vector_address_def remove_vector_address_def)

section \<open>Names\<close>

lemma vc_vec_line_put:
  assumes "terminated (vector_name v)"
  shows "vc_vec_line v (length p, p @ q) = put_text p (c_string (vector_name v) @ [NL]) q"
  using assms length_c_string_less [OF assms]
  by (simp add: vc_vec_line_def strlen_def read_bytes_def take_c_string emit_line_put)

definition vc_text :: "struct_vector list \<Rightarrow> string" where
  "vc_text vs = concat (map (\<lambda>v. c_string (vector_name v) @ [NL]) vs)"

lemma vc_show_all_loop_put:
  assumes "\<forall>v \<in> set vs. terminated (vector_name v)" and "length (p @ q) \<le> MAX_BUFFER_SIZE"
  shows "vc_show_all_loop vs (length p, p @ q) = put_text p (vc_text vs) q"
  using assms
proof (induction vs arbitrary: p q)
  case Nil
  then show ?case by (simp add: vc_text_def)
next
  case (Cons v vs)
  let ?t = "c_string (vector_name v) @ [NL]"
  have step: "vc_show_all_loop (v # vs) (length p, p @ q) = bindE (put_text p ?t q) (vc_show_all_loop vs)"
    using Cons.prems vc_vec_line_put [of v p q] by simp
  show ?case
  proof (cases "length ?t \<le> length q")
    case True
    then have "vc_show_all_loop vs (length (p @ ?t), (p @ ?t) @ drop (length ?t) q) =
        put_text (p @ ?t) (vc_text vs) (drop (length ?t) q)"
      using Cons.prems by (intro Cons.IH) auto
    with True step show ?thesis by (auto simp: put_text_def vc_text_def add.commute)
  next
    case False
    with step show ?thesis by (simp add: put_text_def vc_text_def)
  qed
qed

lemma vc_show_all_spec:
  assumes "reg_ok s"
  shows "vc_show_all_vectors ub s =
    (let t = vc_text (vec_list s)
     in if length t \<le> MAX_BUFFER_SIZE \<and> length t \<le> length ub
        then Inr (length t, t @ drop (length t) ub) else Inl Buffer_overflow)"
proof -
  have "vc_show_all_loop (vec_list s) (0, kzalloc_chars MAX_BUFFER_SIZE) =
      put_text [] (vc_text (vec_list s)) (kzalloc_chars MAX_BUFFER_SIZE)"
    using vc_show_all_loop_put [of "vec_list s" "[]" "kzalloc_chars MAX_BUFFER_SIZE"] assms
    by (simp add: kzalloc_chars_def reg_ok_def)
  then show ?thesis
    by (simp add: vc_show_all_vectors_def put_text_def kzalloc_chars_def write_at_append_0 Let_def)
qed

lemma vc_show_my_spec:
  assumes "reg_ok s" and "a \<noteq> 0" and "addr_index a s = Some i"
    and "length (c_string (vector_name (vec_list s ! i))) \<le> length buf"
  shows "vc_show_my_vector (Some buf) a s =
    (let t = c_string (vector_name (vec_list s ! i))
     in Inr (of_nat (length t), Some (t @ drop (length t) buf)))"
proof -
  let ?v = "vec_list s ! i"
  have t: "terminated (vector_name ?v)" using assms(1) index_bounds(2) [OF assms(3)] by (simp add: reg_ok_def)
  with assms length_c_string_less [OF t] show ?thesis
    by (simp add: vc_show_my_vector_def addr_index_def strlen_def read_bytes_def take_c_string
        write_at_append_0 Let_def)
qed

section \<open>Identifiers\<close>

text \<open>Ids are handed out in order, so they are distinct and at most \<open>vector_count\<close>.\<close>

definition ids_ok :: "'a vc_registry_scheme \<Rightarrow> bool" where
  "ids_ok s \<longleftrightarrow> distinct (map vector_id (vec_list s))
     \<and> (\<forall>v \<in> set (vec_list s). 0 < vector_id v \<and> unat (vector_id v) \<le> unat (vector_count s))
     \<and> unat (vector_count s) < 2 ^ 31"

definition vc_registered ::
  "allocator \<Rightarrow> string \<Rightarrow> addr \<Rightarrow> kmodule \<Rightarrow> 'a vc_registry_scheme \<Rightarrow> cint \<times> 'a vc_registry_scheme" where
  "vc_registered km n a m s =
     (let va = km (tick s) (heap s); c = vector_count s + 1
      in if va = 0 then (- ENOMEM, s\<lparr>tick := Suc (tick s)\<rparr>)
         else (0, s\<lparr>tick := Suc (tick s), heap := (heap s)(va \<mapsto> Vector_node), vector_count := c,
                    vec_list := (stored_vector va n a 0 m 0)\<lparr>vector_id := scast c\<rparr> # vec_list s\<rparr>))"

lemma vc_add_spec:
  assumes "allocator_ok km" and "name_ok name"
  shows "vc_add_vector_address km name a m s = Inr (vc_registered km (c_string name) a m s)"
proof -
  from assms(2) have t: "terminated name" and "length (c_string name) < 256"
    by (simp_all add: name_ok_def MAX_VECTOR_NAME_LEN_def)
  moreover have "length (c_string name) \<le> length name" using length_c_string_less [OF t] by simp
  ultimately show ?thesis using allocator_okD(2) [OF assms(1)]
    by (simp add: vc_add_vector_address_def kmalloc_ok [OF assms(1)] vc_registered_def Let_def
        strlen_def read_bytes_def take_c_string write_at_def kzalloc_chars_def
        MAX_VECTOR_NAME_LEN_def stored_vector_def)
qed

lemma vc_register_spec:
  assumes "allocator_ok km" and "reg_ok s" and "name_ok name"
  shows "vc_register_syscall km name a m s = Inr (vc_registered km (c_string name) a m s)"
  using reg_okD(1) [OF assms(2)] vc_add_spec [OF assms(1,3), of a m "s\<lparr>list_lock := True\<rparr>"]
  by (simp add: vc_register_syscall_def mutex_lock_list_def mutex_unlock_list_def vc_registered_def Let_def)

lemma ids_ok_registered:
  assumes "ids_ok s" and "unat (vector_count s) + 1 < 2 ^ 31"
  shows "ids_ok (snd (vc_registered km n a m s))"
proof (cases "km (tick s) (heap s) = 0")
  case True
  with assms(1) show ?thesis by (simp add: vc_registered_def ids_ok_def)
next
  case False
  let ?c = "vector_count s + 1"
  have c: "unat ?c = unat (vector_count s) + 1"
    using assms(2) by (subst unat_add_lem [THEN iffD1]) simp_all
  have "sint ?c = int (unat ?c)" using assms(2) c by (intro sint_small) simp
  then have id: "(scast ?c :: ulong) = of_nat (unat ?c)" by (simp add: scast_eq)
  have u: "unat (scast ?c :: ulong) = unat ?c"
    using assms(2) c unfolding id unat_of_nat by simp
  then have "(scast ?c :: ulong) > 0" using c by (simp add: word_less_nat_alt)
  moreover have "scast ?c \<notin> vector_id ` set (vec_list s)"
    using assms(1) u c by (force simp: ids_ok_def)
  moreover have "unat (vector_id v) \<le> unat ?c" if "v \<in> set (vec_list s)" for v
    using assms(1) that c by (fastforce simp: ids_ok_def)
  ultimately show ?thesis using assms False u c
    by (simp add: vc_registered_def Let_def ids_ok_def)
qed

section \<open>Loading and removal\<close>

text \<open>\<open>cleanup_module\<close> on vectors without references takes all of them off, and their memory.\<close>

lemma vc_free_unused_all:
  assumes "distinct (map node_ptr vs)"
    and "\<forall>v \<in> set vs. refcount v = 0 \<and> node_ptr v \<noteq> 0 \<and> heap s (node_ptr v) \<noteq> None"
  shows "vc_free_unused vs s = Inr ([], s\<lparr>heap := heap s |` (- node_ptr ` set vs)\<rparr>)"
  using assms
proof (induction vs arbitrary: s)
  case Nil
  then show ?case by simp
next
  case (Cons v vs)
  let ?s = "s\<lparr>heap := (heap s)(node_ptr v := None)\<rparr>"
  have "kfree (node_ptr v) s = Inr ?s" using Cons.prems(2) by (intro kfree_live) simp_all
  moreover have "vc_free_unused vs ?s = Inr ([], ?s\<lparr>heap := heap ?s |` (- node_ptr ` set vs)\<rparr>)"
  proof (rule Cons.IH)
    show "distinct (map node_ptr vs)" using Cons.prems(1) by simp
    have "node_ptr w \<noteq> node_ptr v" if "w \<in> set vs" for w
      using Cons.prems(1) that by (metis distinct.simps(2) image_eqI list.set_map list.simps(9))
    then show "\<forall>w \<in> set vs. refcount w = 0 \<and> node_ptr w \<noteq> 0 \<and> heap ?s (node_ptr w) \<noteq> None"
      using Cons.prems(2) by simp
  qed
  moreover have "(heap s)(node_ptr v := None) |` (- node_ptr ` set vs) = heap s |` (- node_ptr ` set (v # vs))"
    by (rule ext) (simp add: restrict_map_def)
  ultimately show ?case using Cons.prems(2) by simp
qed

text \<open>Every vector can be taken off, and freeing them leaves the memory \<open>base\<close>.\<close>

definition removable :: "heap \<Rightarrow> 'a vc_registry_scheme \<Rightarrow> bool" where
  "removable base s \<longleftrightarrow> base = heap s |` (- node_ptr ` set (vec_list s))
     \<and> distinct (map node_ptr (vec_list s))
     \<and> (\<forall>v \<in> set (vec_list s). refcount v = 0 \<and> node_ptr v \<noteq> 0 \<and> heap s (node_ptr v) \<noteq> None)"

lemma vc_cleanup_removable:
  "removable base s \<Longrightarrow> vc_cleanup_module s = Inr (s\<lparr>vec_list := [], heap := base\<rparr>)"
  by (simp add: removable_def vc_cleanup_module_def vc_free_unused_all)

lemma removable_empty: "vec_list s = [] \<Longrightarrow> removable (heap s) s"
  unfolding removable_def restrict_map_def by simp

lemma removable_registered:
  assumes "allocator_ok km" and "removable base s"
  shows "removable base (snd (vc_registered km n a m s))"
proof (cases "km (tick s) (heap s) = 0")
  case True
  with assms(2) show ?thesis by (simp add: vc_registered_def removable_def)
next
  case False
  let ?va = "km (tick s) (heap s)"
  have fresh: "heap s ?va = None" by (rule allocator_okD(1) [OF assms(1) False])
  then have new: "?va \<notin> node_ptr ` set (vec_list s)" using assms(2) by (force simp: removable_def)
  have "(heap s)(?va \<mapsto> Vector_node) |` (- insert ?va (node_ptr ` set (vec_list s))) =
      heap s |` (- node_ptr ` set (vec_list s))"
    using fresh by (intro ext) (simp add: restrict_map_def)
  with False new assms(2) show ?thesis
    by (auto simp: removable_def vc_registered_def Let_def stored_vector_def)
qed

lemma vc_name_ok:
  assumes "length n < MAX_VECTOR_NAME_LEN" and "NUL \<notin> set n"
  shows "name_ok (vc_name n)" and "c_string (vc_name n) = n"
proof -
  have "vc_name n = n @ NUL # replicate (MAX_VECTOR_NAME_LEN - length n - 1) NUL"
    using assms(1) by (simp add: vc_name_def flip: replicate_Suc)
  then show "name_ok (vc_name n)" and "c_string (vc_name n) = n"
    using assms by (simp_all add: name_ok_def c_string_append_terminated)
qed

definition vc_loaded :: "allocator \<Rightarrow> addr \<Rightarrow> addr \<Rightarrow> 'a vc_registry_scheme \<Rightarrow> cint \<times> 'a vc_registry_scheme" where
  "vc_loaded km f g s =
     vc_registered km ''Vector2'' (g + 8) Mod_vec_copy
       (snd (vc_registered km ''Vector1'' (f + 8) Mod_vec_copy
         (s\<lparr>tick := tick s + 2, heap := (heap s)(f \<mapsto> Raw 304, g \<mapsto> Raw 304), vector_count := 0, list_lock := False\<rparr>)))"

lemma vc_init_spec:
  assumes "allocator_ok km"
  shows "vc_init_module km s =
    (let f = km (tick s) (heap s); g = km (Suc (tick s)) ((heap s)(f \<mapsto> Raw 304)); s0 = s\<lparr>vector_count := 0, list_lock := False\<rparr>
     in Inr (if f = 0 then (- ENOMEM, s0\<lparr>tick := Suc (tick s)\<rparr>)
        else if g = 0 then (- ENOMEM, s0\<lparr>tick := tick s + 2\<rparr>)
        else vc_loaded km f g s))"
proof -
  have n: "name_ok (vc_name ''Vector1'')" "c_string (vc_name ''Vector1'') = ''Vector1''"
      "name_ok (vc_name ''Vector2'')" "c_string (vc_name ''Vector2'') = ''Vector2''"
    by (rule vc_name_ok; simp add: MAX_VECTOR_NAME_LEN_def)+
  let ?f = "km (tick s) (heap s)"
  have free: "kfree ?f (s\<lparr>vector_count := 0, list_lock := False, heap := (heap s)(?f \<mapsto> b), tick := t\<rparr>)
      = Inr (s\<lparr>vector_count := 0, list_lock := False, tick := t\<rparr>)" if "?f \<noteq> 0" for t b
  proof -
    have "(heap s)(?f := None) = heap s"
      using allocator_okD(1) [OF assms that] by (rule fun_upd_idem)
    with that show ?thesis by (cases s) (simp add: kfree_def)
  qed
  show ?thesis
    by (simp add: vc_init_module_def kmalloc_ok [OF assms] Let_def vc_add_spec [OF assms] n free
        mutex_lock_list_def mutex_unlock_list_def vc_loaded_def vc_registered_def split: prod.split)
qed

text \<open>The text keys of a registry: names with addresses, in list order.\<close>

definition vc_named :: "'a registry_scheme \<Rightarrow> (string \<times> addr) list" where
  "vc_named s = map (\<lambda>v. (c_string (vector_name v), overriddenSyscalls_address v)) (vec_list s)"

lemma vc_named_registered:
  assumes "n \<in> {''Vector1'', ''Vector2''}" and "r = vc_registered km n a m s"
  shows "vc_named (snd r) = (if fst r = 0 then [(n, a)] else []) @ vc_named s" and "fst r = 0 \<or> fst r = - ENOMEM"
proof -
  have "c_string (vector_name (stored_vector va n a 0 m 0)) = n" for va
    using assms(1) stored_vector_name [of "vc_name n" va a 0 m 0] vc_name_ok [of n]
    by (auto simp: MAX_VECTOR_NAME_LEN_def)
  then show "vc_named (snd r) = (if fst r = 0 then [(n, a)] else []) @ vc_named s" and "fst r = 0 \<or> fst r = - ENOMEM"
    by (simp_all add: assms(2) vc_registered_def Let_def vc_named_def)
qed

lemma vc_loaded_spec:
  assumes "allocator_ok km" and "vec_list s = []"
    and "vc_loaded km f g s = (r, s1)"
  shows "vc_cleanup_module s1 = Inr (s1\<lparr>vec_list := [], heap := (heap s)(f \<mapsto> Raw 304, g \<mapsto> Raw 304)\<rparr>)"
    and "\<exists>b1 b2. vc_named s1 = (if b2 then [(''Vector2'', g + 8)] else []) @ (if b1 then [(''Vector1'', f + 8)] else [])
      \<and> r = (if b2 then 0 else - ENOMEM)"
proof -
  let ?h = "(heap s)(f \<mapsto> Raw 304, g \<mapsto> Raw 304)"
  let ?s0 = "s\<lparr>tick := tick s + 2, heap := ?h, vector_count := 0, list_lock := False\<rparr>"
  let ?s1 = "snd (vc_registered km ''Vector1'' (f + 8) Mod_vec_copy ?s0)"
  have s1: "(r, s1) = vc_registered km ''Vector2'' (g + 8) Mod_vec_copy ?s1"
    using assms(3) by (simp add: vc_loaded_def)
  have "removable ?h ?s0" using removable_empty [of ?s0] assms(2) by simp
  then have "removable ?h s1"
    using removable_registered [OF assms(1)] s1 by (metis snd_conv)
  then show "vc_cleanup_module s1 = Inr (s1\<lparr>vec_list := [], heap := ?h\<rparr>)"
    by (rule vc_cleanup_removable)
  show "\<exists>b1 b2. vc_named s1 = (if b2 then [(''Vector2'', g + 8)] else []) @ (if b1 then [(''Vector1'', f + 8)] else [])
      \<and> r = (if b2 then 0 else - ENOMEM)"
    using vc_named_registered [OF _ s1] vc_named_registered [of "''Vector1''", OF _ refl, of km "f + 8" Mod_vec_copy ?s0]
    by (intro exI [of _ "fst (vc_registered km ''Vector1'' (f + 8) Mod_vec_copy ?s0) = 0"] exI [of _ "r = 0"])
      (auto simp: vc_named_def assms(2))
qed

end
