(* ===== verification/Display_Client.thy ===== *)
theory Display_Client
  imports Vector_Modules
begin

text \<open>
  The reader of what \<open>IOCTL_SHOW_ALL\<close> returns: \<open>display_vectors\<close> of \<open>demo/user_ioctl1.c\<close> splits the
  text at newlines and prints every third token as a name, an id and a bitmap. Its output is the
  list of the strings it prints.
\<close>

section \<open>Definitions\<close>

text \<open>The tokens \<open>strtok(buf, "\n")\<close> gives one after the other: the pieces that are not empty.\<close>

fun strtok_nl :: "string \<Rightarrow> string \<Rightarrow> string list" where
  "strtok_nl acc [] = (if acc = [] then [] else [acc])"
| "strtok_nl acc (c # cs) =
     (if c = NL then (if acc = [] then strtok_nl [] cs else acc # strtok_nl [] cs)
      else strtok_nl (acc @ [c]) cs)"

text \<open>\<open>strtol(token, &ptr, 10)\<close>: blanks, a sign, digits; saturated to a \<open>long\<close>.\<close>

definition digit_value :: "char \<Rightarrow> nat" where
  "digit_value c = (case first_index (\<lambda>d. d = c) ''0123456789'' of None \<Rightarrow> 0 | Some i \<Rightarrow> i)"

definition is_digit :: "char \<Rightarrow> bool" where
  "is_digit c \<longleftrightarrow> c \<in> set ''0123456789''"

definition digits_value :: "string \<Rightarrow> nat" where
  "digits_value s = foldl (\<lambda>n c. 10 * n + digit_value c) 0 (takeWhile is_digit s)"

definition is_blank :: "char \<Rightarrow> bool" where
  "is_blank c \<longleftrightarrow> c \<in> {CHR 0x20, CHR 0x09, CHR 0x0A, CHR 0x0B, CHR 0x0C, CHR 0x0D}"

definition strtol10 :: "string \<Rightarrow> int" where
  "strtol10 s =
     (let s = dropWhile is_blank s;
          n = (case s of
                 [] \<Rightarrow> 0
               | c # r \<Rightarrow> if c = CHR ''-'' then - int (digits_value r)
                         else if c = CHR ''+'' then int (digits_value r)
                         else int (digits_value s))
      in max (- (2 ^ 63)) (min (2 ^ 63 - 1) n))"

definition rule_line :: string where
  "rule_line = ''------------------------------'' @ [NL]"

definition override_lines :: "uint \<Rightarrow> string list" where
  "override_lines bm =
     (if bm AND READ_OVERRIDE \<noteq> 0 then [''The vector overrides READ'' @ [NL]] else [])
   @ (if bm AND WRITE_OVERRIDE \<noteq> 0 then [''The vector overrides WRITE'' @ [NL]] else [])
   @ (if bm AND OPEN_OVERRIDE \<noteq> 0 then [''The vector overrides OPEN'' @ [NL]] else [])
   @ (if bm AND CLOSE_OVERRIDE \<noteq> 0 then [''The vector overrides CLOSE'' @ [NL]] else [])
   @ (if bm AND LINK_OVERRIDE \<noteq> 0 then [''The vector overrides LINK'' @ [NL]] else [])
   @ (if bm AND UNLINK_OVERRIDE \<noteq> 0 then [''The vector overrides UNLINK'' @ [NL]] else [])
   @ (if bm AND MKDIR_OVERRIDE \<noteq> 0 then [''The vector overrides MKDIR'' @ [NL]] else [])
   @ (if bm AND RMDIR_OVERRIDE \<noteq> 0 then [''The vector overrides RMDIR'' @ [NL]] else [])
   @ (if bm AND WRITE_LOGGED \<noteq> 0 then [''The vector overrides WRITE with WRITE_LOGGED'' @ [NL]] else [])
   @ (if bm AND OPEN_BLOCKED \<noteq> 0 then [''The vector overrides OPEN with OPEN_BLOCKED'' @ [NL]] else [])"

definition display_token :: "nat \<Rightarrow> string \<Rightarrow> string list" where
  "display_token i token =
     rule_line #
     (if i mod 3 = 0 then
        let bitmap = word_of_int (strtol10 token) :: uint
        in (''bit_no: '' @ sprintf_d bitmap @ [NL]) # override_lines bitmap
      else if i mod 3 = 1 then [''The vector name is : '' @ token @ [NL]]
      else [''The vector id is : '' @ token @ [NL]])"

text \<open>The loop over the tokens, whatever is printed for one; \<open>user_clone.c\<close> has it too.\<close>

fun display_loop :: "(nat \<Rightarrow> string \<Rightarrow> string list) \<Rightarrow> nat \<Rightarrow> string list \<Rightarrow> string list" where
  "display_loop show_token i [] = []"
| "display_loop show_token i (token # tokens) = show_token i token @ display_loop show_token (Suc i) tokens"

definition display_vectors :: "char list \<Rightarrow> string list" where
  "display_vectors buf = display_loop display_token 1 (strtok_nl [] (c_string buf))"

section \<open>Numbers printed and read\<close>

lemma first_index_nth: "distinct xs \<Longrightarrow> i < length xs \<Longrightarrow> first_index (\<lambda>c. c = xs ! i) xs = Some i"
  unfolding first_index_Some by (auto simp: nth_eq_iff_index_eq)

lemma digit_value_digit: "d < 10 \<Longrightarrow> digit_value (digit d) = d"
proof -
  assume d: "d < 10"
  have "distinct ''0123456789''" and "length ''0123456789'' = 10" by simp_all
  with d have "first_index (\<lambda>c. c = ''0123456789'' ! d) ''0123456789'' = Some d"
    by (intro first_index_nth) (simp_all only:)
  then show ?thesis by (simp only: digit_value_def digit_def option.case)
qed

lemma dec_digits_all: "takeWhile is_digit (dec_digits n) = dec_digits n"
  unfolding takeWhile_eq_all_conv is_digit_def using dec_digits_chars [of n] by blast

lemma digits_value_dec: "digits_value (dec_digits n) = n"
  unfolding digits_value_def dec_digits_all
proof (induction n rule: dec_digits.induct)
  case (1 n)
  show ?case
  proof (cases "n < 10")
    case True
    then show ?thesis by (subst dec_digits.simps) (simp add: digit_value_digit)
  next
    case False
    with "1.IH" show ?thesis by (subst dec_digits.simps) (simp add: digit_value_digit)
  qed
qed

lemma dec_digits_head:
  obtains c r where "dec_digits n = c # r" and "c \<noteq> CHR ''-''" and "c \<noteq> CHR ''+''" and "\<not> is_blank c"
proof -
  obtain c r where c: "dec_digits n = c # r" using dec_digits_nonempty [of n] by (cases "dec_digits n") auto
  then have "c \<in> set ''0123456789''" using dec_digits_chars [of n] by auto
  then have "c \<noteq> CHR ''-''" "c \<noteq> CHR ''+''" "\<not> is_blank c" by (auto simp: is_blank_def)
  with c that show ?thesis by blast
qed

lemma strtol10_sprintf_d: "strtol10 (sprintf_d b) = sint b"
proof -
  have bound: "- (2 ^ 31) \<le> sint b" "sint b < 2 ^ 31"
    using sint_greater_eq [of b] sint_less [of b] by simp_all
  show ?thesis
  proof (cases "sint b < 0")
    case True
    then have "dropWhile is_blank (sprintf_d b) = CHR ''-'' # dec_digits (nat (- sint b))"
      by (simp add: sprintf_d_def is_blank_def)
    then have "strtol10 (sprintf_d b) = max (- (2 ^ 63)) (min (2 ^ 63 - 1) (- int (nat (- sint b))))"
      by (simp add: strtol10_def digits_value_dec)
    with True bound show ?thesis by simp
  next
    case False
    obtain c r where c: "dec_digits (nat (sint b)) = c # r" "c \<noteq> CHR ''-''" "c \<noteq> CHR ''+''" "\<not> is_blank c"
      by (rule dec_digits_head)
    have "digits_value (c # r) = nat (sint b)" using digits_value_dec [of "nat (sint b)"] c(1) by simp
    then have "strtol10 (sprintf_d b) = max (- (2 ^ 63)) (min (2 ^ 63 - 1) (int (nat (sint b))))"
      using False c by (simp add: strtol10_def sprintf_d_def)
    with False bound show ?thesis by simp
  qed
qed

section \<open>The text is read back\<close>

lemma strtok_line:
  "NL \<notin> set t \<Longrightarrow> acc @ t \<noteq> [] \<Longrightarrow> strtok_nl acc (t @ NL # rest) = (acc @ t) # strtok_nl [] rest"
  by (induction t arbitrary: acc) auto

lemma sprintf_nonempty: "sprintf_d b \<noteq> []" "sprintf_lu n \<noteq> []"
  by (simp_all add: sprintf_d_def sprintf_lu_def dec_digits_nonempty)

text \<open>What the user is to see of a vector.\<close>

definition shown :: "struct_vector \<Rightarrow> string list" where
  "shown v =
     [rule_line, ''The vector name is : '' @ c_string (vector_name v) @ [NL],
      rule_line, ''The vector id is : '' @ sprintf_lu (vector_id v) @ [NL],
      rule_line, ''bit_no: '' @ sprintf_d (overfuncs_bitmap v) @ [NL]]
     @ override_lines (overfuncs_bitmap v)"

definition one_line_names :: "struct_vector list \<Rightarrow> bool" where
  "one_line_names vs \<longleftrightarrow> (\<forall>v \<in> set vs. c_string (vector_name v) \<noteq> [] \<and> NL \<notin> set (c_string (vector_name v)))"

lemma strtok_text:
  assumes "one_line_names vs"
  shows "strtok_nl [] (registry_text vs) =
    concat (map (\<lambda>v. [c_string (vector_name v), sprintf_lu (vector_id v), sprintf_d (overfuncs_bitmap v)]) vs)"
  using assms
proof (induction vs)
  case Nil
  then show ?case by (simp add: registry_text_def)
next
  case (Cons v vs)
  have step: "registry_text (v # vs) = c_string (vector_name v) @ NL # sprintf_lu (vector_id v) @ NL #
      sprintf_d (overfuncs_bitmap v) @ NL # registry_text vs"
    by (simp add: registry_text_def vector_text_def)
  show ?case
    unfolding step using Cons
    by (simp add: strtok_line sprintf_d_chars sprintf_lu_chars sprintf_nonempty one_line_names_def)
qed

lemma display_triples:
  assumes "\<And>i t. show_token i t = show_token (i mod 3) t" and "i mod 3 = 1"
  shows "display_loop show_token i (concat (map (\<lambda>v. [c_string (vector_name v), sprintf_lu (vector_id v),
      sprintf_d (overfuncs_bitmap v)]) vs)) =
    concat (map (\<lambda>v. show_token 1 (c_string (vector_name v)) @ show_token 2 (sprintf_lu (vector_id v))
      @ show_token 0 (sprintf_d (overfuncs_bitmap v))) vs)"
  using assms(2)
proof (induction vs arbitrary: i)
  case Nil
  then show ?case by simp
next
  case (Cons v vs)
  then have m: "Suc i mod 3 = 2" "Suc (Suc i) mod 3 = 0" "Suc (Suc (Suc i)) mod 3 = 1" by presburger+
  have "show_token i = show_token 1" "show_token (Suc i) = show_token 2" "show_token (Suc (Suc i)) = show_token 0"
    using assms(1) [of i] assms(1) [of "Suc i"] assms(1) [of "Suc (Suc i)"] m Cons.prems by (auto simp: fun_eq_iff)
  with Cons.IH [OF m(3)] show ?case by simp
qed

lemma display_token_mod: "display_token i t = display_token (i mod 3) t"
  by (simp add: display_token_def)

lemma display_registry_text:
  assumes "one_line_names vs" and "c_string buf = registry_text vs"
  shows "display_vectors buf = concat (map shown vs)"
proof -
  have "display_token 1 (c_string (vector_name v)) @ display_token 2 (sprintf_lu (vector_id v))
      @ display_token 0 (sprintf_d (overfuncs_bitmap v)) = shown v" for v
    by (simp add: display_token_def shown_def strtol10_sprintf_d Let_def)
  then show ?thesis
    unfolding display_vectors_def assms(2) strtok_text [OF assms(1)]
    by (subst display_triples [where show_token = display_token, OF display_token_mod]) simp_all
qed

end
