(* ===== verification/Sample_States.thy ===== *)
theory Sample_States
  imports System Vec_Copy Display_Client
begin

text \<open>
  Concrete states at which the properties are applied: the registry after boot with one vector,
  \<open>Vector55\<close> of \<open>vector1\<close> at address 32, with \<open>r\<close> references; a caller's memory; a kernel
  environment; the allocator that hands out the first free one of 41 addresses.
\<close>

section \<open>Definitions\<close>

definition km40 :: allocator where
  "km40 = arena_km 40"

definition one_vector :: "cint \<Rightarrow> syscall_state" where
  "one_vector r = boot\<lparr>heap := [16 \<mapsto> Vector_node,
        32 \<mapsto> Syscall_node \<lparr>NR_syscall = NR_read, funcPtr = OverriddenRead, syscallTablePtr = 4096, nextSyscall = 0\<rparr>],
      tick := 2, vec_list := [stored_vector 16 ''Vector55'' 32 r Mod_vector1 55], v1_listHead := 32,
      chrdev := True, sysptr := True\<rparr>"

definition caller :: user_mem where
  "caller = \<lparr>u_bytes = [1000 \<mapsto> ''Vector55'' @ [NUL]], u_pid_n_buf = (\<lambda>_. (1, 2000)),
     u_bitmap = (\<lambda>_. 1), u_missing = (\<lambda>_ _. 0)\<rparr>"

definition kernel :: kernel_env where
  "kernel = \<lparr>k_orig = (\<lambda>_ _ _. 5), k_open = (\<lambda>_. Opened (''httpd'' @ [NUL])),
     k_fresh = (\<lambda>n. replicate n NUL), k_file = (\<lambda>_. Some (Some ''/tmp/a.c'')), k_uid = 0\<rparr>"

section \<open>Their properties\<close>

lemma km40_ok: "allocator_ok km40" "roomy 40 km40"
  unfolding km40_def by (rule arena_km_ok arena_km_roomy, simp)+

lemma km40_nonzero: "card (dom h) \<le> 40 \<Longrightarrow> km40 n h \<noteq> 0"
  using km40_ok(2) by (simp add: roomy_def)

lemma boot_facts:
  "reg_inv boot" "reg_ok boot" "dyn_listHead boot = 0" "v1_listHead boot = 0" "v2_listHead boot = 0"
  "heap boot = Map.empty" "vec_list boot = []" "dyn_i boot = 0" "length (list_heads boot) = 256"
  "\<not> list_lock boot"
  by (simp_all add: boot_def reg_inv_def reg_ok_def)

lemma name55: "name_ok (''Vector55'' @ [NUL])" "c_string (''Vector55'' @ [NUL]) = ''Vector55''"
  by (simp_all add: name_ok_def MAX_VECTOR_NAME_LEN_def)

lemma stored55:
  "c_string (vector_name (stored_vector a ''Vector55'' b r m c)) = ''Vector55''"
  "terminated (vector_name (stored_vector a ''Vector55'' b r m c))"
  "length (vector_name (stored_vector a ''Vector55'' b r m c)) = MAX_VECTOR_NAME_LEN"
  using stored_vector_name [OF name55(1)] unfolding name55(2) by simp_all

lemma one_vector_fields [simp]:
  "vec_list (one_vector r) = [stored_vector 16 ''Vector55'' 32 r Mod_vector1 55]"
  "\<not> list_lock (one_vector r)" "\<not> mutexlock (one_vector r)" "dyn_listHead (one_vector r) = 0"
  "dyn_i (one_vector r) = 0" "length (list_heads (one_vector r)) = 256"
  "current (one_vector r) = 1" "vector_info (one_vector r) = [1 \<mapsto> 0]" "v1_listHead (one_vector r) = 32"
  "mod_log (one_vector r) = []" "static_table (one_vector r) = 0" "tick (one_vector r) = 2"
  "chrdev (one_vector r)" "sysptr (one_vector r)" "v2_listHead (one_vector r) = 0"
  by (simp_all add: one_vector_def boot_def)

lemma one_vector_heap:
  "heap (one_vector r) 16 = Some Vector_node"
  "heap (one_vector r) 32 = Some (Syscall_node \<lparr>NR_syscall = NR_read, funcPtr = OverriddenRead,
     syscallTablePtr = 4096, nextSyscall = 0\<rparr>)"
  "card (dom (heap (one_vector r))) = 2" "dom (heap (one_vector r)) = {16, 32}"
  by (simp_all add: one_vector_def insert_commute)

lemma one_vector_inv: "reg_inv (one_vector r)" "reg_ok (one_vector r)"
  by (simp_all add: reg_inv_def reg_ok_def stored55 one_vector_heap)

lemma one_vector_ready: "ioctl_ready (one_vector r)"
  by (simp add: ioctl_ready_def one_vector_inv)

lemma one_vector_index:
  "name_index ''Vector55'' (one_vector r) = Some 0" "addr_index 32 (one_vector r) = Some 0"
  "bitmap_index 55 (one_vector r) = Some 0" "bitmap_index 1 (one_vector r) = None"
  "addr_index 0 (one_vector r) = None" "addr_index 48 (one_vector r) = None"
  "name_index ''x'' (one_vector r) = None"
  by (simp_all add: name_index_def addr_index_def bitmap_index_def stored55)

lemma one_vector_view: "view_name (one_vector r) ''Vector55'' = Some (32, r)"
  "view_addr (one_vector r) 32 = Some (32, r)"
  by (simp_all add: view_by_def stored55)

lemma digits55: "dec_digits 55 = ''55''"
  by (subst dec_digits.simps, simp, subst dec_digits.simps, simp add: digit_def)

lemma sprintf55: "sprintf_d 55 = ''55''" "sprintf_lu 55 = ''55''"
  by (simp_all add: sprintf_d_def sprintf_lu_def digits55)

lemma text55: "vector_text (stored_vector a ''Vector55'' b r m 55) = ''Vector55'' @ [NL] @ ''55'' @ [NL] @ ''55'' @ [NL]"
  by (simp add: vector_text_def stored55 sprintf55)

lemma printable55: "printable (stored_vector a ''Vector55'' b r m 55)"
  by (rule printable_small) (simp_all add: stored55)

lemma one_vector_texts: "texts_fit (one_vector r)" "plain_names (one_vector r)"
  by (simp_all add: texts_fit_def plain_names_def registry_text_def printable55 text55 stored55 BUF_LEN_def)

lemma one_vector_list: "sc_list (heap (one_vector r)) 32 [(32, NR_read, OverriddenRead)]"
  by (simp add: one_vector_heap)

lemma caller_name: "user_name caller 1000 ''Vector55''" "not_copied caller p n = 0"
  by (simp_all add: user_name_def caller_def not_copied_def)

lemma caller_fields: "u_pid_n_buf caller p = (1, 2000)" "u_bitmap caller p = 1" "u_missing caller p n = 0"
  by (simp_all add: caller_def)

lemma kernel_fresh: "length (k_fresh kernel n) = n"
  by (simp add: kernel_def)

lemma kernel_named: "named kernel s ''httpd''"
proof -
  have "take 4096 (''httpd'' @ [NUL]) = ''httpd'' @ [NUL]" by (rule take_all) simp
  then show ?thesis unfolding named_def by (simp add: kernel_def del: take_Cons_numeral)
qed

lemma kernel_fields: "k_file kernel fd = Some (Some ''/tmp/a.c'')" "k_orig kernel t l c = 5"
  by (simp_all add: kernel_def)

end
