(* ===== verification/System_Properties.thy ===== *)
theory System_Properties
  imports Sample_States
begin

text \<open>
  What holds across the modules: the invariant of every reachable state, what taking and leaving a
  vector comes to, and a run from boot that ends with a process under freed memory.
\<close>

section \<open>Every reachable state\<close>

text \<open>
  C1. In every state that can be reached from boot the registry is well formed and unlocked, the
  device's mutex is free, no half-built list hangs in \<open>dynamic_vector\<close> and \<open>list_heads\<close> has its
  256 slots: each stored name is terminated and fills its array, and each registered vector is live
  memory of its own.
\<close>

theorem reachable_invariant:
  assumes "reachable km s" and "allocator_ok km"
  shows "reg_inv s \<and> \<not> mutexlock s \<and> dyn_listHead s = 0 \<and> length (list_heads s) = 256"
  using reachable_sys_inv [OF assms] by (simp add: sys_inv_def)

theorem reachable_invariant_witness:
  "\<exists>s. sys_step km40 boot s \<and> reg_inv s \<and> chrdev s"
proof -
  have "init_ioctl_module 0 boot = (0, boot\<lparr>chrdev := True, mutexlock := False\<rparr>)"
    by (simp add: init_ioctl_module_def)
  then have st: "sys_step km40 boot (boot\<lparr>chrdev := True, mutexlock := False\<rparr>)"
    by (rule sys_step.load_ioctl [rotated]) (simp add: boot_def)
  with reachable_invariant [OF reachable.step [OF reachable.start st] km40_ok(1)] show ?thesis by fastforce
qed

section \<open>Taking and leaving\<close>

text \<open>
  C9. Round trip: a process that takes a registered vector by \<open>IOCTL_SET\<close> and leaves it by \<open>IOCTL_REMOVE\<close>
  of the same name brings registry, counts and memory back to what they were and has no vector; the
  second call returns the count of the others.
\<close>

theorem set_then_remove:
  assumes km: "allocator_ok km" "roomy b km" and ready: "ioctl_ready s" and fit: "texts_fit s"
    and plain: "plain_names s" and room: "card (dom (heap s)) + 2 \<le> b"
    and q: "user_name u p q" "not_copied u p (length q) = 0"
    and i: "name_index q s = Some i" "overriddenSyscalls_address (vec_list s ! i) = a" "a \<noteq> 0"
    and others: "refcount (vec_list s ! i) = r" "0 \<le> sint r"
  shows "\<exists>s1 s2. custom_ioctl km u IOCTL_SET p s = Inr (0, s1) \<and> vector_info s1 (current s) = Some a
    \<and> custom_ioctl km u IOCTL_REMOVE p s1 = Inr (scast r, s2) \<and> vec_list s2 = vec_list s
    \<and> heap s2 = heap s \<and> vector_info s2 = (vector_info s)(current s \<mapsto> 0)
    \<and> (\<forall>m. pin_excess m s2 = pin_excess m s)"
proof -
  from ioctl_set_taken [OF km ready fit plain room q i] obtain s1 where
    s1: "custom_ioctl km u IOCTL_SET p s = Inr (0, s1)" "ioctl_ready s1" "heap s1 = heap s"
      "vec_list s1 = vec_list (add_refcount i 1 s)" "vector_info s1 = (vector_info s)(current s \<mapsto> a)"
      "current s1 = current s" "\<forall>m. pin_excess m s1 = pin_excess m s" by blast
  note len = index_bounds(1) [OF i(1)]
  have idx: "name_index q s1 = Some i"
    using name_index_add_refcount [of q i 1 s] i(1) by (simp add: name_index_def s1(4))
  have "refcount (vec_list s1 ! i) - 1 = r" using len others(1) by (simp add: s1(4) add_refcount_def)
  from ioctl_remove_found [OF km s1(2) _ q idx this] room s1(3) others(2) obtain s2 where
    s2: "custom_ioctl km u IOCTL_REMOVE p s1 = Inr (scast r, s2)" "heap s2 = heap s"
      "vec_list s2 = vec_list (add_refcount i (- 1) s1)" "vector_info s2 = (vector_info s1)(current s1 \<mapsto> 0)"
      "\<forall>m. pin_excess m s2 = pin_excess m s1" by auto
  have "vec_list s2 = vec_list s" using len by (simp add: s2(3) s1(4) add_refcount_def)
  with s1 s2 show ?thesis by auto
qed

theorem set_then_remove_witness:
  "\<exists>s1 s2. custom_ioctl km40 caller IOCTL_SET 1000 (one_vector 0) = Inr (0, s1)
    \<and> custom_ioctl km40 caller IOCTL_REMOVE 1000 s1 = Inr (0, s2) \<and> vec_list s2 = vec_list (one_vector 0)"
proof -
  have "card (dom (heap (one_vector 0))) + 2 \<le> 40" by (simp add: one_vector_heap)
  from set_then_remove [OF km40_ok one_vector_ready one_vector_texts this caller_name one_vector_index(1), of 32 0]
  show ?thesis by fastforce
qed

section \<open>A vector given up\<close>

text \<open>As many requests to leave a vector as it has references: every one succeeds.\<close>

lemma left_by_all:
  assumes km: "allocator_ok km" "roomy b km" and q: "user_name u p q" "not_copied u p (length q) = 0"
  shows "ioctl_ready s \<Longrightarrow> chrdev s \<Longrightarrow> card (dom (heap s)) + 2 \<le> b \<Longrightarrow> name_index q s = Some i
    \<Longrightarrow> refcount (vec_list s ! i) = of_nat n \<Longrightarrow> n < 2 ^ 31
    \<Longrightarrow> \<exists>s'. (sys_step km ^^ n) s s' \<and> ioctl_ready s' \<and> heap s' = heap s \<and> v1_listHead s' = v1_listHead s
      \<and> vec_list s' = vec_list (add_refcount i (- of_nat n) s) \<and> (\<forall>m. pin_excess m s' = pin_excess m s)"
proof (induction n arbitrary: s)
  case 0
  have "vec_list (add_refcount i 0 s) = vec_list s" by (simp add: add_refcount_def)
  then show ?case using 0 by (intro exI [of _ s]) simp
next
  case (Suc n)
  note len = index_bounds(1) [OF Suc.prems(4)]
  have "refcount (vec_list s ! i) - 1 = of_nat n" using Suc.prems(5) by simp
  moreover have "\<not> sint (of_nat n :: cint) < 0" using Suc.prems(6) by (simp add: sint_of_nat)
  ultimately obtain s1 where s1: "custom_ioctl km u IOCTL_REMOVE p s = Inr (scast (of_nat n :: cint), s1)"
    "ioctl_ready s1" "heap s1 = heap s" "vec_list s1 = vec_list (add_refcount i (- 1) s)"
    "v1_listHead s1 = v1_listHead s" "chrdev s1" "\<forall>m. pin_excess m s1 = pin_excess m s"
    using ioctl_remove_found [OF km Suc.prems(1,3) q Suc.prems(4)] Suc.prems(2) by auto
  have "refcount (vec_list s1 ! i) = of_nat n" using Suc.prems(5) len by (simp add: s1(4) add_refcount_def)
  moreover have "name_index q s1 = Some i"
    using name_index_add_refcount [of q i "- 1" s] Suc.prems(4) by (simp add: name_index_def s1(4))
  ultimately obtain s' where s': "(sys_step km ^^ n) s1 s'" "ioctl_ready s'" "heap s' = heap s1"
    "v1_listHead s' = v1_listHead s1" "vec_list s' = vec_list (add_refcount i (- of_nat n) s1)"
    "\<forall>m. pin_excess m s' = pin_excess m s1"
    using Suc.IH [of s1] s1(2,3,6) Suc.prems(3,6) by auto
  have "sys_step km s s1" by (rule sys_step.ioctl [OF Suc.prems(2) s1(1)])
  then have "(sys_step km ^^ Suc n) s s'" using s'(1) by (rule relpowp_Suc_I2)
  moreover have "vec_list (add_refcount i (- of_nat n) s1) = vec_list (add_refcount i (- of_nat (Suc n)) s)"
    using len by (simp add: add_refcount_def s1(4) algebra_simps)
  ultimately show ?case using s'(2-6) s1(3,5,7) by (intro exI [of _ s']) simp
qed



section \<open>A vector taken away\<close>

text \<open>
  After \<open>IOCTL_REMOVE\<close> by a process that does not hold the vector no pin is left on \<open>vector1\<close>, the
  module can be removed, and the holder still runs under an address whose memory has been freed.
\<close>

lemma remove_then_rmmod:
  assumes "allocator_ok km" and "roomy b km" and ready: "ioctl_ready s" and "card (dom (heap s)) + 2 \<le> b"
    and "user_name u p q" and "not_copied u p (length q) = 0" and i: "name_index q s = Some i"
    and one: "refcount (vec_list s ! i) = 1" and m: "vector_module (vec_list s ! i) = Mod_vector1"
    and pin: "of_int (module_refs Mod_vector1 (mod_log s)) = (1 :: cint)"
    and a: "v1_listHead s = a" "a \<noteq> 0" "addr_index a s = Some i" and es: "sc_list (heap s) a es"
    and victim: "vector_info s victim = Some a" "victim \<noteq> current s"
  shows "\<exists>s1 s2. custom_ioctl km u IOCTL_REMOVE p s = Inr (0, s1)
    \<and> of_int (module_refs Mod_vector1 (mod_log s1)) = (0 :: cint)
    \<and> v1_cleanup_override s1 = Inr s2 \<and> vector_info s2 victim = Some a \<and> heap s2 a = None"
proof -
  from ioctl_remove_found [OF assms(1-7) refl] obtain s1 where
    s1: "custom_ioctl km u IOCTL_REMOVE p s = Inr (0, s1)" "ioctl_ready s1" "heap s1 = heap s"
      "vec_list s1 = vec_list (add_refcount i (- 1) s)" "vector_info s1 = (vector_info s)(current s \<mapsto> 0)"
      "v1_listHead s1 = a" and ex: "pin_excess Mod_vector1 s1 = pin_excess Mod_vector1 s"
    using one a(1) by auto
  note len = index_bounds(1) [OF i]
  have pins: "of_int (module_refs Mod_vector1 (mod_log s1)) = (0 :: cint)"
    using ex pin m vector_refs_add_refcount [OF len, of Mod_vector1 "- 1"]
    by (simp add: pin_excess_def s1(4))
  have i1: "addr_index (v1_listHead s1) s1 = Some i"
    using a(3) addr_index_add_refcount [of a i "- 1" s] s1(4,6) by (simp add: addr_index_def)
  have free: "\<not> sint (refcount (vec_list s1 ! i)) > 0" using one len by (simp add: s1(4) add_refcount_def)
  have inv: "reg_inv s1" using s1(2) by (simp add: ioctl_ready_def)
  have "sc_list (heap s1) (v1_listHead s1) es" using es s1(3,6) by simp
  from sample1.cleanup_unreferenced [OF inv this i1 free] obtain s2 where s2: "v1_cleanup_override s1 = Inr s2"
    "heap s2 = (heap s1)(node_ptr (vec_list s1 ! i) := None) |` (- fst ` set es)"
    "v1_rest s2 = v1_rest (s1\<lparr>vec_list := list_del i (vec_list s1)\<rparr>)" by blast
  have "a \<in> fst ` set es" using es a(2) by (cases es) auto
  then have "heap s2 a = None" by (simp add: s2(2) restrict_map_def)
  moreover have "vector_info s2 = vector_info s1"
    using arg_cong [OF s2(3), of vector_info] by (simp add: v1_rest_def)
  ultimately show ?thesis using s1(1,5) pins s2(1) victim by auto
qed

text \<open>
  A run from boot: the device and \<open>sys_clone2\<close> are loaded, process 1 makes process 2, \<open>vector1\<close> is loaded.
\<close>

definition two_tasks :: syscall_state where
  "two_tasks = boot\<lparr>chrdev := True, sysptr := True, vector_info := [1 \<mapsto> 0, 2 \<mapsto> 0]\<rparr>"

lemma two_tasks_reachable: "reachable km two_tasks"
proof -
  let ?s1 = "boot\<lparr>chrdev := True, mutexlock := False\<rparr>" and ?s2 = "boot\<lparr>chrdev := True, mutexlock := False, sysptr := True\<rparr>"
  have 1: "sys_step km boot ?s1"
    by (rule sys_step.load_ioctl [of _ 0 0]) (simp_all add: boot_def init_ioctl_module_def)
  have 2: "sys_step km ?s1 ?s2"
    by (rule sys_step.load_clone2 [of _ 0]) (simp add: boot_def init_sys_clone2_def)
  have "reg_ok ?s2" using boot_facts(2) by (simp add: reg_ok_def)
  then have "sys_clone2 (fork_child 2) 0 0 0 0 0 0 ?s2 = Inr (scast (2 :: pid), two_tasks)"
    by (simp add: sys_clone2_by_id bitmap_index_def fork_child_def copy_vector_info_def two_tasks_def boot_def)
  then have 3: "sys_step km ?s2 two_tasks"
    by (rule sys_step.clone2 [rotated 2]) (simp_all add: boot_def)
  show ?thesis by (rule reachable.step [OF reachable.step [OF reachable.step [OF reachable.start 1] 2] 3])
qed

lemma two_tasks_facts:
  "reg_inv two_tasks" "v1_listHead two_tasks = 0" "vec_list two_tasks = []" "mod_log two_tasks = []"
  "heap two_tasks = Map.empty"
  by (simp_all add: two_tasks_def boot_def reg_inv_def reg_ok_def)

lemma vector1_loaded:
  obtains s es va where "v1_init_override km40 two_tasks = Inr (0, s)" and "reg_inv s" and "map snd es = v1_calls"
    and "vec_list s = [stored_vector va ''Vector55'' (v1_listHead s) 0 Mod_vector1 55]"
    and "sc_list (heap s) (v1_listHead s) es" and "card (dom (heap s)) = 6" and "mod_log s = []"
    and "vec_modules.more s = vec_modules.more two_tasks"
proof -
  have n: "c_string v1_vector_name = ''Vector55''"
    by (simp add: v1_vector_name_def MAX_VECTOR_NAME_LEN_def c_string_append_terminated)
  have b: "READ_OVERRIDE + WRITE_OVERRIDE + OPEN_OVERRIDE + LINK_OVERRIDE + UNLINK_OVERRIDE = 55"
    by (simp add: override_bits)
  have room: "card (dom (heap two_tasks)) + length v1_calls \<le> 40" by (simp add: two_tasks_facts v1_calls_def)
  note f = two_tasks_facts
  from sample1.init_roomy [OF km40_ok f(1,2) room, unfolded n b] obtain s es va where
    s: "v1_init_override km40 two_tasks = Inr (0, s)" "reg_inv s" "map snd es = v1_calls"
      "vec_list s = stored_vector va ''Vector55'' (v1_listHead s) 0 Mod_vector1 55 # vec_list two_tasks"
      "built ((heap two_tasks)(va \<mapsto> Vector_node)) (heap s) (v1_listHead s) es" by blast
  from sample1.init_outcome [OF km40_ok(1) f(1,2)] s(1) have "mod_log s = mod_log two_tasks" by auto
  moreover have "length es = 5" using arg_cong [OF s(3), of length] by (simp add: v1_calls_def)
  then have "card (dom (heap s)) = 6" using built_card [OF s(5)] by (simp add: f)
  ultimately show ?thesis
    using s f v1_init_frame [OF km40_ok(1) f(2) s(1)] by (intro that [of s es va]) (auto simp: built_def)
qed


end
