(* ===== verification/Lockless_Show.thy ===== *)
theory Lockless_Show
  imports Vec_Registry
begin

text \<open>
  \<open>show_all_vectors\<close> walks the list without \<open>list_lock\<close>, so a registration or removal by another
  processor may come between any two steps of its loop. Here the loop of \<open>vec_load_unload.c\<close> is
  taken apart into those steps, the body of one pass being one step; each step sees the registry as
  it then is. The buffer is taken to be this call's own, though the code's is static.
\<close>

section \<open>The loop in steps\<close>

text \<open>
  \<open>list_for_each_entry\<close> holds a pointer to the current node: \<open>At p\<close> before the body (NULL stands for
  the list's head, where the loop ends), \<open>Printed p\<close> before the pointer moves on.
\<close>

datatype walk_pc = At addr | Printed addr

definition next_entry :: "struct_vector list \<Rightarrow> addr" where
  "next_entry vs = (case vs of [] \<Rightarrow> 0 | v # _ \<Rightarrow> node_ptr v)"

text \<open>The part of the list from the node at an address on; a node that is not linked has been freed.\<close>

definition entries_from :: "addr \<Rightarrow> 'a registry_scheme \<Rightarrow> (struct_vector \<times> struct_vector list) cres" where
  "entries_from p s =
     (case dropWhile (\<lambda>v. node_ptr v \<noteq> p) (vec_list s) of
        [] \<Rightarrow> Inl Bad_pointer
      | v # vs \<Rightarrow> Inr (v, vs))"

fun walk_step :: "'a registry_scheme \<Rightarrow> walk_pc \<times> nat \<times> char list \<Rightarrow> (walk_pc \<times> nat \<times> char list) cres" where
  "walk_step s (At p, ret, buf) =
     (if p = 0 then Inr (At 0, ret, buf)
      else if ret > MAX_BUFFER_SIZE then Inr (At 0, ret, buf)
      else bindE (entries_from p s) (\<lambda>(v, _).
           bindE (emit_vector v (ret, buf)) (\<lambda>(ret, buf). Inr (Printed p, ret, buf))))"
| "walk_step s (Printed p, ret, buf) =
     bindE (entries_from p s) (\<lambda>(_, vs). Inr (At (next_entry vs), ret, buf))"

text \<open>A walk, given the registry at each of its steps.\<close>

fun walk_trace :: "'a registry_scheme list \<Rightarrow> walk_pc \<times> nat \<times> char list \<Rightarrow> (walk_pc \<times> nat \<times> char list) cres" where
  "walk_trace [] w = Inr w"
| "walk_trace (s # ss) w = bindE (walk_step s w) (walk_trace ss)"

definition walk_start :: "'a registry_scheme \<Rightarrow> walk_pc \<times> nat \<times> char list" where
  "walk_start s = (At (next_entry (vec_list s)), 0, kzalloc_chars MAX_BUFFER_SIZE)"

section \<open>Lemmas\<close>

text \<open>The registry's nodes have addresses of their own.\<close>

definition nodes_ok :: "struct_vector list \<Rightarrow> bool" where
  "nodes_ok vs \<longleftrightarrow> distinct (map node_ptr vs) \<and> 0 \<notin> node_ptr ` set vs"

lemma nodes_ok_split:
  assumes "nodes_ok (us @ v # vs)"
  shows "dropWhile (\<lambda>w. node_ptr w \<noteq> node_ptr v) (us @ v # vs) = v # vs"
proof -
  have "\<forall>w \<in> set us. node_ptr w \<noteq> node_ptr v" using assms by (simp add: nodes_ok_def) (metis image_eqI)
  then show ?thesis by (simp add: dropWhile_append2)
qed

lemma reg_inv_nodes: "reg_inv s \<Longrightarrow> nodes_ok (vec_list s)"
  by (auto simp: reg_inv_def nodes_ok_def)

lemma walk_trace_done: "walk_trace ss (At 0, out) = Inr (At 0, out)"
proof -
  obtain ret buf where out: "out = (ret, buf)" by (cases out)
  show ?thesis unfolding out by (induction ss) simp_all
qed

text \<open>
  While vectors are only added in front of the nodes still to come, and all that were there stay,
  the steps compute what the uninterrupted loop computes.
\<close>

lemma walk_trace_loop:
  assumes "\<forall>s \<in> set ss. nodes_ok (vec_list s) \<and> (\<exists>us. vec_list s = us @ vs)"
    and "2 * length vs \<le> length ss"
  shows "walk_trace ss (At (next_entry vs), ret, buf) = bindE (show_all_loop vs (ret, buf)) (\<lambda>out. Inr (At 0, out))"
  using assms
proof (induction vs arbitrary: ss ret buf)
  case Nil
  then show ?case by (simp add: next_entry_def walk_trace_done)
next
  case (Cons v vs)
  then obtain s1 s2 ss' where ss: "ss = s1 # s2 # ss'"
    by (cases ss; cases "tl ss") auto
  have drop: "entries_from (node_ptr v) s = Inr (v, vs)" if s: "s \<in> set ss" for s
  proof -
    from Cons.prems(1) s obtain us where us: "vec_list s = us @ v # vs" "nodes_ok (us @ v # vs)" by fastforce
    then show ?thesis using nodes_ok_split by (simp add: entries_from_def)
  qed
  from Cons.prems(1) ss obtain us where "vec_list s1 = us @ v # vs" "nodes_ok (vec_list s1)" by fastforce
  then have nz: "node_ptr v \<noteq> 0" by (auto simp: nodes_ok_def)
  have "\<forall>s \<in> set ss'. nodes_ok (vec_list s) \<and> (\<exists>us. vec_list s = us @ vs)"
    using Cons.prems(1) ss by (force intro: exI [of _ "_ @ [v]"])
  moreover have "2 * length vs \<le> length ss'" using Cons.prems(2) ss by simp
  ultimately have IH: "walk_trace ss' (At (next_entry vs), out) =
      bindE (show_all_loop vs out) (\<lambda>out. Inr (At 0, out))" for out
    using Cons.IH by (cases out) simp
  have next1: "next_entry (v # vs) = node_ptr v" by (simp add: next_entry_def)
  have done2: "walk_step s2 (At 0, out) = Inr (At 0, out)" for out by (cases out) simp
  show ?case
    using nz drop [of s1] drop [of s2]
    by (cases "emit_vector v (ret, buf)")
      (auto simp: ss next1 IH done2 walk_trace_done simp del: walk_step.simps(1)
        simp: walk_step.simps(1) [of s1])
qed

text \<open>Registrations by others, any number of them.\<close>

inductive vectors_added :: "allocator \<Rightarrow> 'a registry_scheme \<Rightarrow> 'a registry_scheme \<Rightarrow> bool" for km s where
  none: "vectors_added km s s"
| more: "vectors_added km s s1 \<Longrightarrow> name_ok name \<Longrightarrow> register_syscall km name a m b s1 = Inr (r, s2)
    \<Longrightarrow> vectors_added km s s2"

lemma vectors_added_inv:
  assumes "vectors_added km s s'" and "allocator_ok km" and "reg_inv s"
  shows "reg_inv s' \<and> (\<exists>us. vec_list s' = us @ vec_list s)"
  using assms
proof (induction rule: vectors_added.induct)
  case none
  then show ?case by simp
next
  case (more s1 name a m b r s2)
  let ?r = "registered km (c_string name) a 0 m b s1"
  from more have s1: "reg_inv s1" and s2: "s2 = snd ?r"
    by (auto simp: register_syscall_spec reg_inv_ok dest: arg_cong [of _ _ snd])
  have "\<exists>us. vec_list (snd ?r) = us @ vec_list s1"
    by (auto simp: registered_def Let_def)
  with more s1 show ?case
    by (auto simp: s2 reg_inv_registered)
qed

text \<open>What the next step of a walk meets when the node it stands on is gone.\<close>

lemma walk_step_gone:
  assumes "p \<notin> node_ptr ` set (vec_list s)"
  shows "walk_step s (Printed p, out) = Inl Bad_pointer"
    and "p \<noteq> 0 \<Longrightarrow> fst out \<le> MAX_BUFFER_SIZE \<Longrightarrow> walk_step s (At p, out) = Inl Bad_pointer"
proof -
  have gone: "dropWhile (\<lambda>v. node_ptr v \<noteq> p) (vec_list s) = []" using assms by auto
  have "entries_from p s = Inl Bad_pointer" unfolding entries_from_def gone by simp
  then show "walk_step s (Printed p, out) = Inl Bad_pointer"
    and "p \<noteq> 0 \<Longrightarrow> fst out \<le> MAX_BUFFER_SIZE \<Longrightarrow> walk_step s (At p, out) = Inl Bad_pointer"
    by (cases out, simp)+
qed

end
