(* ===== verification/Registry_Properties.thy ===== *)
theory Registry_Properties
  imports Sample_States Lockless_Show
begin

text \<open>
  What the registry promises: the properties of \<open>vec_load_unload.c\<close>, of its earlier version
  \<open>vec_copy.c\<close> and of the program that reads its text, each with a concrete instance.
\<close>

section \<open>References\<close>

text \<open>The abstract registry: keys to an address and a count.\<close>

definition abs_acquire :: "'k \<Rightarrow> ('k \<Rightarrow> (addr \<times> cint) option) \<Rightarrow> addr \<times> ('k \<Rightarrow> (addr \<times> cint) option)" where
  "abs_acquire k m = (case m k of None \<Rightarrow> (0, m) | Some (a, r) \<Rightarrow> (a, m(k \<mapsto> (a, r + 1))))"

definition abs_release :: "'k \<Rightarrow> ('k \<Rightarrow> (addr \<times> cint) option) \<Rightarrow> cint \<times> ('k \<Rightarrow> (addr \<times> cint) option)" where
  "abs_release k m = (case m k of None \<Rightarrow> (- 1, m) | Some (a, r) \<Rightarrow> (r - 1, m(k \<mapsto> (a, r - 1))))"

text \<open>
  C6. Refinement: seen as a map from names to an address and a reference count,
  \<open>get_vector_address\<close> is the abstract lookup that takes a reference and \<open>reduce_ref_count\<close> the
  abstract release; both return and keep the registry usable.
\<close>

theorem lookup_refines_map:
  assumes "reg_ok s" and "terminated name"
  shows "(\<exists>a s'. get_vector_address name s = Inr (a, s') \<and> reg_ok s'
       \<and> (a, view_name s') = abs_acquire (c_string name) (view_name s))
    \<and> (\<exists>r s'. reduce_ref_count name s = Inr (r, s') \<and> reg_ok s'
       \<and> (r, view_name s') = abs_release (c_string name) (view_name s))"
proof (cases "view_name s (c_string name)")
  case None
  with by_name.acquire_miss [OF assms None] by_name.release_miss [OF assms None] assms(1) show ?thesis
    by (simp add: abs_acquire_def abs_release_def)
next
  case (Some x)
  obtain a r where x: "x = (a, r)" by (cases x)
  from by_name.acquire_hit [OF assms Some [unfolded x]] by_name.release_hit [OF assms Some [unfolded x]]
  show ?thesis by (auto simp: abs_acquire_def abs_release_def Some x)
qed

theorem lookup_refines_map_witness:
  "\<exists>s'. get_vector_address (''Vector55'' @ [NUL]) (one_vector 0) = Inr (32, s')
     \<and> view_name s' ''Vector55'' = Some (32, 1)"
  using lookup_refines_map [OF one_vector_inv(2), of "''Vector55'' @ [NUL]" 0]
  by (auto simp: abs_acquire_def one_vector_view)

text \<open>
  Taking \<open>n\<close> references to a named vector and giving \<open>n\<close> back by name leaves every name with the
  address and the count it had, whatever \<open>n\<close> and even when the 32-bit count wraps on the way.
\<close>

theorem references_balance:
  assumes "reg_ok s" and "terminated name" and "view_name s (c_string name) = Some (a, r)"
  shows "\<exists>s1 s2. times_op n (get_vector_address name) s = Inr s1
    \<and> times_op n (reduce_ref_count name) s1 = Inr s2 \<and> reg_ok s2 \<and> view_name s2 = view_name s"
  using by_name.acquire_release_many [OF assms] .

theorem references_balance_witness:
  "\<exists>s1 s2. times_op 3 (get_vector_address (''Vector55'' @ [NUL])) (one_vector 0) = Inr s1
     \<and> times_op 3 (reduce_ref_count (''Vector55'' @ [NUL])) s1 = Inr s2
     \<and> view_name s2 = view_name (one_vector 0)"
proof -
  have "view_name (one_vector 0) (c_string (''Vector55'' @ [NUL])) = Some (32, 0)"
    unfolding name55(2) by (rule one_vector_view)
  from references_balance [OF one_vector_inv(2) _ this, of 3] show ?thesis by auto
qed



section \<open>Registration\<close>

text \<open>
  C18. Registering a name of less than 256 characters either fails for want of memory and changes
  nothing but the number of requests, or puts the vector at the head of the list, with no
  reference and its id and bitmap as given, in memory that was free; the registry stays well formed
  and unlocked, and no reference or pin changes.
\<close>

theorem register_syscall_outcome:
  assumes km: "allocator_ok km" and inv: "reg_inv s" and name: "name_ok name"
  shows "\<exists>s'. reg_inv s' \<and>
    (register_syscall km name a m b s = Inr (- ENOMEM, s') \<and> vec_list s' = vec_list s \<and> heap s' = heap s
     \<or> register_syscall km name a m b s = Inr (0, s')
       \<and> (\<exists>va. va \<noteq> 0 \<and> heap s va = None \<and> heap s' = (heap s)(va \<mapsto> Vector_node)
          \<and> vec_list s' = stored_vector va (c_string name) a 0 m b # vec_list s
          \<and> name_index (c_string name) s' = Some 0 \<and> (\<forall>k. pin_excess k s' = pin_excess k s)))"
proof -
  let ?r = "registered km (c_string name) a 0 m b s"
  have "name_index (c_string name) (snd ?r) = Some 0" if "km (tick s) (heap s) \<noteq> 0"
    using that name by (simp add: registered_def Let_def name_index_def stored_vector_name)
  moreover have "pin_excess k (snd ?r) = pin_excess k s" for k
    by (simp add: pin_excess_registered)
  ultimately show ?thesis
    using register_syscall_spec [OF km reg_inv_ok [OF inv] name, of a m b]
      reg_inv_registered [OF km inv name, of a 0 m b] allocator_okD(1) [OF km, of "tick s" "heap s"]
    by (intro exI [of _ "snd ?r"]) (auto simp: registered_def Let_def)
qed

theorem register_syscall_outcome_witness:
  "\<exists>s'. reg_inv s' \<and>
    (register_syscall km40 (''Vector55'' @ [NUL]) 32 Mod_vector1 55 boot = Inr (- ENOMEM, s') \<and> vec_list s' = vec_list boot
       \<and> heap s' = heap boot
     \<or> register_syscall km40 (''Vector55'' @ [NUL]) 32 Mod_vector1 55 boot = Inr (0, s')
       \<and> (\<exists>va. va \<noteq> 0 \<and> heap boot va = None \<and> heap s' = (heap boot)(va \<mapsto> Vector_node)
          \<and> vec_list s' = stored_vector va (c_string (''Vector55'' @ [NUL])) 32 0 Mod_vector1 55 # vec_list boot
          \<and> name_index (c_string (''Vector55'' @ [NUL])) s' = Some 0 \<and> (\<forall>k. pin_excess k s' = pin_excess k boot)))"
  by (rule register_syscall_outcome [OF km40_ok(1) boot_facts(1) name55(1)])

text \<open>
  C19. Removing by address takes off the first vector with that address, and its memory, only when no
  reference to it is counted; with a reference the result is -2222, without such a vector -EFAULT,
  and in both cases nothing changes. The registry stays well formed.
\<close>

theorem unregister_syscall_outcome:
  assumes inv: "reg_inv s"
  shows "\<exists>r s'. unregister_syscall a s = Inr (r, s') \<and> reg_inv s' \<and>
    (case addr_index a s of
       None \<Rightarrow> r = - EFAULT \<and> s' = s
     | Some i \<Rightarrow>
         if sint (refcount (vec_list s ! i)) > 0 then r = - 2222 \<and> s' = s
         else r = 0 \<and> vec_list s' = list_del i (vec_list s)
           \<and> heap s' = (heap s)(node_ptr (vec_list s ! i) := None))"
  using unregister_syscall_spec [OF inv, of a] inv reg_inv_delete [OF inv index_bounds(2)]
  by (auto split: option.split)

theorem unregister_syscall_outcome_witness:
  "\<exists>s'. unregister_syscall 32 (one_vector 1) = Inr (- 2222, s') \<and> s' = one_vector 1"
  using unregister_syscall_outcome [where a = 32, OF one_vector_inv(1) [of 1]] by (auto simp: one_vector_index)

section \<open>Printing\<close>

text \<open>
  C36. \<open>show_all_vectors\<close> writes exactly three lines for every vector, in list order, and returns their
  length, or runs off its 1024-byte buffer or the caller's: the test \<open>ret > MAX_BUFFER_SIZE\<close> stops it
  in no case.
\<close>

theorem show_all_exact:
  assumes "\<forall>v \<in> set (vec_list s). printable v"
  shows "show_all_vectors user_buffer s =
    (let t = registry_text (vec_list s)
     in if length t \<le> MAX_BUFFER_SIZE \<and> length t \<le> length user_buffer
        then Inr (length t, t @ drop (length t) user_buffer) else Inl Buffer_overflow)"
  by (rule show_all_vectors_spec [OF assms])

theorem show_all_exact_witness:
  "show_all_vectors (replicate 10 NUL) (one_vector 0) = Inl Buffer_overflow"
proof -
  have "\<forall>v \<in> set (vec_list (one_vector 0)). printable v" by (simp add: printable55)
  from show_all_exact [OF this, of "replicate 10 NUL"] show ?thesis
    by (simp add: registry_text_def text55 Let_def)
qed

section \<open>Printing while others change the list\<close>

text \<open>
  C37. \<open>show_all_vectors\<close> takes no lock, yet registrations between any two steps of its loop do no harm:
  with enough steps it ends and has written what it would have written alone, since vectors are
  only added in front of the nodes still to be visited.
\<close>

theorem walk_ignores_registrations:
  assumes "allocator_ok km" and "reg_inv s" and "\<forall>s' \<in> set ss. vectors_added km s s'"
    and "2 * length (vec_list s) \<le> length ss"
  shows "walk_trace ss (walk_start s) =
    bindE (show_all_loop (vec_list s) (0, kzalloc_chars MAX_BUFFER_SIZE)) (\<lambda>out. Inr (At 0, out))"
proof -
  have "nodes_ok (vec_list s') \<and> (\<exists>us. vec_list s' = us @ vec_list s)" if "s' \<in> set ss" for s'
    using vectors_added_inv [OF _ assms(1,2)] that assms(3) reg_inv_nodes by blast
  then show ?thesis
    unfolding walk_start_def by (intro walk_trace_loop assms(4)) blast
qed

theorem walk_ignores_registrations_witness:
  "\<exists>s' buf. vec_list s' \<noteq> vec_list (one_vector 0)
     \<and> walk_trace [one_vector 0, s'] (walk_start (one_vector 0)) = Inr (At 0, 15, buf)"
proof -
  let ?s = "one_vector 0"
  let ?r = "registered km40 ''Vector55'' 48 0 Mod_vector1 1 ?s"
  have reg: "register_syscall km40 (''Vector55'' @ [NUL]) 48 Mod_vector1 1 ?s = Inr (fst ?r, snd ?r)"
    using register_syscall_spec [OF km40_ok(1) one_vector_inv(2) name55(1), of 48 Mod_vector1 1 0]
    unfolding name55(2) by simp
  have added: "vectors_added km40 ?s ?s" "vectors_added km40 ?s (snd ?r)"
    using vectors_added.more [OF vectors_added.none name55(1) reg] by (auto intro: vectors_added.none)
  have "walk_trace [?s, snd ?r] (walk_start ?s) =
      bindE (show_all_loop (vec_list ?s) (0, kzalloc_chars MAX_BUFFER_SIZE)) (\<lambda>out. Inr (At 0, out))"
    by (rule walk_ignores_registrations [OF km40_ok(1) one_vector_inv(1)]) (simp_all add: added)
  moreover have "show_all_loop (vec_list ?s) (0, kzalloc_chars MAX_BUFFER_SIZE) =
      put_text [] (registry_text (vec_list ?s)) (kzalloc_chars MAX_BUFFER_SIZE)"
    using show_all_loop_put [of "vec_list ?s" "[]" "kzalloc_chars MAX_BUFFER_SIZE"]
    by (simp add: printable55 kzalloc_chars_def)
  moreover have "vec_list (snd ?r) \<noteq> vec_list ?s"
    using km40_nonzero [of "heap ?s" 2] one_vector_heap(3) by (simp add: registered_def Let_def)
  ultimately show ?thesis
    by (intro exI [of _ "snd ?r"]) (simp add: registry_text_def text55 put_text_def kzalloc_chars_def MAX_BUFFER_SIZE_def)
qed



section \<open>The earlier registry\<close>

text \<open>
  C34. Equivalence: on a usable registry and a terminated name the lookups, releases and removals of
  \<open>vec_copy.c\<close> are those of \<open>vec_load_unload.c\<close>.
\<close>

theorem earlier_registry_equivalent:
  assumes "reg_ok s" and "terminated name"
  shows "vc_get_vector_address name s = get_vector_address name s
    \<and> vc_reduce_ref_count name s = reduce_ref_count name s
    \<and> vc_unregister_syscall a s = unregister_syscall a s"
  using assms by (simp add: vc_get_spec get_vector_address_spec vc_reduce_spec reduce_ref_count_spec vc_unregister_same)

definition vc_boot :: vc_registry where
  "vc_boot = \<lparr>heap = Map.empty, tick = 0, mod_log = [], vec_list = [], list_lock = False, vector_count = 0\<rparr>"

definition vc_one :: vc_registry where
  "vc_one = vc_boot\<lparr>heap := [16 \<mapsto> Vector_node], vector_count := 1,
     vec_list := [(stored_vector 16 ''Vector55'' 32 1 Mod_vec_copy 0)\<lparr>vector_id := 1\<rparr>]\<rparr>"

lemma vc_one_ok: "reg_ok vc_one" "ids_ok vc_one" "addr_index 32 vc_one = Some 0"
  "c_string (vector_name (vec_list vc_one ! 0)) = ''Vector55''"
  using stored55(1,2) [of 16 32 1 Mod_vec_copy 0]
  by (simp_all add: vc_one_def vc_boot_def reg_ok_def ids_ok_def addr_index_def)

theorem earlier_registry_equivalent_witness:
  "vc_reduce_ref_count (''Vector55'' @ [NUL]) vc_one = reduce_ref_count (''Vector55'' @ [NUL]) vc_one"
  using earlier_registry_equivalent [OF vc_one_ok(1), of "''Vector55'' @ [NUL]" 0] by simp

text \<open>
  C35. Loading the earlier registry always returns, and removing it unused leaves no vector. Either
  no structure could be had and memory is as before, or \<open>Vector1\<close> and \<open>Vector2\<close> are registered as
  far as memory allowed, the result tells of the second only, and the two structures of 304 bytes
  are never freed.
\<close>

theorem earlier_module_life:
  assumes "allocator_ok km" and "vec_list s = []"
  shows "\<exists>r s1 s2. vc_init_module km s = Inr (r, s1) \<and> vc_cleanup_module s1 = Inr s2 \<and> vec_list s2 = []
    \<and> (r = - ENOMEM \<and> vec_list s1 = [] \<and> heap s2 = heap s
       \<or> (\<exists>f g b1 b2. f \<noteq> g \<and> heap s f = None \<and> heap s g = None
          \<and> heap s2 = (heap s)(f \<mapsto> Raw 304, g \<mapsto> Raw 304)
          \<and> vc_named s1 = (if b2 then [(''Vector2'', g + 8)] else []) @ (if b1 then [(''Vector1'', f + 8)] else [])
          \<and> r = (if b2 then 0 else - ENOMEM)))"
proof -
  let ?f = "km (tick s) (heap s)"
  let ?g = "km (Suc (tick s)) ((heap s)(?f \<mapsto> Raw 304))"
  show ?thesis
  proof (cases "?f = 0 \<or> ?g = 0")
    case True
    have "vc_cleanup_module s' = Inr s'" if "vec_list s' = []" for s' :: "'a vc_registry_scheme"
      using that by (cases s') (simp add: vc_cleanup_module_def)
    then have same: "vc_cleanup_module (s\<lparr>vector_count := 0, list_lock := False, tick := t\<rparr>) =
        Inr (s\<lparr>vector_count := 0, list_lock := False, tick := t\<rparr>)" for t
      using assms(2) by simp
    obtain t where "vc_init_module km s = Inr (- ENOMEM, s\<lparr>vector_count := 0, list_lock := False, tick := t\<rparr>)"
      unfolding vc_init_spec [OF assms(1)] Let_def using True by (cases "?f = 0") simp_all
    with same assms(2) show ?thesis by fastforce
  next
    case False
    have f: "heap s ?f = None" and "((heap s)(?f \<mapsto> Raw 304)) ?g = None"
      using False allocator_okD(1) [OF assms(1), of "tick s" "heap s"]
        allocator_okD(1) [OF assms(1), of "Suc (tick s)" "(heap s)(?f \<mapsto> Raw 304)"] by blast+
    then have g: "heap s ?g = None" "?f \<noteq> ?g" by (simp_all split: if_splits)
    obtain r s1 where l: "vc_loaded km ?f ?g s = (r, s1)" by fastforce
    have "vc_init_module km s = Inr (r, s1)" unfolding vc_init_spec [OF assms(1)] Let_def using False l by simp
    moreover from vc_loaded_spec(2) [OF assms l] obtain b1 b2 where
      "vc_named s1 = (if b2 then [(''Vector2'', ?g + 8)] else []) @ (if b1 then [(''Vector1'', ?f + 8)] else [])"
      "r = (if b2 then 0 else - ENOMEM)" by blast
    ultimately show ?thesis
      using vc_loaded_spec(1) [OF assms l] f g
      by (intro exI [of _ r] exI [of _ s1] exI [of _ "s1\<lparr>vec_list := [], heap := (heap s)(?f \<mapsto> Raw 304, ?g \<mapsto> Raw 304)\<rparr>"]
          conjI disjI2 exI [of _ ?f] exI [of _ ?g] exI [of _ b1] exI [of _ b2]) simp_all
  qed
qed

theorem earlier_module_life_witness:
  "\<exists>r s1 s2. vc_init_module km40 vc_boot = Inr (r, s1) \<and> vc_cleanup_module s1 = Inr s2 \<and> vec_list s2 = []"
proof -
  have "vec_list vc_boot = []" by (simp add: vc_boot_def)
  from earlier_module_life [OF km40_ok(1) this] show ?thesis by blast
qed

text \<open>
  The earlier registry numbers its vectors: as long as the count stays below \<open>2 ^ 31\<close>, registering
  keeps all ids distinct, positive and at most \<open>vector_count\<close>.
\<close>

theorem ids_stay_distinct:
  assumes "allocator_ok km" and "reg_ok s" and "name_ok name" and "ids_ok s"
    and "unat (vector_count s) + 1 < 2 ^ 31"
  shows "\<exists>r s'. vc_register_syscall km name a m s = Inr (r, s') \<and> ids_ok s'"
  using vc_register_spec [OF assms(1-3), of a m] ids_ok_registered [OF assms(4,5), of km "c_string name" a m]
  by (cases "vc_registered km (c_string name) a m s") auto

theorem ids_stay_distinct_witness:
  "\<exists>r s'. vc_register_syscall km40 (''Vector55'' @ [NUL]) 48 Mod_vec_copy vc_one = Inr (r, s') \<and> ids_ok s'"
  by (rule ids_stay_distinct [OF km40_ok(1) vc_one_ok(1) name55(1) vc_one_ok(2)])
    (simp add: vc_one_def vc_boot_def)

text \<open>
  What \<open>show_my_vector\<close> of the earlier registry leaves in a zeroed buffer is the vector's name, so
  releasing by that buffer drops a reference of a vector of that name: the first one, which is the
  process's own vector when names are not used twice.
\<close>

theorem earlier_name_releases:
  assumes ok: "reg_ok s" and a: "a \<noteq> 0" "addr_index a s = Some i"
    and n: "name_index (c_string (vector_name (vec_list s ! i))) s = Some i"
    and len: "length (c_string (vector_name (vec_list s ! i))) < n"
  shows "\<exists>k buf. vc_show_my_vector (Some (kzalloc_chars n)) a s = Inr (k, Some buf)
    \<and> vc_reduce_ref_count buf s = Inr (refcount (vec_list s ! i) - 1, drop_ref i s)"
proof -
  let ?t = "c_string (vector_name (vec_list s ! i))"
  let ?buf = "?t @ drop (length ?t) (kzalloc_chars n)"
  have b: "terminated ?buf" "c_string ?buf = ?t"
    using len by (simp_all add: kzalloc_chars_def c_string_append_terminated)
  have "vc_show_my_vector (Some (kzalloc_chars n)) a s = Inr (of_nat (length ?t), Some ?buf)"
    using vc_show_my_spec [OF ok a, of "kzalloc_chars n"] len by (simp add: Let_def kzalloc_chars_def)
  moreover have "vc_reduce_ref_count ?buf s = Inr (refcount (vec_list s ! i) - 1, drop_ref i s)"
    using vc_reduce_spec [OF ok b(1)] n b(2) by simp
  ultimately show ?thesis by blast
qed

theorem earlier_name_releases_witness:
  "\<exists>k buf. vc_show_my_vector (Some (kzalloc_chars 256)) 32 vc_one = Inr (k, Some buf)
    \<and> vc_reduce_ref_count buf vc_one = Inr (0, drop_ref 0 vc_one)"
proof -
  have "name_index (c_string (vector_name (vec_list vc_one ! 0))) vc_one = Some 0"
    by (simp add: vc_one_def vc_boot_def name_index_def)
  from earlier_name_releases [OF vc_one_ok(1) _ vc_one_ok(3) this, of 256] vc_one_ok(4)
  show ?thesis by (simp add: vc_one_def vc_boot_def)
qed

end
