(* ===== verification/Vector_Properties.thy ===== *)
theory Vector_Properties
  imports Sample_States
begin

text \<open>
  What the vectors themselves promise: the lists of overridden system calls, the two sample
  modules that register one each, and the vectors made from a bitmap.
\<close>

section \<open>Lists of overridden system calls\<close>

text \<open>
  C32. Deleting a list always ends: from the head of a NULL-terminated list the loop frees exactly its
  nodes, reads no freed node and changes nothing else.
\<close>

theorem delete_vector_ends:
  assumes "sc_list (heap s) p es"
  shows "free_syscall_list p s = Inr (s\<lparr>heap := heap s |` (- fst ` set es)\<rparr>)"
  by (rule free_syscall_list_spec [OF assms])

theorem delete_vector_ends_witness:
  "\<exists>s'. free_syscall_list 32 (one_vector 0) = Inr s' \<and> heap s' 32 = None \<and> heap s' 16 = Some Vector_node"
  using delete_vector_ends [OF one_vector_list, of 0] by (simp add: one_vector_heap)

text \<open>
  Adding a system call always ends: without memory the result is -ENOMEM and heap and head stay;
  otherwise the list has the new call at its end, in memory that was free, and every other address
  is as before.
\<close>

theorem add_syscall_outcome:
  assumes "allocator_ok km" and "sc_list (heap s) p es"
  shows "\<exists>ret p' s'. append_syscall_node km nr f p s = Inr (ret, p', s') \<and>
    (let a = km (tick s) (heap s) in
     if a = 0 then ret = - ENOMEM \<and> p' = p \<and> heap s' = heap s
     else ret = 0 \<and> heap s a = None \<and> sc_list (heap s') p' (es @ [(a, nr, f)]) \<and> (p \<noteq> 0 \<longrightarrow> p' = p)
       \<and> (\<forall>b. b \<noteq> a \<longrightarrow> b \<notin> fst ` set es \<longrightarrow> heap s' b = heap s b))"
  using append_syscall_node_spec [OF assms, of nr f] allocator_okD(1) [OF assms(1), of "tick s" "heap s"]
  by (fastforce simp: added_syscall_def Let_def split: if_splits)

theorem add_syscall_outcome_witness:
  "\<exists>ret p' s'. append_syscall_node km40 NR_open OverriddenOpen 32 (one_vector 0) = Inr (ret, p', s')
     \<and> (ret = - ENOMEM \<or> p' = 32)"
  using add_syscall_outcome [OF km40_ok(1) one_vector_list, of NR_open OverriddenOpen 0]
  by (fastforce simp: Let_def split: if_splits)

section \<open>The sample vectors\<close>

text \<open>
  Loading a sample module whose list is empty always returns. The vector is registered with the
  module's name, bitmap and calls, or the result is -ENOMEM and no vector is added: then memory is as
  before, or all nodes of the list were built, registering failed and the nodes stay allocated.
  The registry stays well formed and no module is pinned.
\<close>

theorem vector1_load_outcome:
  assumes "allocator_ok km" and "reg_inv s" and "v1_listHead s = 0"
  shows "\<exists>ret s' es. v1_init_override km s = Inr (ret, s') \<and> reg_inv s' \<and> mod_log s' = mod_log s
    \<and> (ret = - ENOMEM \<and> vec_list s' = vec_list s \<and> v1_listHead s' = 0 \<and> heap s' = heap s
     \<or> ret = - ENOMEM \<and> vec_list s' = vec_list s \<and> map snd es = v1_calls
        \<and> built (heap s) (heap s') (v1_listHead s') es
     \<or> ret = 0 \<and> map snd es = v1_calls \<and> (\<exists>va. va \<noteq> 0 \<and> heap s va = None
        \<and> vec_list s' = stored_vector va ''Vector55'' (v1_listHead s') 0 Mod_vector1 55 # vec_list s
        \<and> built ((heap s)(va \<mapsto> Vector_node)) (heap s') (v1_listHead s') es))"
proof -
  have "c_string v1_vector_name = ''Vector55''"
    by (simp add: v1_vector_name_def MAX_VECTOR_NAME_LEN_def c_string_append_terminated)
  moreover have "READ_OVERRIDE + WRITE_OVERRIDE + OPEN_OVERRIDE + LINK_OVERRIDE + UNLINK_OVERRIDE = 55"
    by (simp add: override_bits)
  ultimately show ?thesis using sample1.init_outcome [OF assms] by (simp only:)
qed

theorem vector1_load_outcome_witness:
  "\<exists>ret s'. v1_init_override km40 boot = Inr (ret, s') \<and> reg_inv s' \<and> (ret = 0 \<or> ret = - ENOMEM)"
  using vector1_load_outcome [OF km40_ok(1) boot_facts(1) boot_facts(4)] by blast

text \<open>
  C20. With room for six blocks both sample modules load: the head of the registry is \<open>Vector55\<close> with
  bitmap 55 = read, write, open, link, unlink, or \<open>Vector968\<close> with bitmap 968 = mkdir, rmdir,
  logged write, blocked open, close, and its address leads to a list of exactly these calls.
\<close>

theorem sample_vectors_load:
  assumes "allocator_ok km" and "roomy b km" and "reg_inv s" and "card (dom (heap s)) + 5 \<le> b"
    and "v1_listHead s = 0" and "v2_listHead s = 0"
  shows "(\<exists>s' es va. v1_init_override km s = Inr (0, s') \<and> map snd es =
       [(NR_link, OverriddenLink), (NR_unlink, OverriddenUnlink), (NR_read, OverriddenRead),
        (NR_open, OverriddenOpen), (NR_write, OverriddenWrite)]
       \<and> vec_list s' = stored_vector va ''Vector55'' (v1_listHead s') 0 Mod_vector1 55 # vec_list s
       \<and> sc_list (heap s') (v1_listHead s') es)
    \<and> (\<exists>s' es va. v2_init_override km s = Inr (0, s') \<and> map snd es =
       [(NR_mkdir, OverriddenMkdir), (NR_rmdir, OverriddenRmdir), (NR_write, LoggedWrite),
        (NR_open, BlockedOpen), (NR_close, OverriddenClose)]
       \<and> vec_list s' = stored_vector va ''Vector968'' (v2_listHead s') 0 Mod_vector2 968 # vec_list s
       \<and> sc_list (heap s') (v2_listHead s') es)"
proof -
  have n: "c_string v1_vector_name = ''Vector55''" "c_string v2_vector_name = ''Vector968''"
    by (simp_all add: v1_vector_name_def v2_vector_name_def MAX_VECTOR_NAME_LEN_def c_string_append_terminated)
  have b: "READ_OVERRIDE + WRITE_OVERRIDE + OPEN_OVERRIDE + LINK_OVERRIDE + UNLINK_OVERRIDE = 55"
    "MKDIR_OVERRIDE + RMDIR_OVERRIDE + WRITE_LOGGED + OPEN_BLOCKED + CLOSE_OVERRIDE = 968"
    by (simp_all add: override_bits)
  have l: "card (dom (heap s)) + length v1_calls \<le> b" "card (dom (heap s)) + length v2_calls \<le> b"
    using assms(4) by (simp_all add: v1_calls_def v2_calls_def)
  from sample1.init_roomy [OF assms(1-3,5) l(1), unfolded n b built_def] obtain s1 es1 va1 where
    1: "v1_init_override km s = Inr (0, s1)" "map snd es1 = v1_calls"
      "vec_list s1 = stored_vector va1 ''Vector55'' (v1_listHead s1) 0 Mod_vector1 55 # vec_list s"
      "sc_list (heap s1) (v1_listHead s1) es1" by blast
  from sample2.init_roomy [OF assms(1-3,6) l(2), unfolded n b built_def] obtain s2 es2 va2 where
    2: "v2_init_override km s = Inr (0, s2)" "map snd es2 = v2_calls"
      "vec_list s2 = stored_vector va2 ''Vector968'' (v2_listHead s2) 0 Mod_vector2 968 # vec_list s"
      "sc_list (heap s2) (v2_listHead s2) es2" by blast
  show ?thesis unfolding v1_calls_def [symmetric] v2_calls_def [symmetric]
    by (intro conjI exI) (rule 1 2)+
qed

theorem sample_vectors_load_witness:
  "\<exists>s' va. v2_init_override km40 boot = Inr (0, s')
     \<and> vec_list s' = [stored_vector va ''Vector968'' (v2_listHead s') 0 Mod_vector2 968]"
proof -
  have "card (dom (heap boot)) + 5 \<le> 40" by (simp add: boot_facts)
  from sample_vectors_load [OF km40_ok boot_facts(1) this boot_facts(4,5)] show ?thesis
    by (auto simp: boot_facts(7))
qed

text \<open>
  Round trip: loading a sample module and removing it before anybody takes its vector leaves heap
  and registry as they were.
\<close>

theorem load_remove_roundtrip:
  assumes "allocator_ok km" and "reg_inv s"
  shows "(v1_listHead s = 0 \<and> v1_init_override km s = Inr (0, s1) \<longrightarrow>
       (\<exists>t. v1_cleanup_override s1 = Inr t \<and> heap t = heap s \<and> vec_list t = vec_list s \<and> v1_listHead t = 0))
    \<and> (v2_listHead s = 0 \<and> v2_init_override km s = Inr (0, s2) \<longrightarrow>
       (\<exists>t. v2_cleanup_override s2 = Inr t \<and> heap t = heap s \<and> vec_list t = vec_list s \<and> v2_listHead t = 0))"
  using sample1.init_cleanup [OF assms] sample2.init_cleanup [OF assms] by blast

theorem load_remove_roundtrip_witness:
  "\<exists>s1 t. v1_init_override km40 boot = Inr (0, s1) \<and> v1_cleanup_override s1 = Inr t
     \<and> heap t = Map.empty \<and> vec_list t = []"
proof -
  have "card (dom (heap boot)) + length v1_calls \<le> 40" by (simp add: boot_facts v1_calls_def)
  from sample1.init_roomy [OF km40_ok boot_facts(1) boot_facts(4) this] obtain s1
    where s1: "v1_init_override km40 boot = Inr (0, s1)" by blast
  with load_remove_roundtrip [OF km40_ok(1) boot_facts(1), of s1 s1] boot_facts(4,6,7)
  show ?thesis by auto
qed

section \<open>Vectors made from a bitmap\<close>

text \<open>
  With room in memory and no vector of that bitmap, \<open>add_vector_from_bitmap\<close> makes one: it is the
  head of the registry with one reference, its address leads to exactly the overrides the code knows
  for the bitmap, the calling process runs under it, its module is pinned once and the address is
  stored in \<open>list_heads\<close>. Two scratch buffers stay allocated, and the result is the address cut to 32 bits.
\<close>

theorem bitmap_vector_created:
  assumes "allocator_ok km" and "roomy b km" and inv: "reg_inv s" and "dyn_listHead s = 0"
    and "dyn_i s < length (list_heads s)" and "card (dom (heap s)) + 10 \<le> b"
    and none: "bitmap_index bm s = None"
  shows "\<exists>s' t p va es. add_vector_from_bitmap km bm s = Inr (ucast (current_vector s'), s')
    \<and> created bm s t p va es s'"
  unfolding add_vector_new(1) [OF reg_inv_ok [OF inv] none]
  by (rule create_from_bitmap_created [OF assms(1-6)])

theorem bitmap_vector_created_witness:
  "\<exists>s' t p va es. add_vector_from_bitmap km40 1 (one_vector 0) = Inr (ucast (current_vector s'), s')
    \<and> created 1 (one_vector 0) t p va es s'"
  by (rule bitmap_vector_created [OF km40_ok one_vector_inv(1)])
    (simp_all add: one_vector_heap one_vector_index)

text \<open>
  A registered vector with that bitmap and an address is reused: it gets one more reference and
  its module one more pin, the process runs under it, and nothing else of registry or heap changes:
  the reference on the vector the process had before is not given back.
\<close>

theorem bitmap_vector_reused:
  assumes "reg_ok s" and k: "bitmap_index bm s = Some k"
    and "overriddenSyscalls_address (vec_list s ! k) = a" and "a \<noteq> 0"
  shows "\<exists>s'. add_vector_from_bitmap km bm s = Inr (ucast a, s') \<and> current_vector s' = a \<and> heap s' = heap s
    \<and> vec_list s' = (vec_list s)[k := (vec_list s ! k)\<lparr>refcount := refcount (vec_list s ! k) + 1\<rparr>]
    \<and> mod_log s' = Module_get (vector_module (vec_list s ! k)) # mod_log s"
  using add_vector_reuse [OF assms, of km]
  by (simp add: ref_defs set_current_vector_def current_vector_def)

theorem bitmap_vector_reused_witness:
  "\<exists>s'. add_vector_from_bitmap km40 55 (one_vector 3) = Inr (32, s') \<and> current_vector s' = 32
     \<and> mod_log s' = [Module_get Mod_vector1]"
  using bitmap_vector_reused [OF one_vector_inv(2) one_vector_index(3), of 3 32 km40] by auto

text \<open>
  Whatever the allocator does, the error branch of the additions is never taken: \<open>ret < 0\<close> is false
  of every \<open>unsigned long\<close>. Overrides whose node could not be allocated are left out silently: what is
  built is a subsequence of what the bitmap asks for.
\<close>

theorem failed_overrides_are_skipped:
  assumes "allocator_ok km" and "dyn_listHead s = 0"
  shows "\<exists>r s' es. dyn_add_overrides km bm dyn_table ret s = Inr (False, r, s')
    \<and> built (heap s) (heap s') (dyn_listHead s') es \<and> subseq (map snd es) (dyn_calls bm)"
proof -
  have "built (heap s) (heap s) (dyn_listHead s) []" using assms(2) by simp
  from dyn_add_overrides_built [OF assms(1) this, of bm dyn_table ret] show ?thesis
    by (auto simp: dyn_calls_def)
qed

theorem failed_overrides_are_skipped_witness:
  "\<exists>r s' es. dyn_add_overrides (\<lambda>_ _. 0) 3 dyn_table 0 boot = Inr (False, r, s')
    \<and> built (heap boot) (heap s') (dyn_listHead s') es"
  using failed_overrides_are_skipped [of "\<lambda>_ _. 0" boot 3 0] boot_facts(3)
  by (auto simp: allocator_ok_def)

text \<open>
  C40. The bits of \<open>mkdir\<close> and \<open>rmdir\<close> are in the table of overrides but not in this code: a bitmap of
  these bits only registers a vector whose address is NULL and leaves the process without a vector,
  though the vector counts a reference.
\<close>

theorem directory_bitmaps_give_null:
  assumes "allocator_ok km" and "roomy b km" and "reg_inv s" and "dyn_listHead s = 0"
    and "dyn_i s < length (list_heads s)" and "card (dom (heap s)) + 10 \<le> b"
    and "bitmap_index bm s = None" and bm: "bm \<in> {MKDIR_OVERRIDE, RMDIR_OVERRIDE, MKDIR_OVERRIDE OR RMDIR_OVERRIDE}"
  shows "\<exists>s' va. add_vector_from_bitmap km bm s = Inr (0, s') \<and> current_vector s' = 0
    \<and> vec_list s' = stored_vector va (dyn_name bm) 0 1 Mod_dynamic_vector bm # vec_list s"
proof -
  have none: "dyn_calls bm = []" using bm by (auto simp: dyn_calls_def dyn_table_def override_bits)
  from create_from_bitmap_created [OF assms(1-6), of bm 0] obtain s' t p va es where
    s': "create_from_bitmap km bm 0 s = Inr (ucast (current_vector s'), s')" "created bm s t p va es s'" by blast
  have "es = []" using s'(2) by (simp add: created_def none)
  moreover have "sc_list (heap s') (current_vector s') es" using s'(2) unfolding created_def built_def by blast
  ultimately have "current_vector s' = 0" by simp
  with s' show ?thesis
    unfolding add_vector_new(1) [OF reg_inv_ok [OF assms(3)] assms(7)] created_def by auto
qed

theorem directory_bitmaps_give_null_witness:
  "\<exists>s'. add_vector_from_bitmap km40 64 boot = Inr (0, s') \<and> current_vector s' = 0"
proof -
  have "bitmap_index 64 boot = None" by (simp add: bitmap_index_def boot_facts)
  then show ?thesis
    using directory_bitmaps_give_null [OF km40_ok boot_facts(1,3), of 64]
    by (auto simp: boot_facts override_bits)
qed

text \<open>
  The array \<open>list_heads\<close> has 256 slots and no check: once they are used, the next vector made from a
  bitmap, whenever its scratch memory can be allocated, is stored past the end of the array.
\<close>

theorem list_heads_overflow:
  assumes km: "allocator_ok km" and inv: "reg_inv s" and start: "dyn_listHead s = 0"
    and t: "km (tick s) (heap s) \<noteq> 0"
    and p: "km (Suc (tick s)) ((heap s)(km (tick s) (heap s) \<mapsto> Raw 32)) \<noteq> 0"
    and none: "bitmap_index bm s = None" and full: "dyn_i s = length (list_heads s)"
  shows "add_vector_from_bitmap km bm s = Inl Buffer_overflow"
proof -
  from create_from_bitmap_reaches [OF km inv start t p, of bm 0] obtain s3 where
    s3: "create_from_bitmap km bm 0 s = register_and_assign km bm (dyn_name bm @ [NUL]) s3"
      "dyn_rest s3 = dyn_rest s" "reg_inv s3" by blast
  have "\<not> dyn_i s3 < length (list_heads s3)" using dyn_rest_frame [OF s3(2)] full by simp
  from register_and_assign_full [OF km s3(3) this] s3(1) show ?thesis
    by (simp add: add_vector_new(1) [OF reg_inv_ok [OF inv] none])
qed

theorem list_heads_overflow_witness:
  "add_vector_from_bitmap km40 1 (boot\<lparr>dyn_i := 256\<rparr>) = Inl Buffer_overflow"
proof (rule list_heads_overflow [OF km40_ok(1)])
  let ?s = "boot\<lparr>dyn_i := 256\<rparr>"
  show "reg_inv ?s" using boot_facts(1) by (simp add: reg_inv_def reg_ok_def)
  show "km40 (tick ?s) (heap ?s) \<noteq> 0" by (rule km40_nonzero) (simp add: boot_facts)
  show "km40 (Suc (tick ?s)) ((heap ?s)(km40 (tick ?s) (heap ?s) \<mapsto> Raw 32)) \<noteq> 0"
    by (rule km40_nonzero) (simp add: boot_facts)
qed (simp_all add: boot_facts bitmap_index_def)

text \<open>Removing the module when one vector was made: it goes, and its list, unless it has a reference.\<close>

lemma dyn_cleanup_one:
  assumes inv: "reg_inv s" and slot: "dyn_i s = 1" "list_heads s \<noteq> []" "list_heads s ! 0 = a" "a \<noteq> 0"
    and i: "addr_index a s = Some i" "\<not> sint (refcount (vec_list s ! i)) > 0" and es: "sc_list (heap s) a es"
  shows "dyn_cleanup_override s = Inr (s\<lparr>vec_list := list_del i (vec_list s), dyn_i := 0,
    heap := (heap s |` (- fst ` set es))(node_ptr (vec_list s ! i) := None)\<rparr>)"
proof -
  let ?va = "node_ptr (vec_list s ! i)"
  let ?s = "s\<lparr>vec_list := list_del i (vec_list s), heap := (heap s)(?va := None)\<rparr>"
  have un: "unregister_syscall a s = Inr (0, ?s)" using unregister_syscall_spec [OF inv, of a] i by simp
  have "heap s ?va = Some Vector_node" using inv index_bounds(2) [OF i(1)] by (simp add: reg_inv_def)
  then have "?va \<notin> fst ` set es" using sc_list_heap [OF es] by fastforce
  then have "sc_list (heap ?s) a es" using es by (simp add: sc_list_frame)
  from free_syscall_list_spec [OF this] un slot show ?thesis
    by (simp add: dyn_cleanup_override_def dyn_delete_vector_def restrict_upd_None)
qed

text \<open>
  C7. The life of a vector made from a bitmap: created for a process, released by its address and removed
  with the module, it leaves the registry and the module's pins as they were, and in memory exactly
  the two scratch buffers of its creation, which nothing frees.
\<close>

theorem bitmap_vector_life:
  assumes km: "allocator_ok km" "roomy b km" and inv: "reg_inv s" and start: "dyn_listHead s = 0"
    and slot: "dyn_i s = 0" "list_heads s \<noteq> []" and room: "card (dom (heap s)) + 10 \<le> b"
    and none: "bitmap_index bm s = None" and calls: "dyn_calls bm \<noteq> []"
  shows "\<exists>s1 s2 s3 t p. add_vector_from_bitmap km bm s = Inr (ucast (current_vector s1), s1)
    \<and> reduce_ref_count_from_address (current_vector s1) s1 = Inr (0, s2)
    \<and> module_refs Mod_dynamic_vector (mod_log s2) = module_refs Mod_dynamic_vector (mod_log s)
    \<and> dyn_cleanup_override s2 = Inr s3 \<and> vec_list s3 = vec_list s
    \<and> heap s t = None \<and> heap s p = None \<and> t \<noteq> p
    \<and> heap s3 = (heap s)(t \<mapsto> Raw 32, p \<mapsto> Raw (7 + length (sprintf_d bm)))"
proof -
  from create_from_bitmap_created [OF km inv start _ room, of bm 0] slot obtain s1 t p va es where
    run: "create_from_bitmap km bm 0 s = Inr (ucast (current_vector s1), s1)" and c: "created bm s t p va es s1"
    by auto
  let ?a = "current_vector s1" and ?h = "(heap s)(t \<mapsto> Raw 32, p \<mapsto> Raw (7 + length (sprintf_d bm)))"
  from c have inv1: "reg_inv s1" and b: "built (?h(va \<mapsto> Vector_node)) (heap s1) ?a es"
    and v: "vec_list s1 = stored_vector va (dyn_name bm) ?a 1 Mod_dynamic_vector bm # vec_list s"
    and hs: "list_heads s1 ! 0 = ?a" "list_heads s1 \<noteq> []" "dyn_i s1 = 1"
    and log: "mod_log s1 = Module_get Mod_dynamic_vector # mod_log s"
    and free: "heap s t = None" "heap s p = None" "t \<noteq> p" "?h va = None" and es: "map snd es = dyn_calls bm"
    using slot by (auto simp: created_def)
  have l1: "sc_list (heap s1) ?a es" and va: "va \<notin> fst ` set es" using b by (auto simp: built_def)
  then have nz: "?a \<noteq> 0" using es calls by auto
  have i: "addr_index ?a s1 = Some 0" using v by (simp add: addr_index_def)
  let ?s2 = "drop_ref 0 s1"
  have rel: "reduce_ref_count_from_address ?a s1 = Inr (0, ?s2)"
    using reduce_ref_count_from_address_spec [OF reg_inv_ok [OF inv1], of ?a] i v by simp
  have inv2: "reg_inv ?s2" by (rule reg_inv_ref(2) [OF inv1])
  have s2: "heap ?s2 = heap s1" "list_heads ?s2 = list_heads s1" "dyn_i ?s2 = 1"
    "mod_log ?s2 = Module_put Mod_dynamic_vector # mod_log s1"
    using hs v by (simp_all add: ref_defs stored_vector_def)
  have "vec_list (add_refcount 0 (- 1) s1) = stored_vector va (dyn_name bm) ?a 0 Mod_dynamic_vector bm # vec_list s"
    using v by (simp add: add_refcount_def stored_vector_def)
  then have "addr_index ?a ?s2 = Some 0" "\<not> sint (refcount (vec_list ?s2 ! 0)) > 0"
    "sc_list (heap ?s2) ?a es" "node_ptr (vec_list ?s2 ! 0) = va" "list_del 0 (vec_list ?s2) = vec_list s"
    using l1 by (simp_all add: s2 addr_index_def list_del_def)
  note cl = dyn_cleanup_one [OF inv2 s2(3) _ _ nz this(1-3), unfolded this(4,5) s2(1,2)]
  let ?s3 = "?s2\<lparr>vec_list := vec_list s, dyn_i := 0, heap := ?h\<rparr>"
  have "(heap s1 |` (- fst ` set es))(va := None) = ?h"
    unfolding built_delete [OF b] using free(4) by (rule upd_None_idem)
  then have "dyn_cleanup_override ?s2 = Inr ?s3" using cl hs by simp
  with run rel s2(4) log free(1-3) show ?thesis
    unfolding add_vector_new(1) [OF reg_inv_ok [OF inv] none]
    by (intro exI [of _ s1] exI [of _ ?s2] exI [of _ ?s3] exI [of _ t] exI [of _ p]) simp
qed

theorem bitmap_vector_life_witness:
  "\<exists>s1 s2 s3. add_vector_from_bitmap km40 1 boot = Inr (ucast (current_vector s1), s1)
    \<and> reduce_ref_count_from_address (current_vector s1) s1 = Inr (0, s2)
    \<and> dyn_cleanup_override s2 = Inr s3 \<and> vec_list s3 = []"
proof -
  have "bitmap_index 1 boot = None" "dyn_calls 1 \<noteq> []" "list_heads boot \<noteq> []"
    "card (dom (heap boot)) + 10 \<le> 40"
    by (simp_all add: bitmap_index_def boot_facts dyn_calls_def dyn_table_def override_bits boot_def)
  from bitmap_vector_life [OF km40_ok boot_facts(1,3,8) this(3,4,1,2)] boot_facts(7) show ?thesis by metis
qed

end
