(* ===== verification/Device_Answers.thy ===== *)
theory Device_Answers
  imports Ioctl Display_Client
begin

text \<open>
  The requests that only look: what a call of \<open>custom_ioctl\<close> comes to when memory allows, as one
  equation each. The kernel afterwards differs in the user's memory, the allocation counter and a
  get and put of the device's own module.
\<close>

definition answered :: "nat \<Rightarrow> addr \<Rightarrow> char list \<Rightarrow> 'a ioctl_state_scheme \<Rightarrow> 'a ioctl_state_scheme" where
  "answered n p bs s = s\<lparr>tick := n, user_out := (user_out s)(p \<mapsto> bs),
     mod_log := Module_put Mod_ioctl_module # Module_get Mod_ioctl_module # mod_log s\<rparr>"

lemma answered_fields [simp]:
  "heap (answered n p bs s) = heap s" "vec_list (answered n p bs s) = vec_list s"
  "vector_info (answered n p bs s) = vector_info s" "current (answered n p bs s) = current s"
  "user_out (answered n p bs s) = (user_out s)(p \<mapsto> bs)" "mutexlock (answered n p bs s) = mutexlock s"
  "current_vector (answered n p bs s) = current_vector s" "chrdev (answered n p bs s) = chrdev s"
  "list_lock (answered n p bs s) = list_lock s" "dyn_listHead (answered n p bs s) = dyn_listHead s"
  "list_heads (answered n p bs s) = list_heads s" "dyn_i (answered n p bs s) = dyn_i s"
  by (simp_all add: answered_def current_vector_def)

lemma answered_kept [simp]:
  "texts_fit (answered n p bs s) = texts_fit s" "my_text a (answered n p bs s) = my_text a s"
  "ioctl_ready (answered n p bs s) = ioctl_ready s" "reg_ok (answered n p bs s) = reg_ok s"
  "name_index q (answered n p bs s) = name_index q s" "addr_index a (answered n p bs s) = addr_index a s"
  "pin_excess m (answered n p bs s) = pin_excess m s" "bitmap_index bm (answered n p bs s) = bitmap_index bm s"
  "vec_list (add_refcount j d (answered n p bs s)) = vec_list (add_refcount j d s)"
  by (simp_all add: texts_fit_def my_text_def addr_index_def name_index_def ioctl_ready_def reg_inv_def reg_ok_def
      pin_excess_def vector_refs_def bitmap_index_def add_refcount_def answered_def cong: option.case_cong)

lemma show_all_runs:
  assumes km: "allocator_ok km" "roomy b km" and ready: "ioctl_ready s" and room: "card (dom (heap s)) + 2 \<le> b"
    and fit: "texts_fit s" and reply: "not_copied u p BUF_LEN = 0"
  obtains n where "custom_ioctl km u IOCTL_SHOW_ALL p s = Inr (0, answered n p (padded (all_text s)) s)"
proof -
  have free: "\<not> mutexlock s" using ready by (simp add: ioctl_ready_def)
  obtain buf n where run: "custom_ioctl km u IOCTL_SHOW_ALL p s = bindE (ioctl_switch km u IOCTL_SHOW_ALL p
        (s\<lparr>mutexlock := True, tick := n, heap := (heap s)(buf \<mapsto> Raw BUF_LEN)\<rparr>)) (\<lambda>(c, s). ioctl_end buf c s)"
    and buf: "buf \<noteq> 0" "heap s buf = None"
    by (rule ioctl_start [OF km free room])
  let ?s = "s\<lparr>mutexlock := True, tick := n, heap := (heap s)(buf \<mapsto> Raw BUF_LEN)\<rparr>"
  have t: "texts_fit ?s" "all_text ?s = all_text s" using fit by (simp_all add: texts_fit_def all_text_def)
  have len: "length (padded (all_text s)) = BUF_LEN" by (rule padded_length [OF all_text_fits [OF fit]])
  have "ioctl_switch km u IOCTL_SHOW_ALL p ?s = ioctl_show_all u p ?s" by (simp add: ioctl_switch_def ioctl_numbers)
  also note ioctl_show_all_eq [OF t(1), unfolded t(2)]
  finally show ?thesis
    using that [of n] run reply_ends [OF buf(2,1) _ free, where u = u and dst = p and n = n and x = "Raw BUF_LEN"
        and b = "padded (all_text s)"] reply len by (simp add: answered_def)
qed

lemma show_mine_runs:
  assumes km: "allocator_ok km" "roomy b km" and ready: "ioctl_ready s" and room: "card (dom (heap s)) + 2 \<le> b"
    and fit: "texts_fit s" and reply: "not_copied u p BUF_LEN = 0"
  obtains n where "custom_ioctl km u IOCTL_SHOW_MINE p s = Inr (0, answered n p (padded (my_text (current_vector s) s)) s)"
proof -
  have free: "\<not> mutexlock s" using ready by (simp add: ioctl_ready_def)
  obtain buf n where run: "custom_ioctl km u IOCTL_SHOW_MINE p s = bindE (ioctl_switch km u IOCTL_SHOW_MINE p
        (s\<lparr>mutexlock := True, tick := n, heap := (heap s)(buf \<mapsto> Raw BUF_LEN)\<rparr>)) (\<lambda>(c, s). ioctl_end buf c s)"
    and buf: "buf \<noteq> 0" "heap s buf = None"
    by (rule ioctl_start [OF km free room])
  let ?s = "s\<lparr>mutexlock := True, tick := n, heap := (heap s)(buf \<mapsto> Raw BUF_LEN)\<rparr>"
  let ?t = "my_text (current_vector s) s"
  have t: "texts_fit ?s" "my_text a ?s = my_text a s" "current_vector ?s = current_vector s" for a
    using fit by (simp_all add: texts_fit_def my_text_def addr_index_def current_vector_def cong: option.case_cong)
  have len: "length (padded ?t) = BUF_LEN" by (rule padded_length [OF my_text_fits [OF fit]])
  have "ioctl_switch km u IOCTL_SHOW_MINE p ?s = ioctl_show_mine u p ?s" by (simp add: ioctl_switch_def ioctl_numbers)
  also note ioctl_show_mine_eq [OF t(1), unfolded t(2,3)]
  finally show ?thesis
    using that [of n] run reply_ends [OF buf(2,1) _ free, where u = u and dst = p and n = n and x = "Raw BUF_LEN"
        and b = "padded ?t"] reply len by (simp add: answered_def)
qed

section \<open>What a reader makes of the answers\<close>

lemma registry_text_no_NUL: "NUL \<notin> set (registry_text vs)"
  by (induction vs) (simp_all add: registry_text_def vector_text_no_NUL)

lemma all_text_no_NUL: "NUL \<notin> set (all_text s)"
  by (simp add: all_text_def registry_text_no_NUL)

lemma padded_terminated: "length t < BUF_LEN \<Longrightarrow> terminated (padded t)"
  by (simp add: padded_def terminated_def)

lemma c_string_all: "texts_fit s \<Longrightarrow> c_string (padded (all_text s)) = all_text s"
  by (rule padded_string [OF all_text_fits all_text_no_NUL])

lemma c_string_my: "texts_fit s \<Longrightarrow> c_string (padded (my_text a s)) = my_text a s"
  by (rule padded_string [OF my_text_fits my_text_no_NUL])

lemma strtok_single: "NL \<notin> set t \<Longrightarrow> acc @ t \<noteq> [] \<Longrightarrow> strtok_nl acc t = [acc @ t]"
  by (induction t arbitrary: acc) auto

definition all_shown :: "'a registry_scheme \<Rightarrow> string list" where
  "all_shown s = (if vec_list s = [] then [rule_line, ''The vector name is : no vectors present'' @ [NL]]
     else concat (map shown (vec_list s)))"

lemma display_all:
  assumes "texts_fit s" and "one_line_names (vec_list s)"
  shows "display_vectors (padded (all_text s)) = all_shown s"
proof (cases "vec_list s = []")
  case True
  then have "c_string (padded (all_text s)) = ''no vectors present''"
    using c_string_all [OF assms(1)] by (simp add: all_text_def)
  with True show ?thesis
    by (simp add: display_vectors_def display_token_def all_shown_def)
next
  case False
  then have "c_string (padded (all_text s)) = registry_text (vec_list s)"
    using c_string_all [OF assms(1)] by (simp add: all_text_def)
  from display_registry_text [OF assms(2) this] False show ?thesis by (simp add: all_shown_def)
qed

section \<open>The handler's own blocks\<close>

text \<open>The two allocations of a command with a buffer of its own, when both succeed.\<close>

lemma named_command:
  assumes km: "allocator_ok km" "roomy b km" and ready: "ioctl_ready s" and room: "card (dom (heap s)) + 2 \<le> b"
  obtains buf vn n where "custom_ioctl km u req p s = bindE (ioctl_switch km u req p
        (s\<lparr>mutexlock := True, tick := n, heap := (heap s)(buf \<mapsto> Raw BUF_LEN)\<rparr>)) (\<lambda>(c, s). ioctl_end buf c s)"
    and "kmalloc km (Raw k) (s\<lparr>mutexlock := True, tick := n, heap := (heap s)(buf \<mapsto> Raw BUF_LEN)\<rparr>) =
        (vn, s\<lparr>mutexlock := True, tick := Suc n, heap := (heap s)(buf \<mapsto> Raw BUF_LEN, vn \<mapsto> Raw k)\<rparr>)"
    and "heap s buf = None" "heap s vn = None" "buf \<noteq> vn" "buf \<noteq> 0" "vn \<noteq> 0"
    and "reg_ok (s\<lparr>mutexlock := True, tick := n, heap := (heap s)(buf \<mapsto> Raw BUF_LEN)\<rparr>)"
proof -
  have free: "\<not> mutexlock s" and inv: "reg_inv s" using ready by (simp_all add: ioctl_ready_def)
  obtain buf n where start: "custom_ioctl km u req p s = bindE (ioctl_switch km u req p
        (s\<lparr>mutexlock := True, tick := n, heap := (heap s)(buf \<mapsto> Raw BUF_LEN)\<rparr>)) (\<lambda>(c, s). ioctl_end buf c s)"
    and buf: "buf \<noteq> 0" "heap s buf = None" "card (dom ((heap s)(buf \<mapsto> Raw BUF_LEN))) < b"
    by (rule ioctl_start [OF km free room])
  let ?s = "s\<lparr>mutexlock := True, tick := n, heap := (heap s)(buf \<mapsto> Raw BUF_LEN)\<rparr>"
  have "card (dom (heap ?s)) \<le> b" using buf(3) by simp
  from kmalloc_roomy [OF km this, of "Raw k"] obtain vn where
    vn: "kmalloc km (Raw k) ?s = (vn, ?s\<lparr>tick := Suc (tick ?s), heap := (heap ?s)(vn \<mapsto> Raw k)\<rparr>)"
      "vn \<noteq> 0" "heap ?s vn = None" by metis
  have "reg_ok ?s" using reg_inv_ok [OF inv] by (simp add: reg_ok_def)
  with start vn buf show ?thesis by (intro that [where n = n and buf = buf and vn = vn]) (auto split: if_splits)
qed

section \<open>The vector of a process asked for\<close>

lemma pid_answer_runs:
  assumes km: "allocator_ok km" "roomy b km" and ready: "ioctl_ready s" and room: "card (dom (heap s)) + 2 \<le> b"
    and fit: "texts_fit s" and reply: "not_copied u dst BUF_LEN = 0"
    and req: "not_copied u p 16 = 0" "u_pid_n_buf u p = (pid, dst)"
  shows "case vector_info s pid of None \<Rightarrow> custom_ioctl km u IOCTL_VECTOR_FOR_PID p s = Inl Null_deref
    | Some a \<Rightarrow> \<exists>n. custom_ioctl km u IOCTL_VECTOR_FOR_PID p s = Inr (0, answered n dst (padded (my_text a s)) s)"
proof (rule named_command [OF km ready room, of u IOCTL_VECTOR_FOR_PID p 16])
  fix buf q n
  let ?r = IOCTL_VECTOR_FOR_PID
  let ?s = "s\<lparr>mutexlock := True, tick := n, heap := (heap s)(buf \<mapsto> Raw BUF_LEN)\<rparr>"
  let ?s1 = "s\<lparr>mutexlock := True, tick := Suc n, heap := (heap s)(buf \<mapsto> Raw BUF_LEN, q \<mapsto> Raw 16)\<rparr>"
  assume run: "custom_ioctl km u ?r p s = bindE (ioctl_switch km u ?r p ?s) (\<lambda>(c, s). ioctl_end buf c s)"
    and q: "kmalloc km (Raw 16) ?s = (q, ?s1)"
    and h: "heap s buf = None" "heap s q = None" "buf \<noteq> q" "buf \<noteq> 0" "q \<noteq> 0"
  have free: "\<not> mutexlock s" using ready by (simp add: ioctl_ready_def)
  have t: "texts_fit ?s" "my_text a ?s = my_text a s" for a
    using fit by (simp_all add: texts_fit_def my_text_def addr_index_def cong: option.case_cong)
  have q': "kmalloc km (Raw 16) (try_module_get Mod_ioctl_module ?s) = (q, try_module_get Mod_ioctl_module ?s1)"
    using q h(5) by (auto simp: kmalloc_ok [OF km(1)] try_module_get_def Let_def split: if_splits)
  have switch: "ioctl_switch km u ?r p ?s = ioctl_vector_for_pid km u p ?s" by (simp add: ioctl_switch_def ioctl_numbers)
  have "vec_list ?s1 = vec_list ?s" "vector_info ?s1 = vector_info ?s" by simp_all
  note eq = ioctl_vector_for_pid_eq [OF t(1) q' h(5) req this, unfolded t(2)]
  show ?thesis
  proof (cases "vector_info s pid")
    case None
    then show ?thesis using run switch eq by simp
  next
    case (Some a)
    have "custom_ioctl km u ?r p s = Inr (0, answered (Suc n) dst (padded (my_text a s)) s)"
      using run switch eq Some reply padded_length [OF my_text_fits [OF fit]]
        reply_ends_pid [OF h(1-5) _ free, where u = u and dst = dst and n = "Suc n" and x = "Raw BUF_LEN" and y = "Raw 16"
          and b = "padded (my_text a s)"]
      by (simp add: answered_def)
    with Some show ?thesis by auto
  qed
qed

section \<open>Creating a vector from a bitmap\<close>

lemma user_out_more: "dyn_state.more s = dyn_state.more t \<Longrightarrow> user_out s = user_out t"
  by (cases s; cases t) simp

lemma create_request_runs:
  assumes km: "allocator_ok km" "roomy b km" and ready: "ioctl_ready s" and room: "card (dom (heap s)) + 12 \<le> b"
    and slot: "dyn_i s < length (list_heads s)" and req: "not_copied u p 4 = 0" "u_bitmap u p = bm"
    and valid: "validate_bitmap bm = 0" and none: "bitmap_index bm s = None"
  shows "\<exists>s' t q va es. let a = current_vector s' in
      custom_ioctl km u IOCTL_CREATE_FROM_BITMAP p s = Inr (scast (ucast a :: cint), s')
    \<and> \<not> mutexlock s' \<and> (\<forall>m. pin_excess m s' = pin_excess m s)
    \<and> vec_list s' = stored_vector va (dyn_name bm) a 1 Mod_dynamic_vector bm # vec_list s
    \<and> map snd es = dyn_calls bm \<and> heap s t = None \<and> heap s q = None \<and> heap s va = None \<and> distinct [t, q, va]
    \<and> built ((heap s)(t \<mapsto> Raw 32, q \<mapsto> Raw (7 + length (sprintf_d bm)), va \<mapsto> Vector_node)) (heap s') a es
    \<and> vector_info s' = (vector_info s)(current s \<mapsto> a)
    \<and> list_heads s' = (list_heads s)[dyn_i s := a] \<and> dyn_i s' = Suc (dyn_i s) \<and> user_out s' = user_out s"
proof (rule named_command [OF km ready, of u IOCTL_CREATE_FROM_BITMAP p 4])
  show "card (dom (heap s)) + 2 \<le> b" using room by simp
next
  fix buf kb n
  let ?C = IOCTL_CREATE_FROM_BITMAP and ?M = "try_module_get Mod_ioctl_module"
  let ?s = "s\<lparr>mutexlock := True, tick := n, heap := (heap s)(buf \<mapsto> Raw BUF_LEN)\<rparr>"
  let ?s1 = "?M (s\<lparr>mutexlock := True, tick := Suc n, heap := (heap s)(buf \<mapsto> Raw BUF_LEN, kb \<mapsto> Raw 4)\<rparr>)"
  assume run: "custom_ioctl km u ?C p s = bindE (ioctl_switch km u ?C p ?s) (\<lambda>(c, s). ioctl_end buf c s)"
    and kb: "kmalloc km (Raw 4) ?s = (kb, s\<lparr>mutexlock := True, tick := Suc n, heap := (heap s)(buf \<mapsto> Raw BUF_LEN, kb \<mapsto> Raw 4)\<rparr>)"
    and h: "heap s buf = None" "heap s kb = None" "buf \<noteq> kb" "buf \<noteq> 0" "kb \<noteq> 0"
  have kb': "kmalloc km (Raw 4) (?M ?s) = (kb, ?s1)"
    using kb h(5) by (auto simp: kmalloc_ok [OF km(1)] try_module_get_def Let_def split: if_splits)
  have inv: "reg_inv ?s1"
    using ready h by (auto simp: ioctl_ready_def reg_inv_def reg_ok_def)
  have b: "bitmap_index bm ?s1 = None" using none by (simp add: bitmap_index_def)
  have "dyn_listHead ?s1 = 0" using ready by (simp add: ioctl_ready_def)
  moreover have "card (dom (heap ?s1)) + 10 \<le> b"
    using room h(1-3) by (simp add: domIff card_insert_if)
  ultimately obtain s2 t q va es where
    made: "create_from_bitmap km bm 0 ?s1 = Inr (ucast (current_vector s2), s2)" and c: "created bm ?s1 t q va es s2"
    using create_from_bitmap_created [OF km inv, of bm 0] slot by auto
  have switch: "ioctl_switch km u ?C p ?s = Inr ((leave Goto_free_vector_name 0)\<lparr>c_kernel_bitmap := kb,
      c_err := scast (ucast (current_vector s2) :: cint)\<rparr>, module_put Mod_ioctl_module s2)"
  proof -
    have "ioctl_switch km u ?C p ?s = ioctl_create_from_bitmap km u p ?s" by (simp add: ioctl_switch_def ioctl_numbers)
    then show ?thesis
      unfolding ioctl_create_from_bitmap_def Let_def kb' case_prod_conv
      using req valid h(5) made add_vector_new(1) [OF reg_inv_ok [OF inv] b, of km] by simp
  qed
  let ?h = "(heap s)(t \<mapsto> Raw 32, q \<mapsto> Raw (7 + length (sprintf_d bm)), va \<mapsto> Vector_node)"
  from c have fresh: "buf \<notin> {t, q, va}" "kb \<notin> {t, q, va}" "heap s t = None" "heap s q = None" "heap s va = None"
      "distinct [t, q, va]"
    by (auto simp: created_def split: if_splits)
  have "built (?h(buf \<mapsto> Raw BUF_LEN, kb \<mapsto> Raw 4)) (heap s2) (current_vector s2) es"
  proof -
    have "(heap ?s1)(t \<mapsto> Raw 32, q \<mapsto> Raw (7 + length (sprintf_d bm)), va \<mapsto> Vector_node) =
        ?h(buf \<mapsto> Raw BUF_LEN, kb \<mapsto> Raw 4)"
      using fresh(1,2) by (auto simp: fun_eq_iff)
    with c show ?thesis by (simp add: created_def)
  qed
  from built_del [OF this] h fresh(1,2) have kb2: "heap s2 kb = Some (Raw 4)"
    and "built (?h(buf \<mapsto> Raw BUF_LEN)) ((heap s2)(kb := None)) (current_vector s2) es" by simp_all
  from built_del [OF this(2)] h fresh(1,2) have buf2: "heap s2 buf = Some (Raw BUF_LEN)"
    and b2: "built ?h ((heap s2)(buf := None, kb := None)) (current_vector s2) es"
    by (simp_all add: fun_upd_twist)
  let ?e = "(module_put Mod_ioctl_module s2)\<lparr>heap := (heap s2)(buf := None, kb := None), mutexlock := False\<rparr>"
  have "custom_ioctl km u ?C p s = Inr (scast (ucast (current_vector s2) :: cint), ?e)"
    using run switch h(3-5) kb2 buf2 by (simp add: ioctl_end_def leave_def kfree_live)
  moreover have "current_vector ?e = current_vector s2" by (simp add: current_vector_def)
  moreover have "pin_excess m ?e = pin_excess m s" for m
    using c by (simp add: created_def pin_excess_def vector_refs_def stored_vector_def)
  moreover have "user_out ?e = user_out s"
  proof -
    have "dyn_state.more s2 = dyn_state.more ?s1" using c by (simp add: created_def)
    then have "user_out s2 = user_out ?s1" by (rule user_out_more)
    then show ?thesis by simp
  qed
  ultimately show ?thesis
    using c b2 fresh
    by (intro exI [of _ ?e] exI [of _ t] exI [of _ q] exI [of _ va] exI [of _ es]) (simp add: created_def Let_def)
qed


section \<open>The results\<close>

text \<open>Which values a command can return, whatever the state.\<close>

lemma kmalloc_no_err: "allocator_ok km \<Longrightarrow> kmalloc km b s = (a, s') \<Longrightarrow> \<not> is_err a"
  using allocator_okD by (auto simp: kmalloc_def Let_def split: if_splits)

lemma ioctl_set_result:
  assumes "allocator_ok km" and "ioctl_set km u p s = Inr (c, s')"
  shows "c_err c \<in> {0, - ENOMEM, - EINVAL}"
  using assms unfolding ioctl_set_def Let_def
  by (elim bindE_InrE) (auto simp: leave_def dest: kmalloc_no_err elim!: bindE_InrE split: if_splits prod.splits)

lemma ioctl_remove_result:
  assumes "allocator_ok km" and "ioctl_remove km u p s = Inr (c, s')"
  shows "c_err c \<in> {- ENOMEM, - EINVAL} \<or> (\<exists>n :: cint. 0 \<le> sint n \<and> c_err c = scast n)"
  using assms unfolding ioctl_remove_def Let_def
  by (elim bindE_InrE) (force simp: leave_def not_less dest: kmalloc_no_err elim!: bindE_InrE split: if_splits prod.splits)

lemma ioctl_reply_result:
  "ioctl_reply u d b c s = (c', s') \<Longrightarrow> c_err c' \<in> {c_err c, - EFAULT}"
  by (auto simp: ioctl_reply_def Let_def split: if_splits prod.splits)

lemma ioctl_show_result:
  "ioctl_show_all u p s = Inr (c, s') \<Longrightarrow> c_err c \<in> {0, - EFAULT}"
  "ioctl_show_mine u p s = Inr (c, s') \<Longrightarrow> c_err c \<in> {0, - EFAULT}"
  "ioctl_vector_for_pid km u p s = Inr (c, s') \<Longrightarrow> c_err c \<in> {0, - EINVAL, - EFAULT}"
  unfolding ioctl_show_all_def ioctl_show_mine_def ioctl_vector_for_pid_def Let_def
  by (force simp: leave_def dest: ioctl_reply_result elim!: bindE_InrE split: if_splits prod.splits option.splits)+

lemma EINVAL_32: "\<exists>v :: cint. scast v = (- EINVAL :: ulong)"
  by (rule exI [of _ "- EINVAL"]) (simp)

lemma ioctl_create_result:
  "ioctl_create_from_bitmap km u p s = Inr (c, s') \<Longrightarrow> \<exists>v :: cint. c_err c = scast v"
  unfolding ioctl_create_from_bitmap_def Let_def
  by (auto simp: leave_def EINVAL_32 elim!: bindE_InrE split: if_splits prod.splits)

lemma ioctl_end_result: "ioctl_end buf c s = Inr (r, s') \<Longrightarrow> r = c_err c"
  unfolding ioctl_end_def by (auto elim!: bindE_InrE)


lemma command_results:
  assumes km: "allocator_ok km" and run: "custom_ioctl km u req p s = Inr (err, s')"
  shows "err = - ENOMEM \<or>
    (if req = IOCTL_SET then err = 0 \<or> err = - EINVAL
     else if req = IOCTL_REMOVE then err = - EINVAL \<or> (\<exists>n :: cint. 0 \<le> sint n \<and> err = scast n)
     else if req = IOCTL_SHOW_ALL \<or> req = IOCTL_SHOW_MINE then err = 0 \<or> err = - EFAULT
     else if req = IOCTL_VECTOR_FOR_PID then err = 0 \<or> err = - EINVAL \<or> err = - EFAULT
     else if req = IOCTL_CREATE_FROM_BITMAP then \<exists>v :: cint. err = scast v
     else err = - EINVAL)"
proof -
  obtain s1 where s1: "mutex_lock_ioctl s = Inr s1" using run by (auto simp: custom_ioctl_def elim: bindE_InrE)
  obtain buf s2 where s2: "kmalloc km (Raw BUF_LEN) s1 = (buf, s2)" by fastforce
  show ?thesis
  proof (cases "buf = 0")
    case True
    with run s1 s2 show ?thesis by (auto simp: custom_ioctl_def leave_def dest: ioctl_end_result)
  next
    case False
    with run s1 s2 obtain c s3 where c: "ioctl_switch km u req p s2 = Inr (c, s3)" "err = c_err c"
      by (auto simp: custom_ioctl_def dest: ioctl_end_result elim!: bindE_InrE)
    show ?thesis
      using c ioctl_set_result [OF km, of u p s2 c s3] ioctl_remove_result [OF km, of u p s2 c s3]
        ioctl_show_result(1,2) [of u p s2 c s3] ioctl_show_result(3) [of km u p s2 c s3]
        ioctl_create_result [of km u p s2 c s3]
      unfolding ioctl_switch_def c(2) by (auto simp: leave_def ioctl_numbers split: if_splits)
  qed
qed

end
