(* ===== verification/Ioctl_Properties.thy ===== *)
theory Ioctl_Properties
  imports Sample_States Device_Answers
begin

text \<open>
  What the character device promises, of every request and command by command.
\<close>

section \<open>Every call\<close>



section \<open>Taking and leaving a vector\<close>

text \<open>
  C13. \<open>IOCTL_SET\<close> with the name of a registered vector: the result is 0, the process runs under that
  vector, its count is one higher, memory and the balance of every module's pins are as before.
\<close>

theorem set_takes_vector:
  assumes "allocator_ok km" and "roomy b km" and "ioctl_ready s" and "texts_fit s" and "plain_names s"
    and "card (dom (heap s)) + 2 \<le> b" and "user_name u p q" and "not_copied u p (length q) = 0"
    and "name_index q s = Some i" and "overriddenSyscalls_address (vec_list s ! i) = a" and "a \<noteq> 0"
  shows "\<exists>s'. custom_ioctl km u IOCTL_SET p s = Inr (0, s') \<and> ioctl_ready s' \<and> heap s' = heap s
    \<and> vec_list s' = (vec_list s)[i := (vec_list s ! i)\<lparr>refcount := refcount (vec_list s ! i) + 1\<rparr>]
    \<and> vector_info s' = (vector_info s)(current s \<mapsto> a) \<and> (\<forall>m. pin_excess m s' = pin_excess m s)"
  using ioctl_set_taken [OF assms] by (simp add: add_refcount_def) blast

theorem set_takes_vector_witness:
  "\<exists>s'. custom_ioctl km40 caller IOCTL_SET 1000 (one_vector 0) = Inr (0, s')
    \<and> vector_info s' = [1 \<mapsto> 32] \<and> map refcount (vec_list s') = [1]"
proof -
  have "card (dom (heap (one_vector 0))) + 2 \<le> 40" by (simp add: one_vector_heap)
  from set_takes_vector [OF km40_ok one_vector_ready one_vector_texts this caller_name one_vector_index(1), of 32]
  show ?thesis by (fastforce simp: stored_vector_def)
qed



text \<open>
  C15. \<open>IOCTL_REMOVE\<close> drops a reference of whatever vector the caller names, held by it or not. The
  result is the count left, and the caller has no vector afterwards; when the count goes below zero
  the result is -EINVAL and the caller keeps its vector, although the count was lowered all the same.
\<close>

theorem remove_drops_named:
  assumes "allocator_ok km" and "roomy b km" and "ioctl_ready s" and "card (dom (heap s)) + 2 \<le> b"
    and "user_name u p q" and "not_copied u p (length q) = 0"
    and "name_index q s = Some i" and "refcount (vec_list s ! i) - 1 = r"
  shows "\<exists>s'. custom_ioctl km u IOCTL_REMOVE p s = Inr (if sint r < 0 then - EINVAL else scast r, s')
    \<and> ioctl_ready s' \<and> heap s' = heap s
    \<and> vec_list s' = (vec_list s)[i := (vec_list s ! i)\<lparr>refcount := r\<rparr>]
    \<and> vector_info s' = (if sint r < 0 then vector_info s else (vector_info s)(current s \<mapsto> 0))
    \<and> (\<forall>m. pin_excess m s' = pin_excess m s)"
  using ioctl_remove_found [OF assms] assms(8) by (fastforce simp: add_refcount_def)

theorem remove_drops_named_witness:
  "\<exists>s'. custom_ioctl km40 caller IOCTL_REMOVE 1000 (one_vector 0) = Inr (- EINVAL, s')
    \<and> map refcount (vec_list s') = [- 1]"
proof -
  have "card (dom (heap (one_vector 0))) + 2 \<le> 40" by (simp add: one_vector_heap)
  from remove_drops_named [OF km40_ok one_vector_ready this caller_name one_vector_index(1), of "- 1"]
  show ?thesis by (fastforce simp: stored_vector_def)
qed

section \<open>Refused requests\<close>

text \<open>
  A vector registered without an address, as a bitmap of \<open>mkdir\<close> makes it, cannot be taken: \<open>IOCTL_SET\<close>
  with its name is answered by -EINVAL and the process keeps what it has, but the reference and the
  pin were taken and are not given back.
\<close>

theorem set_null_vector_leaks:
  assumes km: "allocator_ok km" "roomy b km" and ready: "ioctl_ready s" and room: "card (dom (heap s)) + 2 \<le> b"
    and q: "user_name u p q" "not_copied u p (length q) = 0"
    and i: "name_index q s = Some i" "overriddenSyscalls_address (vec_list s ! i) = 0"
  shows "\<exists>s'. custom_ioctl km u IOCTL_SET p s = Inr (- EINVAL, s') \<and> vector_info s' = vector_info s
    \<and> heap s' = heap s \<and> vec_list s' = (vec_list s)[i := (vec_list s ! i)\<lparr>refcount := refcount (vec_list s ! i) + 1\<rparr>]
    \<and> module_refs (vector_module (vec_list s ! i)) (mod_log s') = module_refs (vector_module (vec_list s ! i)) (mod_log s) + 1"
proof (rule named_command [OF km ready room, of u IOCTL_SET p "Suc (length q)"])
  fix buf vn n
  let ?s = "s\<lparr>mutexlock := True, tick := n, heap := (heap s)(buf \<mapsto> Raw BUF_LEN)\<rparr>"
  let ?s1 = "s\<lparr>mutexlock := True, tick := Suc n, heap := (heap s)(buf \<mapsto> Raw BUF_LEN, vn \<mapsto> Raw (Suc (length q)))\<rparr>"
  assume run: "custom_ioctl km u IOCTL_SET p s = bindE (ioctl_switch km u IOCTL_SET p ?s) (\<lambda>(c, s). ioctl_end buf c s)"
    and vn: "kmalloc km (Raw (Suc (length q))) ?s = (vn, ?s1)"
    and h: "heap s buf = None" "heap s vn = None" "buf \<noteq> vn" "buf \<noteq> 0" "vn \<noteq> 0" and ok: "reg_ok ?s"
  let ?s2 = "module_put Mod_ioctl_module (take_ref i (try_module_get Mod_ioctl_module ?s1))"
  let ?c = "(leave Goto_free_vector_name (- EINVAL))\<lparr>c_vector_name := vn\<rparr>"
  have idx: "name_index q (try_module_get Mod_ioctl_module ?s1) = Some i" using i(1) by (simp add: name_index_def)
  have "ioctl_switch km u IOCTL_SET p ?s = Inr (?c, ?s2)"
    unfolding ioctl_switch_def if_True refl ioctl_set_eq [OF km(1) ok q(1)] vn Let_def case_prod_conv idx option.case
    using h(5) q(2) i(2) by simp
  moreover have "ioctl_end buf ?c ?s2 = Inr (- EINVAL, ?s2\<lparr>heap := heap s, mutexlock := False\<rparr>)"
    by (rule ioctl_end_frees [OF h refl]) simp
  ultimately have "custom_ioctl km u IOCTL_SET p s = Inr (- EINVAL, ?s2\<lparr>heap := heap s, mutexlock := False\<rparr>)"
    using run by simp
  then show ?thesis by (auto simp: ref_defs)
qed

theorem set_null_vector_leaks_witness:
  "\<exists>s'. custom_ioctl km40 caller IOCTL_SET 1000
       ((one_vector 0)\<lparr>vec_list := [stored_vector 16 ''Vector55'' 0 1 Mod_dynamic_vector 64]\<rparr>) = Inr (- EINVAL, s')
    \<and> map refcount (vec_list s') = [2] \<and> module_refs Mod_dynamic_vector (mod_log s') = 1"
proof -
  let ?s = "(one_vector 0)\<lparr>vec_list := [stored_vector 16 ''Vector55'' 0 1 Mod_dynamic_vector 64]\<rparr>"
  have "ioctl_ready ?s"
    by (simp add: ioctl_ready_def reg_inv_def reg_ok_def stored55 one_vector_heap)
  moreover have "name_index ''Vector55'' ?s = Some 0" by (simp add: name_index_def stored55)
  ultimately show ?thesis
    using set_null_vector_leaks [of km40 40 ?s caller 1000 "''Vector55''" 0] caller_name
    by (fastforce simp: km40_ok one_vector_heap stored_vector_def)
qed

text \<open>
  C33. A bitmap passes \<open>validate_bitmap\<close> exactly when it is at most 1023 and the calls built from it override
  no system call twice.
\<close>

theorem valid_bitmaps_override_once:
  "validate_bitmap bm = (if bm \<le> 1023 \<and> distinct (map fst (dyn_calls bm)) then 0 else - EINVAL)"
  by (auto simp: validate_bitmap_def dyn_calls_def dyn_table_def override_bits)

text \<open>
  A request the device does not know, and a bitmap that is not valid, are answered by -EINVAL and
  change neither registry nor memory nor any process.
\<close>

theorem bad_requests_refused:
  assumes km: "allocator_ok km" "roomy b km" and ready: "ioctl_ready s" and room: "card (dom (heap s)) + 2 \<le> b"
    and bad: "req \<notin> {IOCTL_SET, IOCTL_REMOVE, IOCTL_SHOW_ALL, IOCTL_SHOW_MINE, IOCTL_VECTOR_FOR_PID,
        IOCTL_CREATE_FROM_BITMAP}
      \<or> req = IOCTL_CREATE_FROM_BITMAP \<and> not_copied u p 4 = 0 \<and> validate_bitmap (u_bitmap u p) \<noteq> 0"
  shows "\<exists>s'. custom_ioctl km u req p s = Inr (- EINVAL, s') \<and> heap s' = heap s \<and> vec_list s' = vec_list s
    \<and> vector_info s' = vector_info s \<and> (\<forall>m. pin_excess m s' = pin_excess m s)"
proof (rule named_command [OF km ready room, of u req p 4])
  fix buf vn n
  let ?s = "s\<lparr>mutexlock := True, tick := n, heap := (heap s)(buf \<mapsto> Raw BUF_LEN)\<rparr>"
  let ?s1 = "s\<lparr>mutexlock := True, tick := Suc n, heap := (heap s)(buf \<mapsto> Raw BUF_LEN, vn \<mapsto> Raw 4)\<rparr>"
  assume run: "custom_ioctl km u req p s = bindE (ioctl_switch km u req p ?s) (\<lambda>(c, s). ioctl_end buf c s)"
    and vn: "kmalloc km (Raw 4) ?s = (vn, ?s1)"
    and h: "heap s buf = None" "heap s vn = None" "buf \<noteq> vn" "buf \<noteq> 0" "vn \<noteq> 0"
  note ends = ioctl_end_def leave_def kfree_live
  have vn': "kmalloc km (Raw 4) (try_module_get Mod_ioctl_module ?s) = (vn, try_module_get Mod_ioctl_module ?s1)"
    using vn h(5) by (auto simp: kmalloc_ok [OF km(1)] try_module_get_def Let_def split: if_splits)
  let ?c = "(leave Goto_free_vector_name (- EINVAL))\<lparr>c_kernel_bitmap := vn\<rparr>"
  have free: "(heap s)(buf \<mapsto> Raw BUF_LEN, vn \<mapsto> Raw 4, buf := None, vn := None) = heap s"
    using h(1-3) by (auto simp: fun_eq_iff)
  show ?thesis
  proof (cases "req = IOCTL_CREATE_FROM_BITMAP")
    case True
    with bad have v: "validate_bitmap (u_bitmap u p) = - EINVAL" "not_copied u p 4 = 0"
      by (auto simp: validate_bitmap_def split: if_splits)
    have "ioctl_switch km u req p ?s = ioctl_create_from_bitmap km u p ?s"
      using True by (simp add: ioctl_switch_def ioctl_numbers)
    also have "\<dots> = Inr (?c, module_put Mod_ioctl_module (try_module_get Mod_ioctl_module ?s1))"
      unfolding ioctl_create_from_bitmap_def Let_def vn' case_prod_conv using v h(5) by (simp add: leave_def)
    finally show ?thesis using run h free by (auto simp: ends pin_excess_def fun_upd_twist)
  next
    case False
    with bad have "ioctl_switch km u req p ?s = Inr (leave Goto_free_vector_name (- EINVAL), ?s)"
      by (simp add: ioctl_switch_def)
    then show ?thesis using run h upd_None_idem [of "heap s" buf] by (auto simp: ends pin_excess_def)
  qed
qed

theorem bad_requests_refused_witness:
  "\<exists>s'. custom_ioctl km40 caller 0 1000 (one_vector 1) = Inr (- EINVAL, s') \<and> heap s' = heap (one_vector 1)"
proof -
  have "card (dom (heap (one_vector 1))) + 2 \<le> 40" by (simp add: one_vector_heap)
  from bad_requests_refused [OF km40_ok one_vector_ready this, of 0 caller 1000]
  show ?thesis by (auto simp: ioctl_numbers)
qed

text \<open>
  When the name's buffer cannot be allocated, the command on a name returns -ENOMEM past the frees:
  the handler's 256 bytes stay allocated.
\<close>

theorem no_name_buffer_leaks:
  assumes km: "allocator_ok km" and ready: "ioctl_ready s" and q: "user_name u p q"
    and buf: "km (tick s) (heap s) = buf" "buf \<noteq> 0"
    and none: "km (Suc (tick s)) ((heap s)(buf \<mapsto> Raw BUF_LEN)) = 0"
    and req: "req \<in> {IOCTL_SET, IOCTL_REMOVE}"
  shows "\<exists>s'. custom_ioctl km u req p s = Inr (- ENOMEM, s') \<and> heap s' = (heap s)(buf \<mapsto> Raw BUF_LEN)
    \<and> heap s buf = None \<and> vec_list s' = vec_list s \<and> \<not> mutexlock s'"
proof -
  let ?s = "s\<lparr>mutexlock := True, tick := Suc (tick s), heap := (heap s)(buf \<mapsto> Raw BUF_LEN)\<rparr>"
  have free: "\<not> mutexlock s" and inv: "reg_inv s" using ready by (simp_all add: ioctl_ready_def)
  have fresh: "heap s buf = None" using allocator_okD(1) [OF km, of "tick s" "heap s"] buf by simp
  have ok: "reg_ok ?s" using reg_inv_ok [OF inv] by (simp add: reg_ok_def)
  have "ioctl_switch km u req p ?s = (if req = IOCTL_SET then ioctl_set km u p ?s else ioctl_remove km u p ?s)"
    using req by (auto simp: ioctl_switch_def ioctl_numbers)
  also have "\<dots> = Inr (leave Goto_out (- ENOMEM), ?s\<lparr>tick := Suc (Suc (tick s))\<rparr>)"
    unfolding ioctl_set_eq [OF km ok q] ioctl_remove_eq [OF km ok q] using none
    by (simp add: kmalloc_ok [OF km] Let_def)
  finally show ?thesis
    using free fresh buf by (simp add: custom_ioctl_def mutex_lock_ioctl_def kmalloc_ok [OF km] Let_def
        ioctl_end_def leave_def)
qed

definition km_once :: allocator where
  "km_once n h = (if n = 2 \<and> h 80 = None then 80 else 0)"

theorem no_name_buffer_leaks_witness:
  "\<exists>s'. custom_ioctl km_once caller IOCTL_SET 1000 (one_vector 1) = Inr (- ENOMEM, s')
    \<and> heap s' 80 = Some (Raw BUF_LEN)"
proof -
  have "allocator_ok km_once" by (simp add: allocator_ok_def km_once_def is_err_def)
  moreover have "heap (one_vector 1) 80 = None" by (simp add: one_vector_def)
  ultimately show ?thesis
    using no_name_buffer_leaks [OF _ one_vector_ready [of 1] caller_name(1), of km_once 80 IOCTL_SET]
    by (auto simp: km_once_def)
qed

section \<open>What the device shows\<close>

text \<open>
  End to end: \<open>IOCTL_SHOW_ALL\<close> returns 0, leaves the caller's 256 bytes filled with the lines of all
  vectors, or with \<open>no vectors present\<close>, and zeros after them, and changes nothing else of the
  kernel; \<open>display_vectors\<close> then prints each registered vector from these bytes, in order.
\<close>

theorem show_all_displayed:
  assumes km: "allocator_ok km" "roomy b km" and ready: "ioctl_ready s" and room: "card (dom (heap s)) + 2 \<le> b"
    and fit: "texts_fit s" and "not_copied u p BUF_LEN = 0"
  shows "\<exists>s' bytes. custom_ioctl km u IOCTL_SHOW_ALL p s = Inr (0, s') \<and> user_out s' = (user_out s)(p \<mapsto> bytes)
    \<and> bytes = padded (all_text s) \<and> heap s' = heap s \<and> vec_list s' = vec_list s \<and> vector_info s' = vector_info s
    \<and> (vec_list s \<noteq> [] \<and> one_line_names (vec_list s) \<longrightarrow> display_vectors bytes = concat (map shown (vec_list s)))"
proof -
  obtain n where "custom_ioctl km u IOCTL_SHOW_ALL p s = Inr (0, answered n p (padded (all_text s)) s)"
    by (rule show_all_runs [OF assms])
  then show ?thesis using display_all [OF fit] by (auto simp: all_shown_def)
qed

theorem show_all_displayed_witness:
  "\<exists>s'. custom_ioctl km40 caller IOCTL_SHOW_ALL 3000 (one_vector 1) = Inr (0, s')
    \<and> user_out s' = (user_out (one_vector 1))(3000 \<mapsto> padded (registry_text (vec_list (one_vector 1))))"
proof -
  have "card (dom (heap (one_vector 1))) + 2 \<le> 40" by (simp add: one_vector_heap)
  from show_all_displayed [OF km40_ok one_vector_ready this one_vector_texts(1) caller_name(2), of 3000]
  show ?thesis by (auto simp: all_text_def)
qed

text \<open>
  C39. What the device tells of one process: \<open>IOCTL_SHOW_MINE\<close> of the caller and \<open>IOCTL_VECTOR_FOR_PID\<close>
  of the process named fill the given buffer with the lines of that process's vector, with
  \<open>vector not assigned\<close> when it has none, or with zeros when its vector is no longer registered, and
  leave the rest of the kernel as it was. For a process that does not exist the handler follows the
  NULL of \<open>pid_task\<close>.
\<close>

theorem process_vector_shown:
  assumes km: "allocator_ok km" "roomy b km" and ready: "ioctl_ready s" and room: "card (dom (heap s)) + 2 \<le> b"
    and fit: "texts_fit s" and reply: "not_copied u dst BUF_LEN = 0"
    and asked: "req = IOCTL_SHOW_MINE \<and> dst = p \<and> vector_of = Some (current_vector s)
      \<or> req = IOCTL_VECTOR_FOR_PID \<and> not_copied u p 16 = 0 \<and> u_pid_n_buf u p = (pid, dst) \<and> vector_of = vector_info s pid"
  shows "case vector_of of
      None \<Rightarrow> custom_ioctl km u req p s = Inl Null_deref
    | Some a \<Rightarrow> \<exists>s'. custom_ioctl km u req p s = Inr (0, s') \<and> heap s' = heap s \<and> vec_list s' = vec_list s
        \<and> vector_info s' = vector_info s \<and> user_out s' = (user_out s)(dst \<mapsto> padded
            (if a = 0 then ''vector not assigned''
             else case addr_index a s of None \<Rightarrow> [] | Some i \<Rightarrow> vector_text (vec_list s ! i)))"
  using asked
proof (elim disjE conjE)
  assume req: "req = IOCTL_SHOW_MINE" "dst = p" "vector_of = Some (current_vector s)"
  obtain n where "custom_ioctl km u IOCTL_SHOW_MINE p s = Inr (0, answered n p (padded (my_text (current_vector s) s)) s)"
    by (rule show_mine_runs [OF km ready room fit reply [unfolded req(2)]])
  then show ?thesis using req by (simp add: my_text_def)
next
  assume req: "req = IOCTL_VECTOR_FOR_PID" "not_copied u p 16 = 0" "u_pid_n_buf u p = (pid, dst)" "vector_of = vector_info s pid"
  from pid_answer_runs [OF km ready room fit reply req(2,3)] req(1,4) show ?thesis
    by (auto simp: my_text_def split: option.splits)
qed

theorem process_vector_shown_witness:
  "\<exists>s'. custom_ioctl km40 caller IOCTL_VECTOR_FOR_PID 3000 (one_vector 1) = Inr (0, s')
    \<and> user_out s' = (user_out (one_vector 1))(2000 \<mapsto> padded ''vector not assigned'')"
proof -
  have "card (dom (heap (one_vector 1))) + 2 \<le> 40" by (simp add: one_vector_heap)
  from process_vector_shown [OF km40_ok one_vector_ready this one_vector_texts(1) caller_name(2),
      of IOCTL_VECTOR_FOR_PID 2000 3000 "Some 0" 1]
  show ?thesis by (auto simp: caller_name(2) caller_fields)
qed

section \<open>Creating a vector\<close>

text \<open>
  C8. A process that asks for a vector by a valid bitmap no vector has yet runs under a new one, when
  memory allows: registered at the head with one reference and exactly the overrides the code knows
  for the bitmap, stored in \<open>list_heads\<close>, its module pinned for the reference, the handler's own
  blocks freed and its mutex released. Two scratch blocks of the creation stay allocated, and the
  caller gets the low half of the list's kernel address, sign extended.
\<close>

theorem create_request_served:
  assumes km: "allocator_ok km" "roomy b km" and ready: "ioctl_ready s" and room: "card (dom (heap s)) + 12 \<le> b"
    and slot: "dyn_i s < length (list_heads s)" and req: "not_copied u p 4 = 0" "u_bitmap u p = bm"
    and valid: "validate_bitmap bm = 0" and none: "bitmap_index bm s = None"
  shows "\<exists>s' t q va es. let a = current_vector s' in
      custom_ioctl km u IOCTL_CREATE_FROM_BITMAP p s = Inr (scast (ucast a :: cint), s')
    \<and> \<not> mutexlock s' \<and> (\<forall>m. pin_excess m s' = pin_excess m s)
    \<and> vec_list s' = stored_vector va (dyn_name bm) a 1 Mod_dynamic_vector bm # vec_list s
    \<and> map snd es = dyn_calls bm \<and> heap s t = None \<and> heap s q = None \<and> heap s va = None \<and> distinct [t, q, va]
    \<and> built ((heap s)(t \<mapsto> Raw 32, q \<mapsto> Raw (7 + length (sprintf_d bm)), va \<mapsto> Vector_node)) (heap s') a es
    \<and> vector_info s' = (vector_info s)(current s \<mapsto> a)
    \<and> list_heads s' = (list_heads s)[dyn_i s := a] \<and> dyn_i s' = Suc (dyn_i s)"
  using create_request_runs [OF assms] unfolding Let_def by fast

theorem create_request_served_witness:
  "\<exists>s' va. custom_ioctl km40 caller IOCTL_CREATE_FROM_BITMAP 3000 (one_vector 0) =
      Inr (scast (ucast (current_vector s') :: cint), s')
    \<and> vec_list s' = stored_vector va (dyn_name 1) (current_vector s') 1 Mod_dynamic_vector 1 # vec_list (one_vector 0)"
proof -
  have "card (dom (heap (one_vector 0))) + 12 \<le> 40" by (simp add: one_vector_heap)
  moreover have "validate_bitmap 1 = 0" by (simp add: validate_bitmap_def override_bits)
  moreover have "dyn_i (one_vector 0) < length (list_heads (one_vector 0))" by simp
  ultimately show ?thesis
    using create_request_served [OF km40_ok one_vector_ready _ _ caller_name(2) caller_fields(2) _ one_vector_index(4),
        of 0 3000] by (simp only: Let_def) blast
qed

section \<open>Results\<close>



end
