(* ===== verification/Syscall_Properties.thy ===== *)
theory Syscall_Properties
  imports Sample_States
begin

text \<open>
  What the overridden system calls do to the calls they stand for, and what \<open>sys_clone2\<close> does to the
  references of the vectors it hands on.
\<close>

section \<open>A caller\<close>

definition running :: syscall_state where
  "running = (one_vector 1)\<lparr>vector_info := [1 \<mapsto> 32],
     user_data := [500 \<mapsto> ''/etc/passwd'' @ [NUL], 600 \<mapsto> replicate 100 NUL, 700 \<mapsto> ''a.protected'' @ [NUL]]\<rparr>"

lemma running_facts:
  "table_found 4096 running" "km40 (tick running) (heap running) \<noteq> 0" "named kernel running ''httpd''"
  "user_data running 500 = Some (''/etc/passwd'' @ [NUL])" "user_data running 600 = Some (replicate 100 NUL)"
  "user_data running 700 = Some (''a.protected'' @ [NUL])" "card (dom (heap running)) = 2"
  "static_table running = 0" "current_vector running = 32"
proof -
  have h: "heap running = heap (one_vector 1)" by (simp add: running_def)
  have "node_at (heap running) 32 = Inr \<lparr>NR_syscall = NR_read, funcPtr = OverriddenRead,
      syscallTablePtr = 4096, nextSyscall = 0\<rparr>"
    by (simp add: h node_at_Inr one_vector_heap)
  moreover show "current_vector running = 32" "static_table running = 0"
    by (simp_all add: running_def current_vector_def)
  ultimately show "table_found 4096 running" by (simp add: table_found_def)
  show "km40 (tick running) (heap running) \<noteq> 0" by (rule km40_nonzero) (simp add: h one_vector_heap)
qed (simp_all add: kernel_named running_def one_vector_heap)

section \<open>The calls that only report\<close>

text \<open>
  C27. Transparency: for a named caller, with a table of originals and memory for the name, each of the
  seven reporting calls calls the original of its own number exactly once with the caller's arguments,
  returns its result as an \<open>int\<close>, frees the name's buffer and changes nothing but the remembered table.
\<close>

theorem reporting_calls_forward:
  assumes "allocator_ok km" and "km (tick s) (heap s) \<noteq> 0" and "named env s nm" and "table_found t s"
  shows "overriddenRead env km fd buf n s =
      Inr (scast (returned env t (Read_call fd buf n) s), called t (Read_call fd buf n) s)
    \<and> overriddenWrite env km fd buf n s = (let c = Write_call fd buf (user_bytes buf (unat n) s)
        in Inr (returned env t c s, called t c s))
    \<and> overriddenOpen env km p fl m s = Inr (returned env t (Open_call p fl m) s, called t (Open_call p fl m) s)
    \<and> overriddenClose env km fd s = Inr (returned env t (Close_call fd) s, called t (Close_call fd) s)
    \<and> overriddenLink env km p q s = Inr (returned env t (Link_call p q) s, called t (Link_call p q) s)
    \<and> overriddenMkdir env km p m s = Inr (returned env t (Mkdir_call p m) s, called t (Mkdir_call p m) s)
    \<and> overriddenRmdir env km p s = Inr (returned env t (Rmdir_call p) s, called t (Rmdir_call p) s)"
  unfolding overriddenRead_def overriddenWrite_def overriddenOpen_def overriddenClose_def
    overriddenLink_def overriddenMkdir_def overriddenRmdir_def Let_def
  by (intro conjI; rule with_name [OF assms(1-3)]) (simp_all add: printk_ok pass_on_ok [OF assms(4)])

theorem reporting_calls_forward_witness:
  "overriddenClose kernel km40 3 running = Inr (5, called 4096 (Close_call 3) running)"
  using reporting_calls_forward [OF km40_ok(1) running_facts(2,3,1), where fd = 3]
  by (simp add: returned_def kernel_fields)

text \<open>
  Without memory for the caller's name no overridden call reaches an original: nine return 8787,
  which a caller of read or write takes for a number of bytes, and \<open>loggedWrite\<close> returns 8787 or, when
  it has just found the table, 0.
\<close>

theorem no_memory_no_call:
  assumes "allocator_ok km" and "km (tick s) (heap s) = 0" and "table_found t s"
  defines "s' \<equiv> s\<lparr>tick := Suc (tick s)\<rparr>"
  shows "overriddenRead env km fd buf n s = Inr (8787, s') \<and> overriddenWrite env km fd buf n s = Inr (8787, s')
    \<and> overriddenOpen env km p fl m s = Inr (8787, s') \<and> overriddenClose env km fd s = Inr (8787, s')
    \<and> overriddenLink env km p q s = Inr (8787, s') \<and> overriddenUnlink env km p s = Inr (8787, s')
    \<and> overriddenMkdir env km p m s = Inr (8787, s') \<and> overriddenRmdir env km p s = Inr (8787, s')
    \<and> blockedOpen env km p fl m s = Inr (8787, s')
    \<and> loggedWrite env km fd buf n s = Inr (if static_table s = 0 then 0 else 8787, s'\<lparr>static_table := t\<rparr>)"
proof -
  note none = getProcessName_none [OF assms(1,2)]
  have "getProcessName env km (s\<lparr>static_table := t\<rparr>) = Inr (0, [], s'\<lparr>static_table := t\<rparr>)"
    using getProcessName_none [OF assms(1), of "s\<lparr>static_table := t\<rparr>"] assms(2) by (simp add: s'_def)
  moreover have "t \<noteq> 0" using assms(3) by (simp add: table_found_def)
  ultimately have "loggedWrite env km fd buf n s = Inr (if static_table s = 0 then 0 else 8787, s'\<lparr>static_table := t\<rparr>)"
    unfolding loggedWrite_def logged_table [OF assms(3)] by (simp cong: if_cong)
  then show ?thesis
    by (simp add: none s'_def overriddenRead_def overriddenWrite_def overriddenOpen_def overriddenClose_def
        overriddenLink_def overriddenUnlink_def overriddenMkdir_def overriddenRmdir_def blockedOpen_def)
qed

theorem no_memory_no_call_witness:
  "overriddenRead kernel (\<lambda>_ _. 0) 3 600 10 running = Inr (8787, running\<lparr>tick := Suc (tick running)\<rparr>)"
  using no_memory_no_call [of "\<lambda>_ _. 0", OF _ _ running_facts(1)] by (simp add: allocator_ok_def)

text \<open>
  A process without a vector, or under one whose first node has no table (as the modules leave it
  when they build the list), makes an overridden call jump through NULL, unless an earlier caller's
  table is remembered; the nodes the modules add have none.
\<close>

theorem call_without_table_faults:
  assumes "allocator_ok km" and "km (tick s) (heap s) \<noteq> 0" and "named env s nm" and "static_table s = 0"
    and "current_vector s = 0 \<or> (\<exists>n. node_at (heap s) (current_vector s) = Inr n \<and> syscallTablePtr n = 0)"
  shows "overriddenClose env km fd s = Inl Null_deref"
  unfolding overriddenClose_def
proof (rule with_name [OF assms(1-3)])
  fix a name
  let ?s = "s\<lparr>tick := Suc (tick s), heap := (heap s)(a \<mapsto> Raw 4096)\<rparr>"
  assume a: "a \<noteq> 0" "heap s a = None" "terminated name"
  have c: "current_vector ?s = current_vector s" by (simp add: current_vector_def)
  have "pass_on env a (Close_call fd) ?s = Inl Null_deref"
  proof (cases "current_vector s = 0")
    case True
    then show ?thesis by (intro pass_on_no_table) (simp_all add: assms(4) c)
  next
    case False
    with assms(5) obtain n where "node_at (heap s) (current_vector s) = Inr n" "syscallTablePtr n = 0" by blast
    with node_at_fresh [of "heap s" a, OF a(2)] False assms(4) c show ?thesis
      by (simp add: pass_on_def initSyscallTablePtr_def call_original_def)
  qed
  with a show "(case (a, name, ?s) of (processName, name, s) \<Rightarrow>
      if processName = 0 then Inr (8787, s)
      else bindE (printk_s name) (\<lambda>_. pass_on env processName (Close_call fd) s)) = Inl Null_deref"
    by (simp add: printk_ok)
qed

theorem call_without_table_faults_witness:
  "overriddenClose kernel km40 3 (one_vector 0) = Inl Null_deref"
proof -
  have "km40 (tick (one_vector 0)) (heap (one_vector 0)) \<noteq> 0"
    by (rule km40_nonzero) (simp add: one_vector_heap)
  from call_without_table_faults [OF km40_ok(1) this kernel_named] show ?thesis
    by (simp add: current_vector_def)
qed

section \<open>The calls that refuse or add\<close>

text \<open>
  C28. \<open>overriddenUnlink\<close> passes the call on unless the path has \<open>.protected\<close> in it; then no original is
  called and the result is the positive 8787. \<open>blockedOpen\<close> refuses exactly the callers with \<open>httpd\<close> in
  their name that open a path with \<open>/etc/passwd\<close> or \<open>/etc/shadow\<close> in it, by -1 and without calling the
  original; every other open is passed on.
\<close>

theorem refusing_calls:
  assumes "allocator_ok km" and "km (tick s) (heap s) \<noteq> 0" and "named env s nm" and "table_found t s"
    and "user_data s p = Some path" and "terminated path"
  shows "overriddenUnlink env km p s = (if strstr (c_string path) ''.protected'' then Inr (8787, refused s)
       else Inr (returned env t (Unlink_call p) s, called t (Unlink_call p) s))
    \<and> blockedOpen env km p fl m s =
      (if strstr nm ''httpd'' \<and> (strstr (c_string path) ''/etc/passwd'' \<or> strstr (c_string path) ''/etc/shadow'')
       then Inr (- 1, refused s)
       else Inr (returned env t (Open_call p fl m) s, called t (Open_call p fl m) s))"
  using overriddenUnlink_spec [OF assms] blockedOpen_spec [OF assms, of fl m] by blast

theorem refusing_calls_witness:
  "blockedOpen kernel km40 500 0 0 running = Inr (- 1, refused running)"
  using refusing_calls [OF km40_ok(1) running_facts(2,3,1,4), where fl = 0 and m = 0] by simp

text \<open>
  C29. \<open>loggedWrite\<close> to a file with \<open>.c\<close> in its path makes two original writes, the header and then the
  caller's bytes, and returns the result of the second. It frees its three buffers, but the caller's
  memory keeps the rest of a header longer than the write, and the reference on the file is not given back.
\<close>

theorem logged_write_source_files:
  assumes "allocator_ok km" "roomy b km" "card (dom (heap s)) + 2 \<le> b" and "named env s nm"
    and "table_found t s" and "\<not> sint fd < 3" and "k_file env fd = Some (Some path)" "strstr path ''.c''"
    and "user_data s buf = Some bytes" and "unat n \<le> length bytes" "unat n \<le> PAGE_SIZE"
      "length (log_header env) \<le> length bytes" and "length (k_fresh env PAGE_SIZE) = PAGE_SIZE"
  shows "\<exists>r s'. loggedWrite env km fd buf n s = Inr (r, s') \<and> heap s' = heap s
    \<and> orig_log s' = [Write_call fd buf (Some (take (unat n) bytes)), Write_call fd buf (Some (log_header env))] @ orig_log s
    \<and> user_data s' buf = Some (take (unat n) bytes @ drop (unat n) (log_header env @ drop (length (log_header env)) bytes))
    \<and> file_refs s' fd = file_refs s fd + 1"
  using loggedWrite_c [OF assms] by (simp add: Let_def logged_def)

theorem logged_write_source_files_witness:
  "\<exists>r s'. loggedWrite kernel km40 5 600 10 running = Inr (r, s') \<and> file_refs s' 5 = file_refs running 5 + 1
    \<and> user_data s' 600 = Some (replicate 10 NUL @ drop 10 (log_header kernel @ drop (length (log_header kernel)) (replicate 100 NUL)))"
proof -
  have h: "length (log_header kernel) \<le> 100"
    using length_sprintf_d [of "k_uid kernel"] by (simp add: log_header_def)
  have fresh: "length (k_fresh kernel PAGE_SIZE) = PAGE_SIZE" by (rule kernel_fresh)
  from logged_write_source_files [OF km40_ok _ running_facts(3,1) _ kernel_fields(1) _ running_facts(5), of 5 10] h fresh
  show ?thesis by (auto simp: running_facts(7) PAGE_SIZE_def)
qed

section \<open>Handing a vector on\<close>

text \<open>
  Without the flag, \<open>sys_clone2\<close> looks the vector up by its bitmap, takes a reference when it finds
  one and hands its address, or -1, to \<open>_do_fork\<close>. The result of \<open>_do_fork\<close> is not looked at: when it
  fails the reference stays taken.
\<close>

theorem clone_by_id_takes_reference:
  assumes "reg_ok s" and "flags AND CLONE_SYSCALLS = 0"
    and fork: "\<And>x. do_fork flags stack 0 ptid ctid 0 x = (\<lambda>s. Inr (- ENOMEM, s))"
  shows "sys_clone2 do_fork flags stack ptid tls ctid vid s =
    Inr (- ENOMEM, case bitmap_index (ucast vid) s of None \<Rightarrow> s | Some i \<Rightarrow> take_ref i s)"
  unfolding sys_clone2_by_id [OF assms(1,2)] by (simp add: fork Let_def split: option.split)

theorem clone_by_id_takes_reference_witness:
  "sys_clone2 (\<lambda>_ _ _ _ _ _ _ s. Inr (- ENOMEM, s)) 0 0 0 0 0 55 (one_vector 0) = Inr (- ENOMEM, take_ref 0 (one_vector 0))"
  using clone_by_id_takes_reference [OF one_vector_inv(2), of 0 "\<lambda>_ _ _ _ _ _ _ s. Inr (- ENOMEM, s)" 0 0 0 0 55 0]
  by (simp add: one_vector_index)



end
