(* ===== verification/User_Process.thy ===== *)
theory User_Process
  imports Clone2 Device_Answers
begin

text \<open>
  The user's side of the device: a process with its memory and output, the library calls the
  programs under \<open>demo\<close> make, and the functions around \<open>ioctl\<close> they share. A call of \<open>ioctl\<close> runs
  \<open>custom_ioctl\<close> on the kernel's state.
\<close>

section \<open>A process\<close>

text \<open>A block of user memory: an array of characters or one of the structures of \<open>ioctl_module.h\<close>.\<close>

datatype ublock = Bytes "char list" | Pid_n_buf pid addr | Bitmap uint

record 'k user_proc =
  kern :: 'k                      \<comment> \<open>the kernel the process runs on\<close>
  umem :: "addr \<rightharpoonup> ublock"
  errno :: cint
  outs :: "string list"            \<comment> \<open>what was printed\<close>
  errs :: "string list"            \<comment> \<open>what \<open>perror\<close> wrote\<close>

text \<open>What the C library and the kernel decide for the process.\<close>

record user_env =
  malloc :: "nat \<Rightarrow> (addr \<rightharpoonup> ublock) \<Rightarrow> addr"
  fresh_bytes :: "nat \<Rightarrow> char list"
  open_path :: "string \<Rightarrow> cint"
  strerror :: "cint \<Rightarrow> string"
  own_pid :: pid

text \<open>\<open>malloc\<close> returns NULL or the address of unused memory of the size asked for.\<close>

definition malloc_ok :: "user_env \<Rightarrow> bool" where
  "malloc_ok e \<longleftrightarrow> (\<forall>n m. malloc e n m \<noteq> 0 \<longrightarrow> m (malloc e n m) = None) \<and> (\<forall>n. length (fresh_bytes e n) = n)"

section \<open>Library calls\<close>

definition umalloc :: "user_env \<Rightarrow> nat \<Rightarrow> 'k user_proc \<Rightarrow> addr \<times> 'k user_proc" where
  "umalloc e n pr =
     (let a = malloc e n (umem pr) in
      if a = 0 then (0, pr) else (a, pr\<lparr>umem := (umem pr)(a \<mapsto> Bytes (fresh_bytes e n))\<rparr>))"

definition ufree :: "addr \<Rightarrow> 'k user_proc \<Rightarrow> 'k user_proc cres" where
  "ufree a pr =
     (if a = 0 then Inr pr
      else if umem pr a = None then Inl Bad_pointer
      else Inr (pr\<lparr>umem := (umem pr)(a := None)\<rparr>))"

text \<open>The characters at an address, and \<open>memcpy\<close> or \<open>memset\<close> to it.\<close>

definition bytes_at :: "addr \<Rightarrow> (addr \<rightharpoonup> ublock) \<Rightarrow> char list cres" where
  "bytes_at a m =
     (if a = 0 then Inl Null_deref
      else case m a of Some (Bytes b) \<Rightarrow> Inr b | _ \<Rightarrow> Inl Bad_pointer)"

definition umemcpy :: "addr \<Rightarrow> char list \<Rightarrow> 'k user_proc \<Rightarrow> 'k user_proc cres" where
  "umemcpy a bs pr =
     bindE (bytes_at a (umem pr)) (\<lambda>b.
     bindE (write_at 0 bs b) (\<lambda>b. Inr (pr\<lparr>umem := (umem pr)(a \<mapsto> Bytes b)\<rparr>)))"

definition umemset0 :: "addr \<Rightarrow> nat \<Rightarrow> 'k user_proc \<Rightarrow> 'k user_proc cres" where
  "umemset0 a n pr = umemcpy a (replicate n NUL) pr"

definition say :: "string \<Rightarrow> 'k user_proc \<Rightarrow> 'k user_proc" where
  "say t pr = pr\<lparr>outs := outs pr @ [t]\<rparr>"

definition perror :: "user_env \<Rightarrow> string \<Rightarrow> 'k user_proc \<Rightarrow> 'k user_proc" where
  "perror e t pr = pr\<lparr>errs := errs pr @ [t @ '': '' @ strerror e (errno pr) @ [NL]]\<rparr>"

text \<open>A system call's result, as the C library hands it on: an error number becomes -1 and \<open>errno\<close>.\<close>

definition libc_ret :: "ulong \<Rightarrow> 'k user_proc \<Rightarrow> cint \<times> 'k user_proc" where
  "libc_ret r pr = (if is_err r then (- 1, pr\<lparr>errno := - ucast r\<rparr>) else (ucast r, pr))"

section \<open>The device from the user's side\<close>

text \<open>User memory as the kernel reads it: what is mapped can be copied.\<close>

definition user_view :: "(addr \<rightharpoonup> ublock) \<Rightarrow> user_mem" where
  "user_view m =
     \<lparr>u_bytes = (\<lambda>p. case m p of Some (Bytes b) \<Rightarrow> Some b | _ \<Rightarrow> None),
      u_pid_n_buf = (\<lambda>p. case m p of Some (Pid_n_buf i a) \<Rightarrow> (i, a) | _ \<Rightarrow> (0, 0)),
      u_bitmap = (\<lambda>p. case m p of Some (Bitmap b) \<Rightarrow> b | _ \<Rightarrow> 0),
      u_missing = (\<lambda>p n. if m p = None then n else 0)\<rparr>"

text \<open>Where the answer of a request goes, and the memory after it.\<close>

definition reply_to :: "uint \<Rightarrow> addr \<Rightarrow> (addr \<rightharpoonup> ublock) \<Rightarrow> addr" where
  "reply_to req p m = (if req = IOCTL_VECTOR_FOR_PID then snd (u_pid_n_buf (user_view m) p) else p)"

definition store_reply :: "addr \<Rightarrow> char list option \<Rightarrow> (addr \<rightharpoonup> ublock) \<Rightarrow> (addr \<rightharpoonup> ublock) cres" where
  "store_reply p answer m =
     (case answer of
        None \<Rightarrow> Inr m
      | Some bs \<Rightarrow>
          if bs = [] then Inr m
          else bindE (bytes_at p m) (\<lambda>b. bindE (write_at 0 bs b) (\<lambda>b. Inr (m(p \<mapsto> Bytes b)))))"

definition EBADF :: cint where "EBADF = 9"

definition user_ioctl ::
  "allocator \<Rightarrow> cint \<Rightarrow> uint \<Rightarrow> addr \<Rightarrow> 'a ioctl_state_scheme user_proc \<Rightarrow> (cint \<times> 'a ioctl_state_scheme user_proc) cres" where
  "user_ioctl km fd req p pr =
     (if sint fd < 0 then Inr (- 1, pr\<lparr>errno := EBADF\<rparr>)
      else
        bindE (custom_ioctl km (user_view (umem pr)) req p ((kern pr)\<lparr>user_out := Map.empty\<rparr>)) (\<lambda>(r, s).
        bindE (store_reply (reply_to req p (umem pr)) (user_out s (reply_to req p (umem pr))) (umem pr)) (\<lambda>m.
        Inr (libc_ret r (pr\<lparr>kern := s, umem := m\<rparr>)))))"

section \<open>The functions around \<open>ioctl\<close>\<close>

text \<open>Those of \<open>user_ioctl1.c\<close>: the request, and a failure is printed.\<close>

definition reporting_ioctl ::
  "string \<Rightarrow> string \<Rightarrow> uint \<Rightarrow> user_env \<Rightarrow> allocator \<Rightarrow> cint \<Rightarrow> addr \<Rightarrow> 'a ioctl_state_scheme user_proc
   \<Rightarrow> (cint \<times> 'a ioctl_state_scheme user_proc) cres" where
  "reporting_ioctl msg label req e km fd p pr =
     bindE (user_ioctl km fd req p pr) (\<lambda>(err, pr).
     Inr (err,
       if sint err < 0
       then perror e label (say (msg @ sprintf_d (errno pr) @ '' '' @ sprintf_d fd @ [NL]) pr)
       else pr))"

definition ioctl_remove_vector ::
  "user_env \<Rightarrow> allocator \<Rightarrow> cint \<Rightarrow> addr \<Rightarrow> 'a ioctl_state_scheme user_proc \<Rightarrow> (cint \<times> 'a ioctl_state_scheme user_proc) cres" where
  "ioctl_remove_vector = reporting_ioctl ''ioctl_remove_vector failed: '' ''ERROR '' IOCTL_REMOVE"

definition ioctl_set_vector ::
  "user_env \<Rightarrow> allocator \<Rightarrow> cint \<Rightarrow> addr \<Rightarrow> 'a ioctl_state_scheme user_proc \<Rightarrow> (cint \<times> 'a ioctl_state_scheme user_proc) cres" where
  "ioctl_set_vector = reporting_ioctl ''ioctl_set_vector failed:'' ''ERROR '' IOCTL_SET"

definition ioctl_get_my_vector_info ::
  "user_env \<Rightarrow> allocator \<Rightarrow> cint \<Rightarrow> addr \<Rightarrow> 'a ioctl_state_scheme user_proc \<Rightarrow> (cint \<times> 'a ioctl_state_scheme user_proc) cres" where
  "ioctl_get_my_vector_info = reporting_ioctl ''ioctl_get_my_vector_info failed:'' ''ERROR'' IOCTL_SHOW_MINE"

definition ioctl_get_all_vectors_info ::
  "user_env \<Rightarrow> allocator \<Rightarrow> cint \<Rightarrow> addr \<Rightarrow> 'a ioctl_state_scheme user_proc \<Rightarrow> (cint \<times> 'a ioctl_state_scheme user_proc) cres" where
  "ioctl_get_all_vectors_info = reporting_ioctl ''ioctl_get_all_vectors_info failed:'' ''ERROR'' IOCTL_SHOW_ALL"

section \<open>Lemmas\<close>

lemma user_view_simps [simp]:
  "m p = Some (Bytes b) \<Longrightarrow> u_bytes (user_view m) p = Some b"
  "m p = Some (Pid_n_buf i a) \<Longrightarrow> u_pid_n_buf (user_view m) p = (i, a)"
  "m p = Some (Bitmap bm) \<Longrightarrow> u_bitmap (user_view m) p = bm"
  "m p \<noteq> None \<Longrightarrow> not_copied (user_view m) p n = 0"
  by (auto simp: user_view_def not_copied_def)

lemma user_fields [simp]:
  "outs (say t pr) = outs pr @ [t]" "umem (say t pr) = umem pr" "kern (say t pr) = kern pr"
  "errs (say t pr) = errs pr" "errno (say t pr) = errno pr"
  by (simp_all add: say_def)

lemma umemcpy_bytes:
  assumes "umem pr a = Some (Bytes b)" and "a \<noteq> 0" and "length bs \<le> length b"
  shows "umemcpy a bs pr = Inr (pr\<lparr>umem := (umem pr)(a \<mapsto> Bytes (bs @ drop (length bs) b))\<rparr>)"
  using assms by (simp add: umemcpy_def bytes_at_def write_at_def)

lemma umemset0_bytes:
  assumes "umem pr a = Some (Bytes b)" and "a \<noteq> 0" and "length b = n"
  shows "umemset0 a n pr = Inr (pr\<lparr>umem := (umem pr)(a \<mapsto> Bytes (replicate n NUL))\<rparr>)"
  using assms by (simp add: umemset0_def umemcpy_bytes)

text \<open>Memory from \<open>malloc\<close> when there is room.\<close>

definition malloc_roomy :: "nat \<Rightarrow> user_env \<Rightarrow> bool" where
  "malloc_roomy b e \<longleftrightarrow> (\<forall>n m. card (dom m) \<le> b \<longrightarrow> malloc e n m \<noteq> 0)"

lemma user_out_kept [simp]:
  "ioctl_ready (s\<lparr>user_out := x\<rparr>) = ioctl_ready s" "texts_fit (s\<lparr>user_out := x\<rparr>) = texts_fit s"
  "my_text a (s\<lparr>user_out := x\<rparr>) = my_text a s" "all_text (s\<lparr>user_out := x\<rparr>) = all_text s"
  "current_vector (s\<lparr>user_out := x\<rparr>) = current_vector s" "all_shown (s\<lparr>user_out := x\<rparr>) = all_shown s"
  "name_index q (s\<lparr>user_out := x\<rparr>) = name_index q s" "reg_ok (s\<lparr>user_out := x\<rparr>) = reg_ok s"
  "bitmap_index bm (s\<lparr>user_out := x\<rparr>) = bitmap_index bm s"
  "vec_list (add_refcount j d (s\<lparr>user_out := x\<rparr>)) = vec_list (add_refcount j d s)"
  by (simp_all add: ioctl_ready_def reg_inv_def reg_ok_def texts_fit_def my_text_def addr_index_def all_text_def
      current_vector_def all_shown_def name_index_def bitmap_index_def add_refcount_def cong: option.case_cong)

text \<open>An \<open>int\<close> on its way through the \<open>long\<close> a system call returns.\<close>

lemma ucast_scast_int: "ucast (scast (v :: 32 word) :: ulong) = v"
  by (rule bit_word_eqI) (simp add: bit_simps)

lemma nonneg_no_err:
  assumes "0 \<le> sint (v :: 32 word)"
  shows "\<not> is_err (scast v)"
proof -
  have up: "sint v < 2 ^ 31" using sint_less [of v] by simp
  then have "sint v mod 2 ^ 64 = sint v" using assms by (intro mod_pos_pos_trivial) simp_all
  then have "uint (scast v :: ulong) = sint v" unfolding scast_eq uint_word_of_int by simp
  with up have "(scast v :: ulong) < 2 ^ 31" by (simp add: word_less_def)
  then have "(scast v :: ulong) < - 4095" by (rule order.strict_trans) simp
  then show ?thesis by (simp add: is_err_def)
qed

text \<open>A request prints nothing, and a result that is not negative is handed on.\<close>

lemma user_ioctl_outs: "user_ioctl km fd req p pr = Inr (r, pr') \<Longrightarrow> outs pr' = outs pr \<and> errs pr' = errs pr"
  by (auto simp: user_ioctl_def libc_ret_def bindE_eq_Inr split: if_splits)

lemma reporting_ioctl_passes:
  "user_ioctl km fd req p pr = Inr (r, pr') \<Longrightarrow> 0 \<le> sint r \<Longrightarrow> reporting_ioctl msg label req e km fd p pr = Inr (r, pr')"
  by (simp add: reporting_ioctl_def)

lemma libc_ret_0 [simp]: "libc_ret 0 pr = (0, pr)"
  by (simp add: libc_ret_def)

text \<open>What the two requests that show come to for a process whose buffer has the device's 256 bytes.\<close>

lemma user_ioctl_answer:
  assumes "0 \<le> sint fd" and "reply_to req p (umem pr) = d"
    and "custom_ioctl km (user_view (umem pr)) req p ((kern pr)\<lparr>user_out := Map.empty\<rparr>) =
      Inr (0, answered n d bs ((kern pr)\<lparr>user_out := Map.empty\<rparr>))"
    and "umem pr d = Some (Bytes b)" and "d \<noteq> 0" and "length bs \<le> length b" and "bs \<noteq> []"
  shows "user_ioctl km fd req p pr = Inr (0, pr\<lparr>kern := answered n d bs ((kern pr)\<lparr>user_out := Map.empty\<rparr>),
    umem := (umem pr)(d \<mapsto> Bytes (bs @ drop (length bs) b))\<rparr>)"
  using assms by (auto simp: user_ioctl_def store_reply_def bytes_at_def write_at_def)

definition can_call :: "allocator \<Rightarrow> nat \<Rightarrow> cint \<Rightarrow> 'a ioctl_state_scheme \<Rightarrow> bool" where
  "can_call km b fd s \<longleftrightarrow> allocator_ok km \<and> roomy b km \<and> 0 \<le> sint fd \<and> ioctl_ready s
     \<and> card (dom (heap s)) + 2 \<le> b \<and> texts_fit s"

lemma can_callE:
  assumes "can_call km b fd s"
  obtains "allocator_ok km" and "roomy b km" and "ioctl_ready (s\<lparr>user_out := Map.empty\<rparr>)"
    and "card (dom (heap (s\<lparr>user_out := Map.empty\<rparr>))) + 2 \<le> b" and "texts_fit (s\<lparr>user_out := Map.empty\<rparr>)"
    and "0 \<le> sint fd"
  using assms by (auto simp: can_call_def)

definition can_ask :: "allocator \<Rightarrow> nat \<Rightarrow> cint \<Rightarrow> addr \<Rightarrow> 'a ioctl_state_scheme user_proc \<Rightarrow> bool" where
  "can_ask km b fd buf pr \<longleftrightarrow> can_call km b fd (kern pr)
     \<and> buf \<noteq> 0 \<and> (\<exists>old. umem pr buf = Some (Bytes old) \<and> length old = BUF_LEN)"

lemma padded_256: "length t < BUF_LEN \<Longrightarrow> length (padded t) = BUF_LEN \<and> padded t \<noteq> []"
  using padded_length [of t] by (auto simp: BUF_LEN_def)

text \<open>The two requests that show, into a buffer of at least that size.\<close>

lemma asks_all_into:
  assumes call: "can_call km b fd (kern pr)" and p: "umem pr buf = Some (Bytes old)" "buf \<noteq> 0" "BUF_LEN \<le> length old"
  obtains n where "user_ioctl km fd IOCTL_SHOW_ALL buf pr = Inr (0,
    pr\<lparr>kern := answered n buf (padded (all_text (kern pr))) ((kern pr)\<lparr>user_out := Map.empty\<rparr>),
       umem := (umem pr)(buf \<mapsto> Bytes (padded (all_text (kern pr)) @ drop BUF_LEN old))\<rparr>)"
proof (rule can_callE [OF call])
  let ?s = "(kern pr)\<lparr>user_out := Map.empty\<rparr>"
  assume c: "allocator_ok km" "roomy b km" "ioctl_ready ?s" "card (dom (heap ?s)) + 2 \<le> b" "texts_fit ?s"
    and fd: "0 \<le> sint fd"
  have "not_copied (user_view (umem pr)) buf BUF_LEN = 0" using p(1) by simp
  from show_all_runs [OF c this] obtain n where n: "custom_ioctl km (user_view (umem pr)) IOCTL_SHOW_ALL buf ?s =
      Inr (0, answered n buf (padded (all_text ?s)) ?s)" .
  have "reply_to IOCTL_SHOW_ALL buf (umem pr) = buf" by (simp add: reply_to_def ioctl_numbers)
  from user_ioctl_answer [OF fd this n p(1,2)] padded_256 [OF all_text_fits [OF c(5)]] p(3) that
  show ?thesis by simp
qed

lemma asks_mine_into:
  assumes call: "can_call km b fd (kern pr)" and p: "umem pr buf = Some (Bytes old)" "buf \<noteq> 0" "BUF_LEN \<le> length old"
    and t: "my_text (current_vector (kern pr)) (kern pr) = t"
  obtains n where "user_ioctl km fd IOCTL_SHOW_MINE buf pr = Inr (0,
    pr\<lparr>kern := answered n buf (padded t) ((kern pr)\<lparr>user_out := Map.empty\<rparr>),
       umem := (umem pr)(buf \<mapsto> Bytes (padded t @ drop BUF_LEN old))\<rparr>)"
proof (rule can_callE [OF call])
  let ?s = "(kern pr)\<lparr>user_out := Map.empty\<rparr>"
  assume c: "allocator_ok km" "roomy b km" "ioctl_ready ?s" "card (dom (heap ?s)) + 2 \<le> b" "texts_fit ?s"
    and fd: "0 \<le> sint fd"
  have "not_copied (user_view (umem pr)) buf BUF_LEN = 0" using p(1) by simp
  from show_mine_runs [OF c this] t obtain n where n: "custom_ioctl km (user_view (umem pr)) IOCTL_SHOW_MINE buf ?s =
      Inr (0, answered n buf (padded t) ?s)" by auto
  have "reply_to IOCTL_SHOW_MINE buf (umem pr) = buf" by (simp add: reply_to_def ioctl_numbers)
  from user_ioctl_answer [OF fd this n p(1,2)] padded_256 [OF my_text_fits [OF c(5)], of "current_vector (kern pr)"] p(3) t that
  show ?thesis by simp
qed

text \<open>The request about a process, from a \<open>struct pid_n_buf\<close>.\<close>

lemma asks_pid_into:
  assumes call: "can_call km b fd (kern pr)" and p: "umem pr buf = Some (Bytes old)" "buf \<noteq> 0" "BUF_LEN \<le> length old"
    and pb: "umem pr pb = Some (Pid_n_buf pid buf)" and v: "vector_info (kern pr) pid = Some a" "my_text a (kern pr) = t"
  obtains n where "user_ioctl km fd IOCTL_VECTOR_FOR_PID pb pr = Inr (0,
    pr\<lparr>kern := answered n buf (padded t) ((kern pr)\<lparr>user_out := Map.empty\<rparr>),
       umem := (umem pr)(buf \<mapsto> Bytes (padded t @ drop BUF_LEN old))\<rparr>)"
proof (rule can_callE [OF call])
  let ?s = "(kern pr)\<lparr>user_out := Map.empty\<rparr>" and ?u = "user_view (umem pr)"
  assume c: "allocator_ok km" "roomy b km" "ioctl_ready ?s" "card (dom (heap ?s)) + 2 \<le> b" "texts_fit ?s"
    and fd: "0 \<le> sint fd"
  have "not_copied ?u buf BUF_LEN = 0" "not_copied ?u pb 16 = 0" "u_pid_n_buf ?u pb = (pid, buf)"
    using p(1) pb by simp_all
  from pid_answer_runs [OF c this] v obtain n where n: "custom_ioctl km ?u IOCTL_VECTOR_FOR_PID pb ?s =
      Inr (0, answered n buf (padded t) ?s)" by auto
  have "reply_to IOCTL_VECTOR_FOR_PID pb (umem pr) = buf" using pb by (simp add: reply_to_def)
  from user_ioctl_answer [OF fd this n p(1,2)] padded_256 [OF my_text_fits [OF c(5)], of a] p(3) v(2) that
  show ?thesis by simp
qed

lemma asks_for_all:
  assumes "can_ask km b fd buf pr"
  obtains n where "user_ioctl km fd IOCTL_SHOW_ALL buf pr = Inr (0,
    pr\<lparr>kern := answered n buf (padded (all_text (kern pr))) ((kern pr)\<lparr>user_out := Map.empty\<rparr>),
       umem := (umem pr)(buf \<mapsto> Bytes (padded (all_text (kern pr))))\<rparr>)"
proof -
  from assms obtain old where p: "can_call km b fd (kern pr)" "umem pr buf = Some (Bytes old)" "buf \<noteq> 0" "length old = BUF_LEN"
    by (auto simp: can_ask_def)
  have "BUF_LEN \<le> length old" using p(4) by simp
  from asks_all_into [OF p(1-3) this] p(4) that show ?thesis by simp metis
qed

lemma asks_for_mine:
  assumes "can_ask km b fd buf pr"
  obtains n where "user_ioctl km fd IOCTL_SHOW_MINE buf pr = Inr (0,
    pr\<lparr>kern := answered n buf (padded (my_text (current_vector (kern pr)) (kern pr))) ((kern pr)\<lparr>user_out := Map.empty\<rparr>),
       umem := (umem pr)(buf \<mapsto> Bytes (padded (my_text (current_vector (kern pr)) (kern pr))))\<rparr>)"
proof -
  from assms obtain old where p: "can_call km b fd (kern pr)" "umem pr buf = Some (Bytes old)" "buf \<noteq> 0" "length old = BUF_LEN"
    by (auto simp: can_ask_def)
  have "BUF_LEN \<le> length old" using p(4) by simp
  from asks_mine_into [OF p(1-3) this refl] p(4) that show ?thesis by simp metis
qed

text \<open>\<open>malloc\<close> and the \<open>memset\<close> that follows it in every program.\<close>

lemma zeroed_malloc:
  assumes "malloc_ok e" and "malloc_roomy c e" and "card (dom m) < c" and "a = malloc e n m"
  shows "a \<noteq> 0" and "m a = None" and "card (dom (m(a \<mapsto> x))) = Suc (card (dom m))"
    and "umem pr = m \<Longrightarrow> umalloc e n pr = (a, pr\<lparr>umem := m(a \<mapsto> Bytes (fresh_bytes e n))\<rparr>)"
    and "umemset0 a n (pr\<lparr>umem := m(a \<mapsto> Bytes (fresh_bytes e n))\<rparr>) = Inr (pr\<lparr>umem := m(a \<mapsto> Bytes (replicate n NUL))\<rparr>)"
proof -
  show nz: "a \<noteq> 0" using assms(2-4) by (simp add: malloc_roomy_def)
  then show free: "m a = None" using assms(1,4) by (simp add: malloc_ok_def)
  then show "card (dom (m(a \<mapsto> x))) = Suc (card (dom m))" by (simp add: domIff)
  have len: "length (fresh_bytes e n) = n" using assms(1) by (simp add: malloc_ok_def)
  show "umalloc e n pr = (a, pr\<lparr>umem := m(a \<mapsto> Bytes (fresh_bytes e n))\<rparr>)" if "umem pr = m"
    using that nz assms(4) by (simp add: umalloc_def Let_def)
  show "umemset0 a n (pr\<lparr>umem := m(a \<mapsto> Bytes (fresh_bytes e n))\<rparr>) = Inr (pr\<lparr>umem := m(a \<mapsto> Bytes (replicate n NUL))\<rparr>)"
    using nz len by (subst umemset0_bytes) simp_all
qed

text \<open>Two blocks given back in the order they were taken.\<close>

lemma ufree_two:
  assumes "m a = None" and "m b = None" and "a \<noteq> b" and "a \<noteq> 0" and "b \<noteq> 0" and "umem pr = m(a \<mapsto> x, b \<mapsto> y)"
  shows "bindE (ufree a pr) (\<lambda>pr. bindE (ufree b pr) f) = f (pr\<lparr>umem := m\<rparr>)"
proof -
  have "m(a := None, b \<mapsto> y, b := None) = m" using assms(1-3) by (auto simp: fun_eq_iff)
  with assms(3-) show ?thesis by (simp add: ufree_def fun_upd_twist)
qed

text \<open>A process takes the vector named in its buffer.\<close>

lemma asks_to_set:
  assumes call: "can_call km b fd (kern pr)" and plain: "plain_names (kern pr)"
    and q: "umem pr buf = Some (Bytes bs)" "terminated bs" "c_string bs = q" "length q < 256"
    and i: "name_index q (kern pr) = Some i" "overriddenSyscalls_address (vec_list (kern pr) ! i) = a" "a \<noteq> 0"
  shows "\<exists>s'. user_ioctl km fd IOCTL_SET buf pr = Inr (0, pr\<lparr>kern := s'\<rparr>) \<and> ioctl_ready s'
    \<and> heap s' = heap (kern pr) \<and> vec_list s' = vec_list (add_refcount i 1 (kern pr))
    \<and> vector_info s' = (vector_info (kern pr))(current (kern pr) \<mapsto> a) \<and> current s' = current (kern pr)
    \<and> dyn_i s' = dyn_i (kern pr) \<and> list_heads s' = list_heads (kern pr)"
proof (rule can_callE [OF call])
  let ?s = "(kern pr)\<lparr>user_out := Map.empty\<rparr>" and ?u = "user_view (umem pr)"
  assume c: "allocator_ok km" "roomy b km" "ioctl_ready ?s" "card (dom (heap ?s)) + 2 \<le> b" "texts_fit ?s"
    and fd: "0 \<le> sint fd"
  have p: "plain_names ?s" using plain by (simp add: plain_names_def)
  have u: "user_name ?u buf q" "not_copied ?u buf (length q) = 0"
    using q by (simp_all add: user_name_def)
  have j: "name_index q ?s = Some i" "overriddenSyscalls_address (vec_list ?s ! i) = a" using i by simp_all
  from ioctl_set_taken [OF c(1-3,5) p c(4) u j i(3)] obtain s' where
    s': "custom_ioctl km ?u IOCTL_SET buf ?s = Inr (0, s')" "ioctl_ready s'" "heap s' = heap ?s"
      "vec_list s' = vec_list (add_refcount i 1 ?s)" "vector_info s' = (vector_info ?s)(current ?s \<mapsto> a)"
      "current s' = current ?s" "user_out s' = Map.empty" "dyn_i s' = dyn_i ?s" "list_heads s' = list_heads ?s" by auto
  have "IOCTL_SET \<noteq> IOCTL_VECTOR_FOR_PID" by (simp add: ioctl_numbers)
  with s'(1,7) fd have "user_ioctl km fd IOCTL_SET buf pr = Inr (0, pr\<lparr>kern := s'\<rparr>)"
    by (simp add: user_ioctl_def reply_to_def store_reply_def)
  moreover have "vec_list (add_refcount i 1 ?s) = vec_list (add_refcount i 1 (kern pr))"
    by (simp add: add_refcount_def)
  ultimately show ?thesis using s' by auto
qed

text \<open>A process leaves the vector named in its buffer, whether it had it or not.\<close>

lemma asks_to_remove:
  assumes call: "can_call km b fd (kern pr)"
    and q: "umem pr buf = Some (Bytes bs)" "terminated bs" "c_string bs = q" "length q < 256"
    and i: "name_index q (kern pr) = Some i" "refcount (vec_list (kern pr) ! i) - 1 = r"
  shows "\<exists>e er s'. user_ioctl km fd IOCTL_REMOVE buf pr = Inr (e, pr\<lparr>kern := s', errno := er\<rparr>) \<and> ioctl_ready s'
    \<and> e = (if sint r < 0 then - 1 else r)
    \<and> heap s' = heap (kern pr) \<and> vec_list s' = vec_list (add_refcount i (- 1) (kern pr))
    \<and> vector_info s' = (if sint r < 0 then vector_info (kern pr) else (vector_info (kern pr))(current (kern pr) \<mapsto> 0))
    \<and> current s' = current (kern pr) \<and> dyn_i s' = dyn_i (kern pr) \<and> list_heads s' = list_heads (kern pr)"
proof (rule can_callE [OF call])
  let ?s = "(kern pr)\<lparr>user_out := Map.empty\<rparr>" and ?u = "user_view (umem pr)"
  assume c: "allocator_ok km" "roomy b km" "ioctl_ready ?s" "card (dom (heap ?s)) + 2 \<le> b"
    and fd: "0 \<le> sint fd"
  have u: "user_name ?u buf q" "not_copied ?u buf (length q) = 0"
    using q by (simp_all add: user_name_def)
  have "name_index q ?s = Some i" "refcount (vec_list ?s ! i) - 1 = r" using i by simp_all
  from ioctl_remove_found [OF c u this] obtain s' where
    s': "custom_ioctl km ?u IOCTL_REMOVE buf ?s = Inr (if sint r < 0 then - EINVAL else scast r, s')" "ioctl_ready s'" "heap s' = heap ?s"
      "vec_list s' = vec_list (add_refcount i (- 1) ?s)" "current s' = current ?s" "user_out s' = Map.empty"
      "dyn_i s' = dyn_i ?s" "list_heads s' = list_heads ?s"
      "vector_info s' = (if sint r < 0 then vector_info ?s else (vector_info ?s)(current ?s \<mapsto> 0))" by auto
  have "is_err (- EINVAL)" by (simp add: is_err_def)
  then obtain e er where "libc_ret (if sint r < 0 then - EINVAL else scast r) (pr\<lparr>kern := s'\<rparr>) = (e, pr\<lparr>kern := s', errno := er\<rparr>)"
    and e: "e = (if sint r < 0 then - 1 else r)"
    using nonneg_no_err [of r] ucast_scast_int [of r]
    by (cases "sint r < 0") (auto simp: libc_ret_def intro!: that [of _ "errno pr"])
  moreover have "IOCTL_REMOVE \<noteq> IOCTL_VECTOR_FOR_PID" by (simp add: ioctl_numbers)
  ultimately have "user_ioctl km fd IOCTL_REMOVE buf pr = Inr (e, pr\<lparr>kern := s', errno := er\<rparr>)"
    using s'(1,6) fd by (simp add: user_ioctl_def reply_to_def store_reply_def)
  moreover have "vec_list (add_refcount i (- 1) ?s) = vec_list (add_refcount i (- 1) (kern pr))"
    by (simp add: add_refcount_def)
  ultimately show ?thesis using s' e by (intro exI [of _ e] exI [of _ er] exI [of _ s']) simp
qed

end
