(* ===== verification/Demo_Programs.thy ===== *)
theory Demo_Programs
  imports User_Process
begin

text \<open>
  The programs of \<open>demo\<close> that look at the registry: \<open>user_ioctl1.c\<close> prints it, \<open>user_clone.c\<close> takes
  a vector, prints it and makes a child by \<open>clone2\<close>. Each \<open>main\<close> is a function of the environment,
  the kernel's allocator and the process. \<open>sleep\<close> and \<open>wait\<close> order the child before the rest of
  the parent.
\<close>

section \<open>\<open>user_ioctl1.c\<close>\<close>

definition device_path :: string where "device_path = ''/dev/ioctl_device''"

text \<open>\<open>strtok\<close> puts a NUL over the newline that ends a token.\<close>

fun strtok_cut :: "bool \<Rightarrow> char list \<Rightarrow> char list" where
  "strtok_cut t [] = []"
| "strtok_cut t (c # cs) =
     (if c = NUL then c # cs
      else if c = NL then (if t then NUL else NL) # strtok_cut False cs
      else c # strtok_cut True cs)"

lemma length_strtok_cut [simp]: "length (strtok_cut t cs) = length cs"
  by (induction t cs rule: strtok_cut.induct) auto

definition display_buffer ::
  "(char list \<Rightarrow> string list) \<Rightarrow> addr \<Rightarrow> 'k user_proc \<Rightarrow> 'k user_proc cres" where
  "display_buffer display a pr =
     bindE (bytes_at a (umem pr)) (\<lambda>b.
     if terminated b
     then Inr (pr\<lparr>outs := outs pr @ display b, umem := (umem pr)(a \<mapsto> Bytes (strtok_cut False b))\<rparr>)
     else Inl Unterminated)"

definition ioctl1_main ::
  "user_env \<Rightarrow> allocator \<Rightarrow> 'a ioctl_state_scheme user_proc \<Rightarrow> (cint \<times> 'a ioctl_state_scheme user_proc) cres" where
  "ioctl1_main e km pr =
     (let pr = say (''pid : '' @ sprintf_d (own_pid e) @ [NL]) pr;
          (file_name, pr) = umalloc e (length device_path + 1) pr in
      bindE (umemset0 file_name (length device_path + 1) pr) (\<lambda>pr.
      bindE (umemcpy file_name device_path pr) (\<lambda>pr.
      let (name_buf, pr) = umalloc e MAX_VECTOR_NAME_LEN pr in
      bindE (umemset0 name_buf MAX_VECTOR_NAME_LEN pr) (\<lambda>pr.
      bindE (bytes_at file_name (umem pr)) (\<lambda>name.
      let file_desc = open_path e (c_string name) in
      bindE
        (if sint file_desc < 0 then
           Inr (0, say (''Can't open file: '' @ c_string name @ [NL]) pr)
         else
           let pr = say (''calling ioctl to get all vector names '' @ [NL]) pr in
           bindE (ioctl_get_all_vectors_info e km file_desc name_buf pr) (\<lambda>(ret, pr).
           if sint ret < 0 then Inr (ret, say (''ioctl to get my vector failed'' @ [NL]) pr)
           else bindE (display_buffer display_vectors name_buf pr) (\<lambda>pr. Inr (ret, pr))))
        (\<lambda>(ret, pr).
      bindE (ufree file_name pr) (\<lambda>pr.
      bindE (ufree name_buf pr) (\<lambda>pr.
      Inr (ret, pr)))))))))"

section \<open>\<open>user_clone.c\<close>\<close>

text \<open>Its own functions around \<open>ioctl\<close>, the same as those of \<open>user_ioctl1.c\<close>.\<close>

definition clone_ioctl_remove_vector ::
  "user_env \<Rightarrow> allocator \<Rightarrow> cint \<Rightarrow> addr \<Rightarrow> 'a ioctl_state_scheme user_proc \<Rightarrow> (cint \<times> 'a ioctl_state_scheme user_proc) cres" where
  "clone_ioctl_remove_vector = reporting_ioctl ''ioctl_remove_vector failed: '' ''ERROR '' IOCTL_REMOVE"

definition clone_ioctl_set_vector ::
  "user_env \<Rightarrow> allocator \<Rightarrow> cint \<Rightarrow> addr \<Rightarrow> 'a ioctl_state_scheme user_proc \<Rightarrow> (cint \<times> 'a ioctl_state_scheme user_proc) cres" where
  "clone_ioctl_set_vector = reporting_ioctl ''ioctl_set_vector failed:'' ''ERROR '' IOCTL_SET"

definition clone_ioctl_get_my_vector_info ::
  "user_env \<Rightarrow> allocator \<Rightarrow> cint \<Rightarrow> addr \<Rightarrow> 'a ioctl_state_scheme user_proc \<Rightarrow> (cint \<times> 'a ioctl_state_scheme user_proc) cres" where
  "clone_ioctl_get_my_vector_info = reporting_ioctl ''ioctl_get_my_vector_info failed:'' ''ERROR'' IOCTL_SHOW_MINE"

definition clone_ioctl_get_all_vectors_info ::
  "user_env \<Rightarrow> allocator \<Rightarrow> cint \<Rightarrow> addr \<Rightarrow> 'a ioctl_state_scheme user_proc \<Rightarrow> (cint \<times> 'a ioctl_state_scheme user_proc) cres" where
  "clone_ioctl_get_all_vectors_info = reporting_ioctl ''ioctl_get_all_vectors_info failed:'' ''ERROR'' IOCTL_SHOW_ALL"

text \<open>Its \<open>display_vectors\<close> prints no rules and knows six of the overrides.\<close>

definition clone_override_lines :: "uint \<Rightarrow> string list" where
  "clone_override_lines bm =
     (if bm AND READ_OVERRIDE \<noteq> 0 then [''The vector overrides READ'' @ [NL]] else [])
   @ (if bm AND WRITE_OVERRIDE \<noteq> 0 then [''The vector overrides WRITE'' @ [NL]] else [])
   @ (if bm AND OPEN_OVERRIDE \<noteq> 0 then [''The vector overrides OPEN'' @ [NL]] else [])
   @ (if bm AND CLOSE_OVERRIDE \<noteq> 0 then [''The vector overrides CLOSE'' @ [NL]] else [])
   @ (if bm AND LINK_OVERRIDE \<noteq> 0 then [''The vector overrides LINK'' @ [NL]] else [])
   @ (if bm AND UNLINK_OVERRIDE \<noteq> 0 then [''The vector overrides UNLINK'' @ [NL]] else [])"

definition clone_display_token :: "nat \<Rightarrow> string \<Rightarrow> string list" where
  "clone_display_token i token =
     (if i mod 3 = 0 then
        let bitmap = word_of_int (strtol10 token) :: uint
        in (''bit_no: '' @ sprintf_d bitmap @ [NL]) # clone_override_lines bitmap
      else if i mod 3 = 1 then [''The vector name is : '' @ token @ [NL]]
      else [''The vector id is : '' @ token @ [NL]])"

definition clone_display_vectors :: "char list \<Rightarrow> string list" where
  "clone_display_vectors buf = display_loop clone_display_token 1 (strtok_nl [] (c_string buf))"

definition SIGCHLD :: ulong where "SIGCHLD = 17"

text \<open>
  The child after the call: it has a copy of the parent's memory and an output of its own (a terminal's,
  written line by line, so that nothing of the parent's is printed twice), and the parent waits for
  its end. Its \<open>error\<close> is 0.
\<close>

definition clone_child ::
  "user_env \<Rightarrow> allocator \<Rightarrow> cint \<Rightarrow> addr \<Rightarrow> 'a ioctl_state_scheme user_proc \<Rightarrow> (cint \<times> 'a ioctl_state_scheme user_proc) cres" where
  "clone_child e km file_desc name_buf pr =
     (let pr = say (''child process'' @ [NL]) pr in
      bindE (umemset0 name_buf 256 pr) (\<lambda>pr.
      bindE (clone_ioctl_get_my_vector_info e km file_desc name_buf pr) (\<lambda>(_, pr).
      bindE (display_buffer clone_display_vectors name_buf pr) (\<lambda>pr.
      bindE (ufree name_buf pr) (\<lambda>pr. Inr (0, pr))))))"

text \<open>
  \<open>syscall(329, SIGCHLD, 0, NULL, 0, NULL, 23)\<close> enters the kernel by a stub that is not in the
  sources: \<open>call329\<close>. The result of \<open>main\<close>, the parent, and what the child printed.
\<close>

type_synonym 'k clone_call = "ulong \<Rightarrow> addr \<Rightarrow> addr \<Rightarrow> ulong \<Rightarrow> addr \<Rightarrow> ulong \<Rightarrow> 'k \<Rightarrow> (ulong \<times> 'k) cres"

definition clone_fork ::
  "user_env \<Rightarrow> allocator \<Rightarrow> 'a ioctl_state_scheme clone_call \<Rightarrow> cint \<Rightarrow> addr \<Rightarrow> 'a ioctl_state_scheme user_proc
   \<Rightarrow> (cint \<times> 'a ioctl_state_scheme user_proc \<times> string list) cres" where
  "clone_fork e km call329 file_desc name_buf pr =
     bindE (call329 SIGCHLD 0 0 0 0 23 (kern pr)) (\<lambda>(pid, s).
     let pr = pr\<lparr>kern := s\<rparr> in
     if is_err pid then Inr (- 1, pr\<lparr>errno := - ucast pid\<rparr>, [])
     else
       let child = pr\<lparr>kern := s\<lparr>current := ucast pid\<rparr>, outs := [], errs := []\<rparr> in
       bindE (clone_child e km file_desc name_buf child) (\<lambda>(_, child).
       let pr = pr\<lparr>kern := (kern child)\<lparr>current := current s\<rparr>\<rparr> in
       Inr (0, say (''pid is: '' @ sprintf_lu pid @ [NL]) pr, outs child)))"

text \<open>What \<open>main\<close> does with the open device; \<open>error\<close> is set by a failed \<open>clone2\<close> only.\<close>

definition clone_session ::
  "user_env \<Rightarrow> allocator \<Rightarrow> 'a ioctl_state_scheme clone_call \<Rightarrow> cint \<Rightarrow> addr \<Rightarrow> 'a ioctl_state_scheme user_proc
   \<Rightarrow> (cint \<times> 'a ioctl_state_scheme user_proc \<times> string list) cres" where
  "clone_session e km call329 file_desc name_buf pr =
     bindE (umemset0 name_buf 256 pr) (\<lambda>pr.
     bindE (umemcpy name_buf ''Vector968'' pr) (\<lambda>pr.
     let pr = say (''calling ioctl to set vector'' @ [NL]) pr in
     bindE (clone_ioctl_set_vector e km file_desc name_buf pr) (\<lambda>(ret, pr).
     if sint ret < 0 then Inr (0, pr, [])
     else
       let pr = say (''process has new vector now'' @ [NL]) pr in
       bindE (umemset0 name_buf 256 pr) (\<lambda>pr.
       let pr = say (''calling ioctl to get my vector name '' @ [NL]) pr in
       bindE (clone_ioctl_get_all_vectors_info e km file_desc name_buf pr) (\<lambda>(ret, pr).
       if sint ret < 0 then Inr (0, say (''ioctl to get my vector failed'' @ [NL]) pr, [])
       else
         bindE (display_buffer clone_display_vectors name_buf pr) (\<lambda>pr.
         clone_fork e km call329 file_desc name_buf pr))))))"

text \<open>The \<open>printf\<close> after a failed \<open>open\<close> is given \<open>file_name\<close>, which was never set.\<close>

definition clone_main ::
  "user_env \<Rightarrow> allocator \<Rightarrow> 'a ioctl_state_scheme clone_call \<Rightarrow> addr \<Rightarrow> 'a ioctl_state_scheme user_proc
   \<Rightarrow> (cint \<times> 'a ioctl_state_scheme user_proc \<times> string list) cres" where
  "clone_main e km call329 file_name pr =
     (let (name_buf, pr) = umalloc e 256 pr;
          (bit_no, pr) = umalloc e 256 pr in
      bindE (umemset0 bit_no 256 pr) (\<lambda>pr.
      let file_desc = open_path e device_path in
      bindE
        (if sint file_desc < 0 then
           bindE (bytes_at file_name (umem pr)) (\<lambda>b.
           if terminated b then Inr (0, say (''Can't open file: '' @ c_string b @ [NL]) pr, []) else Inl Unterminated)
         else clone_session e km call329 file_desc name_buf pr)
        (\<lambda>(error, pr, child_outs).
      bindE (ufree name_buf pr) (\<lambda>pr.
      Inr (error, pr, child_outs)))))"

section \<open>The run of \<open>user_ioctl1.c\<close>\<close>

lemma device_path_facts: "NUL \<notin> set device_path" "length device_path = 17"
  by (simp_all add: device_path_def)

lemma ioctl1_main_run:
  assumes km: "allocator_ok km" "roomy b km" and ready: "ioctl_ready (kern pr)" and room: "card (dom (heap (kern pr))) + 2 \<le> b"
    and fit: "texts_fit (kern pr)" "one_line_names (vec_list (kern pr))"
    and mem: "malloc_ok e" "malloc_roomy c e" "card (dom (umem pr)) + 2 \<le> c"
  shows "\<exists>s'. ioctl1_main e km pr = Inr (0, pr\<lparr>kern := s', outs := outs pr @ (''pid : '' @ sprintf_d (own_pid e) @ [NL]) #
      (if sint (open_path e device_path) < 0 then [''Can't open file: '' @ device_path @ [NL]]
       else (''calling ioctl to get all vector names '' @ [NL]) # all_shown (kern pr))\<rparr>)
    \<and> heap s' = heap (kern pr) \<and> vec_list s' = vec_list (kern pr) \<and> vector_info s' = vector_info (kern pr)"
proof -
  let ?m = "umem pr" and ?fd = "open_path e device_path"
  let ?p1 = "say (''pid : '' @ sprintf_d (own_pid e) @ [NL]) pr"
  obtain f where f: "f = malloc e (length device_path + 1) ?m" by simp
  have "card (dom ?m) < c" using mem(3) by simp
  note zf = zeroed_malloc [OF mem(1,2) this f]
  let ?mf = "?m(f \<mapsto> Bytes (device_path @ [NUL]))"
  let ?p3 = "?p1\<lparr>umem := ?mf\<rparr>"
  have "drop (length device_path) (replicate (length device_path + 1) NUL) = [NUL]"
    by (simp add: drop_replicate del: replicate_Suc) simp
  then have copy: "umemcpy f device_path (q\<lparr>umem := ?m(f \<mapsto> Bytes (replicate (length device_path + 1) NUL))\<rparr>) =
      Inr (q\<lparr>umem := ?mf\<rparr>)" for q :: "'a ioctl_state_scheme user_proc"
    using zf(1) by (subst umemcpy_bytes [where b = "replicate (length device_path + 1) NUL"]) (simp_all del: replicate_Suc)
  obtain v where v: "v = malloc e MAX_VECTOR_NAME_LEN ?mf" by simp
  have "card (dom ?mf) < c" using zf(3) mem(3) by simp
  note zv = zeroed_malloc [OF mem(1,2) this v]
  have fv: "?m v = None" "f \<noteq> v" using zv(2) by (auto split: if_splits)
  let ?p4 = "?p3\<lparr>umem := ?mf(v \<mapsto> Bytes (replicate MAX_VECTOR_NAME_LEN NUL))\<rparr>"
  have name: "bytes_at f (umem ?p4) = Inr (device_path @ [NUL])" "c_string (device_path @ [NUL]) = device_path"
    using zf(1) fv by (simp_all add: bytes_at_def c_string_append_terminated device_path_facts)
  have free: "bindE (ufree f q) (\<lambda>q. bindE (ufree v q) (\<lambda>q. Inr (r, q))) = Inr (r, q\<lparr>umem := ?m\<rparr>)"
    if "umem q = ?mf(v \<mapsto> y)" for q y and r :: cint
    by (rule ufree_two [OF zf(2) fv(1,2) zf(1) zv(1) that])
  have "umalloc e (length device_path + 1) ?p1 =
      (f, ?p1\<lparr>umem := ?m(f \<mapsto> Bytes (fresh_bytes e (length device_path + 1)))\<rparr>)" by (rule zf(4)) simp
  moreover have "umalloc e MAX_VECTOR_NAME_LEN ?p3 = (v, ?p3\<lparr>umem := ?mf(v \<mapsto> Bytes (fresh_bytes e MAX_VECTOR_NAME_LEN))\<rparr>)"
    by (rule zv(4)) simp
  ultimately have start: "ioctl1_main e km pr = bindE
        (if sint ?fd < 0 then
           Inr (0, say (''Can't open file: '' @ device_path @ [NL]) ?p4)
         else
           let pr = say (''calling ioctl to get all vector names '' @ [NL]) ?p4 in
           bindE (ioctl_get_all_vectors_info e km ?fd v pr) (\<lambda>(ret, pr).
           if sint ret < 0 then Inr (ret, say (''ioctl to get my vector failed'' @ [NL]) pr)
           else bindE (display_buffer display_vectors v pr) (\<lambda>pr. Inr (ret, pr))))
        (\<lambda>(ret, pr). bindE (ufree f pr) (\<lambda>pr. bindE (ufree v pr) (\<lambda>pr. Inr (ret, pr))))"
    unfolding ioctl1_main_def Let_def by (simp only: case_prod_conv zf(5) zv(5) copy bindE_Inr name)
  show ?thesis
  proof (cases "sint ?fd < 0")
    case True
    then have "ioctl1_main e km pr = Inr (0, (say (''Can't open file: '' @ device_path @ [NL]) ?p4)\<lparr>umem := ?m\<rparr>)"
      unfolding start by (simp add: free del: fun_upd_apply)
    then show ?thesis using True by (intro exI [of _ "kern pr"]) (simp add: say_def)
  next
    case False
    let ?p5 = "say (''calling ioctl to get all vector names '' @ [NL]) ?p4"
    have "can_ask km b ?fd v ?p5"
      using km ready room fit(1) False zv(1) by (simp add: can_ask_def can_call_def MAX_VECTOR_NAME_LEN_def BUF_LEN_def)
    from asks_for_all [OF this] obtain n where n: "user_ioctl km ?fd IOCTL_SHOW_ALL v ?p5 = Inr (0,
        ?p5\<lparr>kern := answered n v (padded (all_text (kern pr))) ((kern pr)\<lparr>user_out := Map.empty\<rparr>),
           umem := ?mf(v \<mapsto> Bytes (padded (all_text (kern pr))))\<rparr>)"
      by (simp add: fun_upd_upd) metis
    let ?s = "answered n v (padded (all_text (kern pr))) ((kern pr)\<lparr>user_out := Map.empty\<rparr>)"
    let ?p6 = "?p5\<lparr>kern := ?s, umem := ?mf(v \<mapsto> Bytes (padded (all_text (kern pr))))\<rparr>"
    have at_v: "bytes_at v (umem ?p6) = Inr (padded (all_text (kern pr)))" using zv(1) by (simp add: bytes_at_def)
    let ?p7 = "?p6\<lparr>outs := outs ?p6 @ all_shown (kern pr), umem := ?mf(v \<mapsto> Bytes (strtok_cut False (padded (all_text (kern pr)))))\<rparr>"
    have shown: "display_buffer display_vectors v ?p6 = Inr ?p7"
      using at_v
      by (simp add: display_buffer_def display_all [OF fit] padded_terminated all_text_fits [OF fit(1)])
    have freed: "bindE (ufree f ?p7) (\<lambda>q. bindE (ufree v q) (\<lambda>q. Inr (0 :: cint, q))) = Inr (0, ?p7\<lparr>umem := ?m\<rparr>)"
      by (rule free) simp
    have signs: "(sint ?fd < 0) = False" "(sint (0 :: cint) < 0) = False" using False by simp_all
    have "ioctl1_main e km pr = Inr (0, ?p7\<lparr>umem := ?m\<rparr>)"
      unfolding start ioctl_get_all_vectors_info_def reporting_ioctl_def Let_def
      by (simp only: signs if_False n bindE_Inr case_prod_conv shown freed)
    then show ?thesis using False by (intro exI [of _ ?s]) (simp add: say_def)
  qed
qed

section \<open>The run of \<open>user_clone.c\<close>\<close>

definition clone_shown :: "struct_vector \<Rightarrow> string list" where
  "clone_shown v =
     [''The vector name is : '' @ c_string (vector_name v) @ [NL],
      ''The vector id is : '' @ sprintf_lu (vector_id v) @ [NL],
      ''bit_no: '' @ sprintf_d (overfuncs_bitmap v) @ [NL]] @ clone_override_lines (overfuncs_bitmap v)"

lemma clone_display_token_mod: "clone_display_token i t = clone_display_token (i mod 3) t"
  by (simp add: clone_display_token_def)

lemma clone_display_registry:
  assumes "one_line_names vs" and "c_string buf = registry_text vs"
  shows "clone_display_vectors buf = concat (map clone_shown vs)"
proof -
  have "clone_display_token 1 (c_string (vector_name v)) @ clone_display_token 2 (sprintf_lu (vector_id v))
      @ clone_display_token 0 (sprintf_d (overfuncs_bitmap v)) = clone_shown v" for v
    by (simp add: clone_display_token_def clone_shown_def strtol10_sprintf_d Let_def)
  then show ?thesis
    unfolding clone_display_vectors_def assms(2) strtok_text [OF assms(1)]
    by (subst display_triples [where show_token = clone_display_token, OF clone_display_token_mod]) simp_all
qed

lemma clone_display_unassigned:
  "clone_display_vectors (padded ''vector not assigned'') = [''The vector name is : vector not assigned'' @ [NL]]"
proof -
  have "c_string (padded ''vector not assigned'') = ''vector not assigned''"
    by (rule padded_string) (simp_all add: BUF_LEN_def)
  then show ?thesis by (simp add: clone_display_vectors_def clone_display_token_def)
qed

text \<open>Counting references changes neither the texts nor what is shown of a vector.\<close>

lemma recounted:
  fixes s s' :: "'a registry_scheme"
  assumes "vec_list s' = vec_list (add_refcount i d s)"
  shows "texts_fit s' = texts_fit s" and "one_line_names (vec_list s') = one_line_names (vec_list s)"
    and "map clone_shown (vec_list s') = map clone_shown (vec_list s)"
    and "bitmap_index bm s' = bitmap_index bm s" and "(vec_list s' = []) = (vec_list s = [])"
proof -
  note same = add_refcount_same [of _ i d s]
  have "map vector_text (vec_list s') = map vector_text (vec_list s)"
    unfolding assms by (rule same) (simp add: vector_text_def)
  then have "registry_text (vec_list s') = registry_text (vec_list s)" by (simp add: registry_text_def)
  moreover have "map printable (vec_list s') = map printable (vec_list s)"
    unfolding assms by (rule same) (simp add: printable_def)
  then have "printable ` set (vec_list s') = printable ` set (vec_list s)" by (metis list.set_map)
  then have "(\<forall>v \<in> set (vec_list s'). printable v) = (\<forall>v \<in> set (vec_list s). printable v)"
    by (metis (full_types) image_iff)
  ultimately show "texts_fit s' = texts_fit s" by (simp add: texts_fit_def)
  have "map vector_name (vec_list s') = map vector_name (vec_list s)"
    unfolding assms by (rule same) simp
  then have "vector_name ` set (vec_list s') = vector_name ` set (vec_list s)" by (metis list.set_map)
  moreover have "one_line_names vs = (\<forall>n \<in> vector_name ` set vs. c_string n \<noteq> [] \<and> NL \<notin> set (c_string n))" for vs
    by (simp add: one_line_names_def)
  ultimately show "one_line_names (vec_list s') = one_line_names (vec_list s)" by (simp only:)
  show "map clone_shown (vec_list s') = map clone_shown (vec_list s)"
    unfolding assms by (rule same) (simp add: clone_shown_def)
  have "map overfuncs_bitmap (vec_list s') = map overfuncs_bitmap (vec_list s)"
    unfolding assms by (rule same) simp
  moreover have "bitmap_index bm t = first_index (\<lambda>x. x = bm) (map overfuncs_bitmap (vec_list t))"
    for t :: "'a registry_scheme"
    by (simp add: bitmap_index_def first_index_map comp_def)
  ultimately show "bitmap_index bm s' = bitmap_index bm s" by (simp only:)
  show "(vec_list s' = []) = (vec_list s = [])" unfolding assms by (simp add: add_refcount_def)
qed

lemma pid_casts:
  assumes "0 < sint (child :: pid)"
  shows "ucast (scast child :: ulong) = child" and "\<not> is_err (scast child)"
  using assms by (simp_all add: ucast_scast_int nonneg_no_err)

text \<open>The child, which runs under no vector, says so.\<close>

lemma clone_child_run:
  assumes ask: "can_ask km b fd v pr" and none: "current_vector (kern pr) = 0"
  shows "\<exists>n pr'. clone_child e km fd v pr = Inr (0, pr')
    \<and> outs pr' = outs pr @ [''child process'' @ [NL], ''The vector name is : vector not assigned'' @ [NL]]
    \<and> kern pr' = answered n v (padded ''vector not assigned'') ((kern pr)\<lparr>user_out := Map.empty\<rparr>)"
proof -
  from ask obtain old where old: "umem pr v = Some (Bytes old)" "v \<noteq> 0" "length old = 256"
    by (auto simp: can_ask_def can_call_def BUF_LEN_def)
  let ?t = "''vector not assigned''"
  let ?p1 = "say (''child process'' @ [NL]) pr"
  let ?p2 = "?p1\<lparr>umem := (umem pr)(v \<mapsto> Bytes (replicate 256 NUL))\<rparr>"
  have set: "umemset0 v 256 ?p1 = Inr ?p2" using old by (subst umemset0_bytes) simp_all
  have "can_ask km b fd v ?p2" using ask by (simp add: can_ask_def can_call_def BUF_LEN_def)
  then obtain n where n: "user_ioctl km fd IOCTL_SHOW_MINE v ?p2 = Inr (0,
      ?p2\<lparr>kern := answered n v (padded (my_text (current_vector (kern ?p2)) (kern ?p2))) ((kern ?p2)\<lparr>user_out := Map.empty\<rparr>),
         umem := (umem ?p2)(v \<mapsto> Bytes (padded (my_text (current_vector (kern ?p2)) (kern ?p2))))\<rparr>)"
    by (rule asks_for_mine)
  have t: "my_text (current_vector (kern ?p2)) (kern ?p2) = ?t" using none by (simp add: my_text_def)
  let ?k = "answered n v (padded ?t) ((kern pr)\<lparr>user_out := Map.empty\<rparr>)"
  let ?p3 = "?p2\<lparr>kern := ?k, umem := (umem ?p2)(v \<mapsto> Bytes (padded ?t))\<rparr>"
  have n': "user_ioctl km fd IOCTL_SHOW_MINE v ?p2 = Inr (0, ?p3)" using n unfolding t by simp
  let ?p4 = "?p3\<lparr>outs := outs ?p3 @ [''The vector name is : vector not assigned'' @ [NL]],
    umem := (umem ?p3)(v \<mapsto> Bytes (strtok_cut False (padded ?t)))\<rparr>"
  have shown: "display_buffer clone_display_vectors v ?p3 = Inr ?p4"
    unfolding display_buffer_def using old(2)
    by (simp add: bytes_at_def clone_display_unassigned padded_terminated BUF_LEN_def)
  have free: "ufree v ?p4 = Inr (?p4\<lparr>umem := (umem ?p4)(v := None)\<rparr>)" using old(2) by (simp add: ufree_def)
  have sign: "(sint (0 :: cint) < 0) = False" by simp
  have "clone_child e km fd v pr = Inr (0, ?p4\<lparr>umem := (umem ?p4)(v := None)\<rparr>)"
    unfolding clone_child_def Let_def clone_ioctl_get_my_vector_info_def reporting_ioctl_def
    by (simp only: set n' sign if_False bindE_Inr case_prod_conv shown free)
  then show ?thesis by (intro exI [of _ n] exI [of _ "?p4\<lparr>umem := (umem ?p4)(v := None)\<rparr>"]) simp
qed

text \<open>
  The call by id on the kernel of \<open>fork.cpy\<close>: a vector of that bitmap gets a reference, the child
  gets none of them.
\<close>

lemma clone_by_id_child:
  assumes "reg_ok s"
  shows "sys_clone2 (fork_child child) SIGCHLD 0 0 0 0 vid s = Inr (scast child,
    (case bitmap_index (ucast vid) s of None \<Rightarrow> s | Some j \<Rightarrow> take_ref j s)
      \<lparr>vector_info := (vector_info s)(child \<mapsto> 0)\<rparr>)"
proof -
  have "SIGCHLD AND CLONE_SYSCALLS = 0" by (simp add: SIGCHLD_def CLONE_SYSCALLS_def)
  with assms show ?thesis
    by (simp add: sys_clone2_by_id fork_child_def copy_vector_info_def Let_def split: option.split)
qed

lemma clone_fork_run:
  fixes pr :: "'a clone_state_scheme user_proc"
  assumes ask: "can_ask km b fd v pr" and child: "0 < sint child" "child \<noteq> current (kern pr)"
  shows "\<exists>pr'. clone_fork e km (sys_clone2 (fork_child child)) fd v pr = Inr (0, pr',
      [''child process'' @ [NL], ''The vector name is : vector not assigned'' @ [NL]])
    \<and> outs pr' = outs pr @ [''pid is: '' @ sprintf_lu (scast child) @ [NL]] \<and> umem pr' = umem pr
    \<and> heap (kern pr') = heap (kern pr) \<and> current (kern pr') = current (kern pr)
    \<and> vector_info (kern pr') = (vector_info (kern pr))(child \<mapsto> 0)
    \<and> vec_list (kern pr') = (case bitmap_index 23 (kern pr) of None \<Rightarrow> vec_list (kern pr)
        | Some j \<Rightarrow> vec_list (add_refcount j 1 (kern pr)))"
proof -
  let ?s = "kern pr"
  have ok: "reg_ok ?s" using ask by (simp add: can_ask_def can_call_def ioctl_ready_def reg_inv_ok)
  let ?s2 = "case bitmap_index 23 ?s of None \<Rightarrow> ?s | Some j \<Rightarrow> take_ref j ?s"
  let ?s3 = "?s2\<lparr>vector_info := (vector_info ?s)(child \<mapsto> 0)\<rparr>"
  have call: "sys_clone2 (fork_child child) SIGCHLD 0 0 0 0 23 ?s = Inr (scast child, ?s3)"
    using clone_by_id_child [OF ok, of child 23] by simp
  have s2: "heap ?s2 = heap ?s" "current ?s2 = current ?s" "mutexlock ?s2 = mutexlock ?s"
    "dyn_listHead ?s2 = dyn_listHead ?s" "dyn_i ?s2 = dyn_i ?s" "list_heads ?s2 = list_heads ?s"
    "vec_list ?s2 = (case bitmap_index 23 ?s of None \<Rightarrow> vec_list ?s | Some j \<Rightarrow> vec_list (add_refcount j 1 ?s))"
    by (auto simp: ref_defs split: option.split)
  have inv: "reg_inv ?s2"
    using ask reg_inv_ref(1) by (auto simp: can_ask_def can_call_def ioctl_ready_def split: option.split)
  have fit: "texts_fit ?s2"
    using ask recounted(1) [of ?s2 _ 1 ?s] by (auto simp: can_ask_def can_call_def split: option.split)
  let ?c = "pr\<lparr>kern := ?s3\<lparr>current := child\<rparr>, outs := [], errs := []\<rparr>"
  have "reg_inv (?s3\<lparr>current := child\<rparr>)" using inv by (simp add: reg_inv_def reg_ok_def)
  moreover have "texts_fit (?s3\<lparr>current := child\<rparr>)" using fit by (simp add: texts_fit_def)
  ultimately have "can_ask km b fd v ?c"
    using ask s2 by (simp add: can_ask_def can_call_def ioctl_ready_def)
  moreover have "current_vector (kern ?c) = 0" by (simp add: current_vector_def)
  ultimately obtain n c' where c': "clone_child e km fd v ?c = Inr (0, c')"
    "outs c' = [''child process'' @ [NL], ''The vector name is : vector not assigned'' @ [NL]]"
    "kern c' = answered n v (padded ''vector not assigned'') (?s3\<lparr>current := child, user_out := Map.empty\<rparr>)"
    using clone_child_run [of km b fd v ?c e] by auto
  let ?r = "say (''pid is: '' @ sprintf_lu (scast child) @ [NL])
      (pr\<lparr>kern := (kern c')\<lparr>current := current ?s3\<rparr>\<rparr>)"
  have "clone_fork e km (sys_clone2 (fork_child child)) fd v pr = Inr (0, ?r, outs c')"
    unfolding clone_fork_def call bindE_Inr case_prod_conv Let_def pid_casts(1) [OF child(1)]
    using pid_casts(2) [OF child(1)] c'(1) by simp
  then show ?thesis
    using s2 c'(2,3) by (intro exI [of _ ?r]) (simp add: say_def split: option.split)
qed

text \<open>The blocks of \<open>main\<close>: \<open>name_buf\<close>, and \<open>bit_no\<close>, which is never used and never freed.\<close>

lemma clone_main_start:
  assumes mem: "malloc_ok e" "malloc_roomy c e" "card (dom (umem pr)) + 2 \<le> c"
  shows "\<exists>v bn. v \<noteq> 0 \<and> bn \<noteq> v \<and> umem pr v = None \<and> umem pr bn = None
    \<and> umalloc e 256 pr = (v, pr\<lparr>umem := (umem pr)(v \<mapsto> Bytes (fresh_bytes e 256))\<rparr>)
    \<and> umalloc e 256 (pr\<lparr>umem := (umem pr)(v \<mapsto> Bytes (fresh_bytes e 256))\<rparr>) =
        (bn, pr\<lparr>umem := (umem pr)(v \<mapsto> Bytes (fresh_bytes e 256), bn \<mapsto> Bytes (fresh_bytes e 256))\<rparr>)
    \<and> umemset0 bn 256 (pr\<lparr>umem := (umem pr)(v \<mapsto> Bytes (fresh_bytes e 256), bn \<mapsto> Bytes (fresh_bytes e 256))\<rparr>) =
        Inr (pr\<lparr>umem := (umem pr)(v \<mapsto> Bytes (fresh_bytes e 256), bn \<mapsto> Bytes (replicate 256 NUL))\<rparr>)
    \<and> length (fresh_bytes e 256) = 256"
proof -
  let ?m = "umem pr"
  obtain v where v: "v = malloc e 256 ?m" by simp
  have "card (dom ?m) < c" using mem(3) by simp
  note zv = zeroed_malloc [OF mem(1,2) this v]
  let ?mv = "?m(v \<mapsto> Bytes (fresh_bytes e 256))"
  obtain bn where bn: "bn = malloc e 256 ?mv" by simp
  have "card (dom ?mv) < c" using zv(3) mem(3) by simp
  note zb = zeroed_malloc [OF mem(1,2) this bn]
  have "umalloc e 256 (pr\<lparr>umem := ?mv\<rparr>) = (bn, pr\<lparr>umem := ?mv\<rparr>\<lparr>umem := ?mv(bn \<mapsto> Bytes (fresh_bytes e 256))\<rparr>)"
    by (rule zb(4)) simp
  moreover have "bn \<noteq> v" "?m bn = None" using zb(2) by (auto split: if_splits)
  ultimately show ?thesis
    using zv(1,2) zv(4) [OF refl] zb(5) [of pr] mem(1) unfolding malloc_ok_def
    by (intro exI [of _ v] exI [of _ bn]) simp
qed

lemma clone_session_run:
  fixes pr :: "'a clone_state_scheme user_proc"
  assumes ask: "can_ask km b fd v pr" and plain: "plain_names (kern pr)"
    and i: "name_index ''Vector968'' (kern pr) = Some i" "overriddenSyscalls_address (vec_list (kern pr) ! i) = a" "a \<noteq> 0"
    and child: "0 < sint child" "child \<noteq> current (kern pr)"
  shows "\<exists>pr' x. clone_session e km (sys_clone2 (fork_child child)) fd v pr = Inr (0, pr',
      [''child process'' @ [NL], ''The vector name is : vector not assigned'' @ [NL]])
    \<and> outs pr' = outs pr @ [''calling ioctl to set vector'' @ [NL], ''process has new vector now'' @ [NL],
        ''calling ioctl to get my vector name '' @ [NL]] @ concat (map clone_shown (vec_list (kern pr)))
        @ [''pid is: '' @ sprintf_lu (scast child) @ [NL]]
    \<and> umem pr' = (umem pr)(v \<mapsto> x) \<and> heap (kern pr') = heap (kern pr)
    \<and> vector_info (kern pr') = (vector_info (kern pr))(current (kern pr) \<mapsto> a, child \<mapsto> 0)
    \<and> vec_list (kern pr') = vec_list (case bitmap_index 23 (kern pr) of None \<Rightarrow> add_refcount i 1 (kern pr)
        | Some j \<Rightarrow> add_refcount j 1 (add_refcount i 1 (kern pr)))"
proof -
  let ?m = "umem pr" and ?s = "kern pr" and ?q = "''Vector968''"
  from ask obtain old where old: "?m v = Some (Bytes old)" "v \<noteq> 0" "length old = 256"
    by (auto simp: can_ask_def can_call_def BUF_LEN_def)
  have zero: "umemset0 v 256 pr = Inr (pr\<lparr>umem := ?m(v \<mapsto> Bytes (replicate 256 NUL))\<rparr>)"
    using old by (subst umemset0_bytes) simp_all
  have name: "umemcpy v ?q (pr\<lparr>umem := ?m(v \<mapsto> Bytes (replicate 256 NUL))\<rparr>) =
      Inr (pr\<lparr>umem := ?m(v \<mapsto> Bytes (?q @ replicate 247 NUL))\<rparr>)"
    using old(2) by (subst umemcpy_bytes [where b = "replicate 256 NUL"])
      (simp_all add: drop_replicate del: append_Cons append_Nil)
  have "replicate 247 NUL = NUL # replicate 246 NUL" by (simp flip: replicate_Suc)
  then have str: "c_string (?q @ replicate 247 NUL) = ?q" "terminated (?q @ replicate 247 NUL)"
    by (simp_all add: terminated_def)
  let ?q1 = "say (''calling ioctl to set vector'' @ [NL]) (pr\<lparr>umem := ?m(v \<mapsto> Bytes (?q @ replicate 247 NUL))\<rparr>)"
  have "can_call km b fd (kern ?q1)" using ask by (simp add: can_ask_def)
  from asks_to_set [OF this _ _ str(2,1), where buf = v and i = i and a = a] plain i obtain s1 where
    set: "user_ioctl km fd IOCTL_SET v ?q1 = Inr (0, ?q1\<lparr>kern := s1\<rparr>)" and
    s1: "ioctl_ready s1" "heap s1 = heap ?s" "vec_list s1 = vec_list (add_refcount i 1 ?s)"
      "vector_info s1 = (vector_info ?s)(current ?s \<mapsto> a)" "current s1 = current ?s" by auto
  have "one_line_names (vec_list ?s)" "vec_list ?s \<noteq> []" "texts_fit ?s"
    using plain index_bounds(1) [OF i(1)] ask by (auto simp: plain_names_def one_line_names_def can_ask_def can_call_def)
  then have l1: "texts_fit s1" "map clone_shown (vec_list s1) = map clone_shown (vec_list ?s)"
      "one_line_names (vec_list s1)" "bitmap_index 23 s1 = bitmap_index 23 ?s" "vec_list s1 \<noteq> []"
    using recounted [of s1 i 1 ?s, OF s1(3)] by simp_all
  let ?q2 = "say (''process has new vector now'' @ [NL]) (?q1\<lparr>kern := s1\<rparr>)"
  let ?q3 = "say (''calling ioctl to get my vector name '' @ [NL]) (?q2\<lparr>umem := ?m(v \<mapsto> Bytes (replicate 256 NUL))\<rparr>)"
  have again: "umemset0 v 256 ?q2 = Inr (?q2\<lparr>umem := ?m(v \<mapsto> Bytes (replicate 256 NUL))\<rparr>)"
    using old(2) by (subst umemset0_bytes [where b = "?q @ replicate 247 NUL"]) simp_all
  have "can_ask km b fd v ?q3" using ask s1(1,2) l1(1) by (simp add: can_ask_def can_call_def BUF_LEN_def)
  then obtain n where "user_ioctl km fd IOCTL_SHOW_ALL v ?q3 = Inr (0,
      ?q3\<lparr>kern := answered n v (padded (all_text (kern ?q3))) ((kern ?q3)\<lparr>user_out := Map.empty\<rparr>),
         umem := (umem ?q3)(v \<mapsto> Bytes (padded (all_text (kern ?q3))))\<rparr>)" by (rule asks_for_all)
  then have all: "user_ioctl km fd IOCTL_SHOW_ALL v ?q3 = Inr (0,
      ?q3\<lparr>kern := answered n v (padded (all_text s1)) (s1\<lparr>user_out := Map.empty\<rparr>),
         umem := ?m(v \<mapsto> Bytes (padded (all_text s1)))\<rparr>)" by simp
  let ?q4 = "?q3\<lparr>kern := answered n v (padded (all_text s1)) (s1\<lparr>user_out := Map.empty\<rparr>),
         umem := ?m(v \<mapsto> Bytes (padded (all_text s1)))\<rparr>"
  let ?q5 = "?q4\<lparr>outs := outs ?q4 @ concat (map clone_shown (vec_list ?s)),
    umem := ?m(v \<mapsto> Bytes (strtok_cut False (padded (all_text s1))))\<rparr>"
  have "clone_display_vectors (padded (all_text s1)) = concat (map clone_shown (vec_list ?s))"
    using clone_display_registry [OF l1(3), of "padded (all_text s1)"] c_string_all [OF l1(1)] l1(2,5)
    by (simp add: all_text_def)
  then have shown: "display_buffer clone_display_vectors v ?q4 = Inr ?q5"
    unfolding display_buffer_def using old(2)
    by (simp add: bytes_at_def padded_terminated all_text_fits [OF l1(1)])
  have "can_ask km b fd v ?q5"
    using ask s1(1,2) l1(1) padded_length [OF all_text_fits [OF l1(1)]] by (simp add: can_ask_def can_call_def)
  moreover have "child \<noteq> current (kern ?q5)" using child(2) s1(5) by simp
  ultimately obtain q6 where q6: "clone_fork e km (sys_clone2 (fork_child child)) fd v ?q5 = Inr (0, q6,
      [''child process'' @ [NL], ''The vector name is : vector not assigned'' @ [NL]])"
    "outs q6 = outs ?q5 @ [''pid is: '' @ sprintf_lu (scast child) @ [NL]]" "umem q6 = umem ?q5"
    "heap (kern q6) = heap s1" "vector_info (kern q6) = (vector_info s1)(child \<mapsto> 0)"
    "vec_list (kern q6) = (case bitmap_index 23 s1 of None \<Rightarrow> vec_list s1 | Some j \<Rightarrow> vec_list (add_refcount j 1 s1))"
    using clone_fork_run [OF _ child(1), of km b fd v ?q5 e] by (auto cong: option.case_cong)
  have sign: "(sint (0 :: cint) < 0) = False" by simp
  have "clone_session e km (sys_clone2 (fork_child child)) fd v pr = Inr (0, q6,
      [''child process'' @ [NL], ''The vector name is : vector not assigned'' @ [NL]])"
    unfolding clone_session_def Let_def clone_ioctl_set_vector_def clone_ioctl_get_all_vectors_info_def reporting_ioctl_def
    by (simp only: zero name set again all shown sign if_False bindE_Inr case_prod_conv q6(1))
  moreover have "vec_list (add_refcount j 1 s1) = vec_list (add_refcount j 1 (add_refcount i 1 ?s))" for j
    by (simp add: add_refcount_def s1(3))
  ultimately show ?thesis
    using q6(2-6) s1 l1(4) by (intro exI [of _ q6]) (auto split: option.split)
qed

lemma clone_main_run:
  fixes pr :: "'a clone_state_scheme user_proc"
  assumes km: "allocator_ok km" "roomy b km" and ready: "ioctl_ready (kern pr)" and room: "card (dom (heap (kern pr))) + 2 \<le> b"
    and fit: "texts_fit (kern pr)" "plain_names (kern pr)"
    and mem: "malloc_ok e" "malloc_roomy c e" "card (dom (umem pr)) + 2 \<le> c"
    and fd: "0 \<le> sint (open_path e device_path)"
    and i: "name_index ''Vector968'' (kern pr) = Some i" "overriddenSyscalls_address (vec_list (kern pr) ! i) = a" "a \<noteq> 0"
    and child: "0 < sint child" "child \<noteq> current (kern pr)"
  shows "\<exists>pr' bn. clone_main e km (sys_clone2 (fork_child child)) file_name pr = Inr (0, pr',
      [''child process'' @ [NL], ''The vector name is : vector not assigned'' @ [NL]])
    \<and> outs pr' = outs pr @ [''calling ioctl to set vector'' @ [NL], ''process has new vector now'' @ [NL],
        ''calling ioctl to get my vector name '' @ [NL]] @ concat (map clone_shown (vec_list (kern pr)))
        @ [''pid is: '' @ sprintf_lu (scast child) @ [NL]]
    \<and> umem pr bn = None \<and> umem pr' = (umem pr)(bn \<mapsto> Bytes (replicate 256 NUL))
    \<and> heap (kern pr') = heap (kern pr)
    \<and> vector_info (kern pr') = (vector_info (kern pr))(current (kern pr) \<mapsto> a, child \<mapsto> 0)
    \<and> vec_list (kern pr') = vec_list (case bitmap_index 23 (kern pr) of None \<Rightarrow> add_refcount i 1 (kern pr)
        | Some j \<Rightarrow> add_refcount j 1 (add_refcount i 1 (kern pr)))"
proof -
  let ?m = "umem pr" and ?fd = "open_path e device_path" and ?s = "kern pr"
  from clone_main_start [OF mem] obtain v bn where
    v: "v \<noteq> 0" "bn \<noteq> v" "?m v = None" "?m bn = None" and len: "length (fresh_bytes e 256) = 256" and
    start: "umalloc e 256 pr = (v, pr\<lparr>umem := ?m(v \<mapsto> Bytes (fresh_bytes e 256))\<rparr>)"
      "umalloc e 256 (pr\<lparr>umem := ?m(v \<mapsto> Bytes (fresh_bytes e 256))\<rparr>) =
        (bn, pr\<lparr>umem := ?m(v \<mapsto> Bytes (fresh_bytes e 256), bn \<mapsto> Bytes (fresh_bytes e 256))\<rparr>)"
      "umemset0 bn 256 (pr\<lparr>umem := ?m(v \<mapsto> Bytes (fresh_bytes e 256), bn \<mapsto> Bytes (fresh_bytes e 256))\<rparr>) =
        Inr (pr\<lparr>umem := ?m(v \<mapsto> Bytes (fresh_bytes e 256), bn \<mapsto> Bytes (replicate 256 NUL))\<rparr>)"
    by blast
  let ?p = "pr\<lparr>umem := ?m(v \<mapsto> Bytes (fresh_bytes e 256), bn \<mapsto> Bytes (replicate 256 NUL))\<rparr>"
  have ask: "can_ask km b ?fd v ?p"
    using km ready room fit(1) fd v(1,2) len by (simp add: can_ask_def can_call_def BUF_LEN_def)
  have p: "kern ?p = ?s" "outs ?p = outs pr" "umem ?p = ?m(v \<mapsto> Bytes (fresh_bytes e 256), bn \<mapsto> Bytes (replicate 256 NUL))"
    by simp_all
  from clone_session_run [OF ask _ _ _ i(3) child(1), where i = i and e = e, unfolded p, OF fit(2) i(1,2) child(2)]
  obtain q x where
    q: "clone_session e km (sys_clone2 (fork_child child)) ?fd v ?p = Inr (0, q,
        [''child process'' @ [NL], ''The vector name is : vector not assigned'' @ [NL]])" and
    out: "outs q = outs pr @ [''calling ioctl to set vector'' @ [NL], ''process has new vector now'' @ [NL],
        ''calling ioctl to get my vector name '' @ [NL]] @ concat (map clone_shown (vec_list ?s))
        @ [''pid is: '' @ sprintf_lu (scast child) @ [NL]]"
      "umem q = ?m(v \<mapsto> Bytes (fresh_bytes e 256), bn \<mapsto> Bytes (replicate 256 NUL), v \<mapsto> x)"
      "heap (kern q) = heap ?s" "vector_info (kern q) = (vector_info ?s)(current ?s \<mapsto> a, child \<mapsto> 0)"
      "vec_list (kern q) = vec_list (case bitmap_index 23 ?s of None \<Rightarrow> add_refcount i 1 ?s
        | Some j \<Rightarrow> add_refcount j 1 (add_refcount i 1 ?s))"
    by blast
  have "(umem q)(v := None) = ?m(bn \<mapsto> Bytes (replicate 256 NUL))"
    unfolding out(2) using v(2,3) by (auto simp: fun_eq_iff)
  then have free: "ufree v q = Inr (q\<lparr>umem := ?m(bn \<mapsto> Bytes (replicate 256 NUL))\<rparr>)"
    using v(1) by (simp add: ufree_def out(2))
  have sign: "(sint ?fd < 0) = False" using fd by simp
  have "clone_main e km (sys_clone2 (fork_child child)) file_name pr =
      Inr (0, q\<lparr>umem := ?m(bn \<mapsto> Bytes (replicate 256 NUL))\<rparr>,
        [''child process'' @ [NL], ''The vector name is : vector not assigned'' @ [NL]])"
    unfolding clone_main_def Let_def
    by (simp only: start case_prod_conv bindE_Inr sign if_False q free)
  then show ?thesis using out v(4)
    by (intro exI [of _ "q\<lparr>umem := ?m(bn \<mapsto> Bytes (replicate 256 NUL))\<rparr>"] exI [of _ bn]) simp
qed

end
