(* ===== verification/Demo_Create.thy ===== *)
theory Demo_Create
  imports Demo_Programs
begin

text \<open>
  \<open>demo/user_ioctl2.c\<close> and \<open>demo/user_ioctl3.c\<close>: both store a bitmap through a pointer that was never
  set and ask the device for a vector of it. The pointer's value is an argument of \<open>main\<close>.
\<close>

section \<open>Definitions\<close>

text \<open>A store to a \<open>struct bitmap\<close>: to memory the process does not have it ends the process.\<close>

definition ustore_bitmap :: "addr \<Rightarrow> uint \<Rightarrow> 'k user_proc \<Rightarrow> 'k user_proc cres" where
  "ustore_bitmap p bm pr =
     (if p = 0 then Inl Null_deref
      else if umem pr p = None then Inl Bad_pointer
      else Inr (pr\<lparr>umem := (umem pr)(p \<mapsto> Bitmap bm)\<rparr>))"

definition ioctl2_create_vector ::
  "user_env \<Rightarrow> allocator \<Rightarrow> cint \<Rightarrow> addr \<Rightarrow> 'a ioctl_state_scheme user_proc \<Rightarrow> (cint \<times> 'a ioctl_state_scheme user_proc) cres" where
  "ioctl2_create_vector e km fd p pr =
     bindE (user_ioctl km fd IOCTL_CREATE_FROM_BITMAP p pr) (\<lambda>(err, pr).
     Inr (err,
       if sint err < 0 then perror e ''ERROR'' (say (''ioctl create vector from bitmap failed'' @ [NL]) pr)
       else say (''-----------------------------'' @ [NL]) (say (''Dynamic vector creation successful'' @ [NL]) pr)))"

definition ioctl2_main ::
  "user_env \<Rightarrow> allocator \<Rightarrow> addr \<Rightarrow> 'a ioctl_state_scheme user_proc \<Rightarrow> (cint \<times> 'a ioctl_state_scheme user_proc) cres" where
  "ioctl2_main e km bitmap pr =
     bindE (ustore_bitmap bitmap 51 pr) (\<lambda>pr.
     let fd = open_path e device_path in
     if sint fd < 0 then Inr (0, say (''file not opened'' @ [NL]) pr)
     else
       let pr = say (''Calling a dynamic vector creation with bitmap '' @ sprintf_d (51 :: uint) @ [NL]) pr in
       bindE (ioctl2_create_vector e km fd bitmap pr) (\<lambda>(_, pr). Inr (0, pr)))"

definition ioctl3_create_vector ::
  "user_env \<Rightarrow> allocator \<Rightarrow> cint \<Rightarrow> addr \<Rightarrow> 'a ioctl_state_scheme user_proc \<Rightarrow> (cint \<times> 'a ioctl_state_scheme user_proc) cres" where
  "ioctl3_create_vector e km fd p pr =
     bindE (user_ioctl km fd IOCTL_CREATE_FROM_BITMAP p pr) (\<lambda>(err, pr).
     Inr (err, say (''called ioctl successfullly'' @ [NL])
       (if sint err < 0 then perror e ''ERROR'' (say ''ioctl create vector from bitmap failed'' pr) else pr)))"

definition ioctl3_main ::
  "user_env \<Rightarrow> allocator \<Rightarrow> addr \<Rightarrow> 'a ioctl_state_scheme user_proc \<Rightarrow> (cint \<times> 'a ioctl_state_scheme user_proc) cres" where
  "ioctl3_main e km bitmap pr =
     bindE (ustore_bitmap bitmap 9 pr) (\<lambda>pr.
     let fd = open_path e device_path in
     if sint fd < 0 then Inr (0, say (''file not opened'' @ [NL]) pr)
     else bindE (ioctl3_create_vector e km fd bitmap pr) (\<lambda>(_, pr). Inr (0, pr)))"

section \<open>Lemmas\<close>

lemma ustore_bitmap_cases:
  "p = 0 \<Longrightarrow> ustore_bitmap p bm pr = Inl Null_deref"
  "p \<noteq> 0 \<Longrightarrow> umem pr p = None \<Longrightarrow> ustore_bitmap p bm pr = Inl Bad_pointer"
  "p \<noteq> 0 \<Longrightarrow> umem pr p \<noteq> None \<Longrightarrow> ustore_bitmap p bm pr = Inr (pr\<lparr>umem := (umem pr)(p \<mapsto> Bitmap bm)\<rparr>)"
  by (simp_all add: ustore_bitmap_def)

text \<open>What the C library makes of an \<open>int\<close> the handler returns: negative for a negative one.\<close>

lemma libc_ret_sign:
  fixes v :: cint
  obtains r er where "libc_ret (scast v) pr = (r, pr\<lparr>errno := er\<rparr>)" and "sint r < 0 \<longleftrightarrow> sint v < 0"
proof (cases "is_err (scast v)")
  case True
  then have "sint v < 0" using nonneg_no_err [of v] by linarith
  with True show ?thesis by (intro that [of "- 1" "- ucast (scast v :: ulong)"]) (simp_all add: libc_ret_def)
next
  case False
  have "ucast (scast v :: ulong) = v" by (rule ucast_scast_int)
  with False show ?thesis by (intro that [of v "errno pr"]) (simp_all add: libc_ret_def)
qed

text \<open>The request of both programs, when the device can serve it.\<close>

definition can_create :: "allocator \<Rightarrow> nat \<Rightarrow> uint \<Rightarrow> 'a ioctl_state_scheme \<Rightarrow> bool" where
  "can_create km b bm s \<longleftrightarrow> allocator_ok km \<and> roomy b km \<and> ioctl_ready s \<and> card (dom (heap s)) + 12 \<le> b
     \<and> dyn_i s < length (list_heads s) \<and> validate_bitmap bm = 0 \<and> bitmap_index bm s = None"

lemma asks_to_create:
  assumes can: "can_create km b bm (kern pr)" and fd: "0 \<le> sint fd" and p: "umem pr p = Some (Bitmap bm)"
  shows "\<exists>r er s' va es. user_ioctl km fd IOCTL_CREATE_FROM_BITMAP p pr = Inr (r, pr\<lparr>kern := s', errno := er\<rparr>)
    \<and> (sint r < 0 \<longleftrightarrow> sint (ucast (current_vector s') :: cint) < 0)
    \<and> vec_list s' = stored_vector va (dyn_name bm) (current_vector s') 1 Mod_dynamic_vector bm # vec_list (kern pr)
    \<and> sc_list (heap s') (current_vector s') es \<and> map snd es = dyn_calls bm"
proof -
  let ?s = "(kern pr)\<lparr>user_out := Map.empty\<rparr>" and ?u = "user_view (umem pr)"
  have "allocator_ok km" "roomy b km" "ioctl_ready ?s" "card (dom (heap ?s)) + 12 \<le> b"
    "dyn_i ?s < length (list_heads ?s)" "not_copied ?u p 4 = 0" "u_bitmap ?u p = bm"
    "validate_bitmap bm = 0" "bitmap_index bm ?s = None"
    using can p by (simp_all add: can_create_def)
  from create_request_runs [OF this] obtain s' va es where
    s': "custom_ioctl km ?u IOCTL_CREATE_FROM_BITMAP p ?s = Inr (scast (ucast (current_vector s') :: cint), s')"
    "vec_list s' = stored_vector va (dyn_name bm) (current_vector s') 1 Mod_dynamic_vector bm # vec_list (kern pr)"
    "user_out s' = Map.empty" "sc_list (heap s') (current_vector s') es" "map snd es = dyn_calls bm"
    by (auto simp: Let_def built_def)
  obtain r er where r: "libc_ret (scast (ucast (current_vector s') :: cint)) (pr\<lparr>kern := s'\<rparr>) =
      (r, pr\<lparr>kern := s', errno := er\<rparr>)" "sint r < 0 \<longleftrightarrow> sint (ucast (current_vector s') :: cint) < 0"
    by (rule libc_ret_sign)
  have "IOCTL_CREATE_FROM_BITMAP \<noteq> IOCTL_VECTOR_FOR_PID" by (simp add: ioctl_numbers)
  with s'(1,3) fd r(1) have "user_ioctl km fd IOCTL_CREATE_FROM_BITMAP p pr = Inr (r, pr\<lparr>kern := s', errno := er\<rparr>)"
    by (simp add: user_ioctl_def reply_to_def store_reply_def)
  with r(2) s'(2,4,5) show ?thesis by blast
qed

lemma demo_bitmaps_valid: "validate_bitmap 51 = 0" "validate_bitmap 9 = 0"
  by (simp_all add: validate_bitmap_def override_bits)

lemma dyn_calls_demo:
  "dyn_calls 51 = [(NR_read, OverriddenRead), (NR_write, OverriddenWrite), (NR_link, OverriddenLink), (NR_unlink, OverriddenUnlink)]"
  "dyn_calls 9 = [(NR_read, OverriddenRead), (NR_close, OverriddenClose)]"
  by (simp_all add: dyn_calls_def dyn_table_def override_bits)

section \<open>The runs\<close>

lemma demo_faults:
  assumes "p = 0 \<or> umem pr p = None"
  shows "\<exists>f. ioctl2_main e km p pr = Inl f \<and> ioctl3_main e km p pr = Inl f"
  using assms by (cases "p = 0") (simp_all add: ioctl2_main_def ioctl3_main_def ustore_bitmap_cases)

text \<open>The common middle: the bitmap stored, the device open, and some text printed before the request.\<close>

lemma create_after_store:
  assumes can: "can_create km b bm (kern pr)" and fd: "0 \<le> sint fd"
  obtains r er s' va es where "user_ioctl km fd IOCTL_CREATE_FROM_BITMAP p (pr\<lparr>umem := (umem pr)(p \<mapsto> Bitmap bm), outs := t\<rparr>) =
      Inr (r, pr\<lparr>kern := s', umem := (umem pr)(p \<mapsto> Bitmap bm), errno := er, outs := t\<rparr>)"
    and "(sint r < 0) = (sint (ucast (current_vector s') :: cint) < 0)"
    and "vec_list s' = stored_vector va (dyn_name bm) (current_vector s') 1 Mod_dynamic_vector bm # vec_list (kern pr)"
    and "sc_list (heap s') (current_vector s') es" and "map snd es = dyn_calls bm"
proof -
  let ?p = "pr\<lparr>umem := (umem pr)(p \<mapsto> Bitmap bm), outs := t\<rparr>"
  have "can_create km b bm (kern ?p)" "umem ?p p = Some (Bitmap bm)" using can by simp_all
  from asks_to_create [OF this(1) fd this(2)] obtain r er s' va es where
    "user_ioctl km fd IOCTL_CREATE_FROM_BITMAP p ?p = Inr (r, ?p\<lparr>kern := s', errno := er\<rparr>)"
    "sint r < 0 \<longleftrightarrow> sint (ucast (current_vector s') :: cint) < 0"
    "vec_list s' = stored_vector va (dyn_name bm) (current_vector s') 1 Mod_dynamic_vector bm # vec_list (kern ?p)"
    "sc_list (heap s') (current_vector s') es" "map snd es = dyn_calls bm" by blast
  then show ?thesis by (intro that [where r = r and er = er and s' = s' and va = va and es = es]) simp_all
qed

lemma ioctl2_main_run:
  assumes can: "can_create km b 51 (kern pr)" and fd: "0 \<le> sint (open_path e device_path)"
    and p: "\<not> (p = 0 \<or> umem pr p = None)"
  shows "\<exists>s' er va es. let a = current_vector s'; failed = sint (ucast a :: cint) < 0 in
      ioctl2_main e km p pr = Inr (0, pr\<lparr>kern := s', umem := (umem pr)(p \<mapsto> Bitmap 51), errno := er,
        outs := outs pr @ (''Calling a dynamic vector creation with bitmap '' @ sprintf_d (51 :: uint) @ [NL])
          # (if failed then [''ioctl create vector from bitmap failed'' @ [NL]]
             else [''Dynamic vector creation successful'' @ [NL], ''-----------------------------'' @ [NL]]),
        errs := errs pr @ (if failed then [''ERROR: '' @ strerror e er @ [NL]] else [])\<rparr>)
    \<and> vec_list s' = stored_vector va (dyn_name 51) a 1 Mod_dynamic_vector 51 # vec_list (kern pr)
    \<and> sc_list (heap s') a es \<and> map snd es = dyn_calls 51"
proof -
  obtain msg where msg: "msg = ''Calling a dynamic vector creation with bitmap '' @ sprintf_d (51 :: uint) @ [NL]" by simp
  let ?t = "outs pr @ [msg]" and ?fd = "open_path e device_path"
  obtain r er s' va es where
    u: "user_ioctl km ?fd IOCTL_CREATE_FROM_BITMAP p (pr\<lparr>umem := (umem pr)(p \<mapsto> Bitmap 51), outs := ?t\<rparr>) =
      Inr (r, pr\<lparr>kern := s', umem := (umem pr)(p \<mapsto> Bitmap 51), errno := er, outs := ?t\<rparr>)" and
    rest: "(sint r < 0) = (sint (ucast (current_vector s') :: cint) < 0)"
      "vec_list s' = stored_vector va (dyn_name 51) (current_vector s') 1 Mod_dynamic_vector 51 # vec_list (kern pr)"
      "sc_list (heap s') (current_vector s') es" "map snd es = dyn_calls 51"
    by (rule create_after_store [OF can fd])
  from p fd have "ioctl2_main e km p pr =
      bindE (ioctl2_create_vector e km ?fd p (pr\<lparr>umem := (umem pr)(p \<mapsto> Bitmap 51), outs := ?t\<rparr>)) (\<lambda>(_, pr). Inr (0, pr))"
    unfolding ioctl2_main_def Let_def msg [symmetric] by (simp add: ustore_bitmap_cases(3) say_def)
  also note ioctl2_create_vector_def
  finally show ?thesis using rest unfolding msg [symmetric]
    by (intro exI [of _ s'] exI [of _ er] exI [of _ va] exI [of _ es]) (simp add: u say_def perror_def Let_def)
qed

lemma ioctl3_main_run:
  assumes can: "can_create km b 9 (kern pr)" and fd: "0 \<le> sint (open_path e device_path)"
    and p: "\<not> (p = 0 \<or> umem pr p = None)"
  shows "\<exists>s' er va es. let a = current_vector s'; failed = sint (ucast a :: cint) < 0 in
      ioctl3_main e km p pr = Inr (0, pr\<lparr>kern := s', umem := (umem pr)(p \<mapsto> Bitmap 9), errno := er,
        outs := outs pr @ (if failed then [''ioctl create vector from bitmap failed''] else [])
          @ [''called ioctl successfullly'' @ [NL]],
        errs := errs pr @ (if failed then [''ERROR: '' @ strerror e er @ [NL]] else [])\<rparr>)
    \<and> vec_list s' = stored_vector va (dyn_name 9) a 1 Mod_dynamic_vector 9 # vec_list (kern pr)
    \<and> sc_list (heap s') a es \<and> map snd es = dyn_calls 9"
proof -
  let ?fd = "open_path e device_path" and ?q = "pr\<lparr>umem := (umem pr)(p \<mapsto> Bitmap 9)\<rparr>"
  obtain r er s' va es where
    u: "user_ioctl km ?fd IOCTL_CREATE_FROM_BITMAP p (pr\<lparr>umem := (umem pr)(p \<mapsto> Bitmap 9), outs := outs pr\<rparr>) =
      Inr (r, pr\<lparr>kern := s', umem := (umem pr)(p \<mapsto> Bitmap 9), errno := er, outs := outs pr\<rparr>)" and
    rest: "(sint r < 0) = (sint (ucast (current_vector s') :: cint) < 0)"
      "vec_list s' = stored_vector va (dyn_name 9) (current_vector s') 1 Mod_dynamic_vector 9 # vec_list (kern pr)"
      "sc_list (heap s') (current_vector s') es" "map snd es = dyn_calls 9"
    by (rule create_after_store [OF can fd])
  have u': "user_ioctl km ?fd IOCTL_CREATE_FROM_BITMAP p ?q = Inr (r, ?q\<lparr>kern := s', errno := er\<rparr>)" using u by simp
  from p fd have "ioctl3_main e km p pr = bindE (ioctl3_create_vector e km ?fd p ?q) (\<lambda>(_, pr). Inr (0, pr))"
    by (simp add: ioctl3_main_def ustore_bitmap_cases(3))
  also note ioctl3_create_vector_def
  finally show ?thesis using rest
    by (intro exI [of _ s'] exI [of _ er] exI [of _ va] exI [of _ es]) (simp add: u' say_def perror_def Let_def)
qed

end
