(* ===== verification/File_Calls.thy ===== *)
theory File_Calls
  imports Demo_Programs
begin

text \<open>
  File system calls of a program, which are the kernel's and so parameters, and a program's steps
  one by one: what each library call, file call and request of the device makes of a point of the
  program. The runs of \<open>Demo_Files\<close> are put together from these.
\<close>

section \<open>Calls\<close>

record 'p file_calls =
  f_open :: "string \<Rightarrow> nat \<Rightarrow> 'p \<Rightarrow> (cint \<times> 'p) cres"
  f_close :: "cint \<Rightarrow> 'p \<Rightarrow> (cint \<times> 'p) cres"
  f_read :: "cint \<Rightarrow> addr \<Rightarrow> nat \<Rightarrow> 'p \<Rightarrow> (cint \<times> 'p) cres"
  f_write :: "cint \<Rightarrow> addr \<Rightarrow> nat \<Rightarrow> 'p \<Rightarrow> (cint \<times> 'p) cres"
  f_link :: "string \<Rightarrow> string \<Rightarrow> 'p \<Rightarrow> (cint \<times> 'p) cres"
  f_unlink :: "string \<Rightarrow> 'p \<Rightarrow> (cint \<times> 'p) cres"
  f_mkdir :: "string \<Rightarrow> nat \<Rightarrow> 'p \<Rightarrow> (cint \<times> 'p) cres"
  f_rmdir :: "string \<Rightarrow> 'p \<Rightarrow> (cint \<times> 'p) cres"

definition O_RDONLY :: nat where "O_RDONLY = 0"
definition O_RDWR :: nat where "O_RDWR = 2"
definition O_CREAT :: nat where "O_CREAT = 64"
definition O_TRUNC :: nat where "O_TRUNC = 512"

text \<open>\<open>printf\<close> of a text that ends with a string in memory and a newline; and of a call's result.\<close>

definition say_string :: "string \<Rightarrow> addr \<Rightarrow> 'k user_proc \<Rightarrow> 'k user_proc cres" where
  "say_string t a pr =
     bindE (bytes_at a (umem pr)) (\<lambda>b.
     if terminated b then Inr (say (t @ c_string b @ [NL]) pr) else Inl Unterminated)"

definition buf_is :: string where "buf_is = ''buf is '' @ [NL]"

definition say_buf :: "addr \<Rightarrow> 'k user_proc \<Rightarrow> 'k user_proc cres" where
  "say_buf = say_string buf_is"

definition say_result :: "string \<Rightarrow> cint \<times> 'k user_proc \<Rightarrow> 'k user_proc cres" where
  "say_result t = (\<lambda>(ret, pr). Inr (say (t @ sprintf_d ret @ [NL]) pr))"

definition text17 :: string where "text17 = ''Rashmi is writing''"

section \<open>File calls that leave the device alone\<close>

definition returns :: "('a \<Rightarrow> bool) \<Rightarrow> 'a cres \<Rightarrow> bool" where
  "returns P m \<longleftrightarrow> (\<exists>x. m = Inr x \<and> P x)"

lemma returns_Inr [simp]: "returns P (Inr x) = P x"
  by (simp add: returns_def)

lemma returnsE: "returns P m \<Longrightarrow> (\<And>x. m = Inr x \<Longrightarrow> P x \<Longrightarrow> R) \<Longrightarrow> R"
  by (auto simp: returns_def)

lemma returns_then: "returns Q m \<Longrightarrow> (\<And>x. Q x \<Longrightarrow> returns P (f x)) \<Longrightarrow> returns P (bindE m f)"
  by (auto simp: returns_def)

lemma returns_call:
  "returns (\<lambda>(_, pr). Q pr) m \<Longrightarrow> (\<And>r pr. Q pr \<Longrightarrow> returns P (f r pr)) \<Longrightarrow> returns P (bindE m (\<lambda>(r, pr). f r pr))"
  by (auto simp: returns_def)

definition same_device :: "'a ioctl_state_scheme \<Rightarrow> 'a ioctl_state_scheme \<Rightarrow> bool" where
  "same_device s s' \<longleftrightarrow> heap s' = heap s \<and> vec_list s' = vec_list s \<and> list_lock s' = list_lock s
     \<and> vector_info s' = vector_info s \<and> current s' = current s \<and> mutexlock s' = mutexlock s
     \<and> dyn_listHead s' = dyn_listHead s \<and> list_heads s' = list_heads s \<and> dyn_i s' = dyn_i s"

text \<open>The process after a file call: its memory, its output, and what the device works on are as before.\<close>

definition file_kept :: "'a ioctl_state_scheme user_proc \<Rightarrow> cint \<times> 'a ioctl_state_scheme user_proc \<Rightarrow> bool" where
  "file_kept pr = (\<lambda>(_, pr'). umem pr' = umem pr \<and> outs pr' = outs pr \<and> errs pr' = errs pr
     \<and> same_device (kern pr) (kern pr'))"

text \<open>
  File calls as the kernel documents them: each returns, and \<open>open\<close> succeeds on the paths in \<open>opens\<close>;
  \<open>read\<close> may change the bytes it is given.
\<close>

definition files_apart :: "(string \<Rightarrow> bool) \<Rightarrow> 'a ioctl_state_scheme user_proc file_calls \<Rightarrow> bool" where
  "files_apart opens fc \<longleftrightarrow>
     (\<forall>p fl pr. returns (\<lambda>x. file_kept pr x \<and> (0 \<le> sint (fst x) \<longleftrightarrow> opens p)) (f_open fc p fl pr))
   \<and> (\<forall>fd pr. returns (file_kept pr) (f_close fc fd pr))
   \<and> (\<forall>fd a n pr. returns (file_kept pr) (f_write fc fd a n pr))
   \<and> (\<forall>p q pr. returns (file_kept pr) (f_link fc p q pr))
   \<and> (\<forall>p pr. returns (file_kept pr) (f_unlink fc p pr))
   \<and> (\<forall>p n pr. returns (file_kept pr) (f_mkdir fc p n pr))
   \<and> (\<forall>p pr. returns (file_kept pr) (f_rmdir fc p pr))"

definition reads_into :: "'a ioctl_state_scheme user_proc file_calls \<Rightarrow> bool" where
  "reads_into fc \<longleftrightarrow> (\<forall>fd a n pr b. umem pr a = Some (Bytes b) \<longrightarrow> n \<le> length b \<longrightarrow>
     returns (\<lambda>x. \<exists>b'. length b' = length b \<and> file_kept (pr\<lparr>umem := (umem pr)(a \<mapsto> Bytes b')\<rparr>) x) (f_read fc fd a n pr))"

lemma same_device_refl: "same_device s s"
  by (simp add: same_device_def)

lemma same_device_trans: "same_device s t \<Longrightarrow> same_device t v \<Longrightarrow> same_device s v"
  by (simp add: same_device_def)

lemma same_device_answered: "same_device s (answered n p bs (s\<lparr>user_out := x\<rparr>))"
  by (simp add: same_device_def)

lemma same_device_facts:
  assumes "same_device s s'"
  shows "can_call km b fd s' = can_call km b fd s" and "plain_names s' = plain_names s"
    and "name_index q s' = name_index q s" and "vec_list s' = vec_list s" and "current_vector s' = current_vector s"
    and "my_text a s' = my_text a s" and "all_text s' = all_text s" and "texts_fit s' = texts_fit s"
    and "vec_list (add_refcount i d s') = vec_list (add_refcount i d s)"
    and "heap s' = heap s" and "vector_info s' = vector_info s" and "current s' = current s"
  using assms
  by (simp_all add: same_device_def can_call_def ioctl_ready_def reg_inv_def reg_ok_def texts_fit_def plain_names_def
      name_index_def current_vector_def my_text_def addr_index_def all_text_def add_refcount_def cong: option.case_cong)

section \<open>Steps of a program\<close>

text \<open>
  A point of a program: the memory is \<open>m\<close> and the buffer of \<open>N\<close> bytes with the property \<open>C\<close>, no less
  than the device answers, and the device is as in \<open>k\<close>.
\<close>

definition at_point ::
  "nat \<Rightarrow> (addr \<rightharpoonup> ublock) \<Rightarrow> addr \<Rightarrow> (char list \<Rightarrow> bool) \<Rightarrow> 'a ioctl_state_scheme \<Rightarrow> 'a ioctl_state_scheme user_proc \<Rightarrow> bool" where
  "at_point N m buf C k pr \<longleftrightarrow>
     BUF_LEN \<le> N \<and> (\<exists>bs. umem pr = m(buf \<mapsto> Bytes bs) \<and> length bs = N \<and> C bs) \<and> same_device k (kern pr)"

definition zeroed :: "nat \<Rightarrow> char list \<Rightarrow> bool" where
  "zeroed N bs \<longleftrightarrow> bs = replicate N NUL"

definition holds_text :: "string \<Rightarrow> char list \<Rightarrow> bool" where
  "holds_text t bs \<longleftrightarrow> terminated bs \<and> c_string bs = t"

lemma at_point_say [simp]: "at_point N m buf C k (say t pr) = at_point N m buf C k pr"
  by (simp add: at_point_def)

lemma at_point_weaken: "at_point N m buf C k pr \<Longrightarrow> (\<And>bs. C bs \<Longrightarrow> D bs) \<Longrightarrow> at_point N m buf D k pr"
  by (auto simp: at_point_def)

lemma at_point_kept: "at_point N m buf C k pr \<Longrightarrow> file_kept pr x \<Longrightarrow> at_point N m buf C k (snd x)"
  by (auto simp: at_point_def file_kept_def split_beta intro: same_device_trans)

lemma step_file:
  assumes "returns (file_kept pr) call" and "at_point N m buf C k pr"
  shows "returns (\<lambda>(_, pr). at_point N m buf C k pr) call"
  using assms at_point_kept by (fastforce simp: returns_def split_beta)

lemma step_result:
  assumes "returns (file_kept pr) call" and "at_point N m buf C k pr"
  shows "returns (at_point N m buf C k) (bindE call (say_result t))"
  using assms at_point_kept by (fastforce simp: returns_def split_beta say_result_def)

lemma step_memset:
  assumes "buf \<noteq> 0" and "at_point N m buf C k pr"
  shows "returns (at_point N m buf (zeroed N) k) (umemset0 buf N pr)"
proof -
  from assms(2) obtain bs where "umem pr = m(buf \<mapsto> Bytes bs)" "length bs = N" by (auto simp: at_point_def)
  with assms show ?thesis by (simp add: umemset0_bytes at_point_def zeroed_def)
qed

lemma step_text17:
  assumes "buf \<noteq> 0" and "at_point 1024 m buf (zeroed 1024) k pr"
  shows "returns (at_point 1024 m buf terminated k) (umemcpy buf text17 pr)"
proof -
  from assms(2) have "umem pr = m(buf \<mapsto> Bytes (replicate 1024 NUL))" by (auto simp: at_point_def zeroed_def)
  moreover have "length text17 = 17" by (simp add: text17_def)
  moreover have "terminated (text17 @ replicate 1007 NUL)" by (simp add: terminated_def)
  ultimately show ?thesis
    using assms by (auto simp: umemcpy_bytes at_point_def drop_replicate intro!: exI [of _ "text17 @ replicate 1007 NUL"])
qed

lemma step_say_string:
  assumes "buf \<noteq> 0" and "at_point N m buf C k pr" and "\<And>bs. C bs \<Longrightarrow> terminated bs"
  shows "returns (at_point N m buf C k) (say_string t buf pr)"
  using assms by (auto simp: at_point_def say_string_def bytes_at_def)

lemma holds_text_padded:
  assumes "length t < BUF_LEN" and "NUL \<notin> set t"
  shows "holds_text t (padded t @ bs)"
  using assms padded_terminated [of t] padded_string [of t]
  by (auto simp: holds_text_def terminated_def c_string_def)

text \<open>The buffer after a request that shows.\<close>

lemma step_answer:
  assumes at: "at_point N m buf C k pr" and t: "length t < BUF_LEN" "NUL \<notin> set t"
    and run: "\<And>bs thesis. umem pr buf = Some (Bytes bs) \<Longrightarrow> BUF_LEN \<le> length bs \<Longrightarrow> (\<And>n. user_ioctl km fd req p pr = Inr (0,
      pr\<lparr>kern := answered n buf (padded t) ((kern pr)\<lparr>user_out := Map.empty\<rparr>),
         umem := (umem pr)(buf \<mapsto> Bytes (padded t @ drop BUF_LEN bs))\<rparr>) \<Longrightarrow> thesis) \<Longrightarrow> thesis"
  shows "returns (\<lambda>(_, pr). at_point N m buf (holds_text t) k pr) (user_ioctl km fd req p pr)"
proof -
  from at obtain bs where p: "umem pr = m(buf \<mapsto> Bytes bs)" "length bs = N" and d: "same_device k (kern pr)"
    by (auto simp: at_point_def)
  have "umem pr buf = Some (Bytes bs)" "BUF_LEN \<le> length bs" using p at by (simp_all add: at_point_def)
  from run [OF this] obtain n where
    n: "user_ioctl km fd req p pr = Inr (0, pr\<lparr>kern := answered n buf (padded t) ((kern pr)\<lparr>user_out := Map.empty\<rparr>),
         umem := (umem pr)(buf \<mapsto> Bytes (padded t @ drop BUF_LEN bs))\<rparr>)" by blast
  have "length (padded t @ drop BUF_LEN bs) = N" using p(2) at padded_length [OF t(1)] by (simp add: at_point_def)
  then show ?thesis unfolding n
    using at holds_text_padded [OF t] p(1) same_device_trans [OF d same_device_answered]
    by (auto simp: at_point_def intro!: exI [of _ "padded t @ drop BUF_LEN bs"])
qed

lemma step_show_all:
  assumes call: "can_call km b fd k" and buf: "buf \<noteq> 0" and at: "at_point N m buf C k pr"
  shows "returns (\<lambda>(_, pr). at_point N m buf (holds_text (all_text k)) k pr) (user_ioctl km fd IOCTL_SHOW_ALL buf pr)"
proof (rule step_answer [OF at])
  have d: "same_device k (kern pr)" using at by (simp add: at_point_def)
  note f = same_device_facts [OF d]
  show "length (all_text k) < BUF_LEN" "NUL \<notin> set (all_text k)"
    using call all_text_fits [of k] by (simp_all add: can_call_def all_text_no_NUL)
  have "can_call km b fd (kern pr)" using call by (simp add: f)
  note into = asks_all_into [OF this _ buf, unfolded f(7)]
  fix bs thesis
  assume "umem pr buf = Some (Bytes bs)" "BUF_LEN \<le> length bs" "\<And>n. user_ioctl km fd IOCTL_SHOW_ALL buf pr = Inr (0,
      pr\<lparr>kern := answered n buf (padded (all_text k)) ((kern pr)\<lparr>user_out := Map.empty\<rparr>),
         umem := (umem pr)(buf \<mapsto> Bytes (padded (all_text k) @ drop BUF_LEN bs))\<rparr>) \<Longrightarrow> thesis"
  then show thesis by (rule into)
qed

lemma step_show_mine:
  assumes call: "can_call km b fd k" and buf: "buf \<noteq> 0" and at: "at_point N m buf C k pr"
    and t: "my_text (current_vector k) k = t"
  shows "returns (\<lambda>(_, pr). at_point N m buf (holds_text t) k pr) (user_ioctl km fd IOCTL_SHOW_MINE buf pr)"
proof (rule step_answer [OF at])
  have d: "same_device k (kern pr)" using at by (simp add: at_point_def)
  note f = same_device_facts [OF d]
  show "length t < BUF_LEN" "NUL \<notin> set t"
    using call my_text_fits [of k] t my_text_no_NUL by (auto simp: can_call_def)
  have "can_call km b fd (kern pr)" "my_text (current_vector (kern pr)) (kern pr) = t" using call t by (simp_all add: f)
  note into = asks_mine_into [OF this(1) _ buf _ this(2)]
  fix bs thesis
  assume "umem pr buf = Some (Bytes bs)" "BUF_LEN \<le> length bs" "\<And>n. user_ioctl km fd IOCTL_SHOW_MINE buf pr = Inr (0,
      pr\<lparr>kern := answered n buf (padded t) ((kern pr)\<lparr>user_out := Map.empty\<rparr>),
         umem := (umem pr)(buf \<mapsto> Bytes (padded t @ drop BUF_LEN bs))\<rparr>) \<Longrightarrow> thesis"
  then show thesis by (rule into)
qed

lemma step_show_pid:
  assumes call: "can_call km b fd k" and buf: "buf \<noteq> 0" and at: "at_point N m buf C k pr"
    and pb: "m pb = Some (Pid_n_buf pid buf)" "pb \<noteq> buf" and v: "vector_info k pid = Some a" "my_text a k = t"
  shows "returns (\<lambda>(_, pr). at_point N m buf (holds_text t) k pr) (user_ioctl km fd IOCTL_VECTOR_FOR_PID pb pr)"
proof (rule step_answer [OF at])
  have d: "same_device k (kern pr)" using at by (simp add: at_point_def)
  note f = same_device_facts [OF d]
  show "length t < BUF_LEN" "NUL \<notin> set t"
    using call my_text_fits [of k] v(2) my_text_no_NUL by (auto simp: can_call_def)
  have "can_call km b fd (kern pr)" "vector_info (kern pr) pid = Some a" "my_text a (kern pr) = t"
    using call v by (simp_all add: f)
  moreover have "umem pr pb = Some (Pid_n_buf pid buf)" using at pb by (auto simp: at_point_def)
  ultimately have ready: "can_call km b fd (kern pr)" "umem pr pb = Some (Pid_n_buf pid buf)"
    "vector_info (kern pr) pid = Some a" "my_text a (kern pr) = t" by simp_all
  fix bs thesis
  assume "umem pr buf = Some (Bytes bs)" "BUF_LEN \<le> length bs" "\<And>n. user_ioctl km fd IOCTL_VECTOR_FOR_PID pb pr = Inr (0,
      pr\<lparr>kern := answered n buf (padded t) ((kern pr)\<lparr>user_out := Map.empty\<rparr>),
         umem := (umem pr)(buf \<mapsto> Bytes (padded t @ drop BUF_LEN bs))\<rparr>) \<Longrightarrow> thesis"
  then show thesis by (rule asks_pid_into [OF ready(1) _ buf _ ready(2-4)])
qed

text \<open>Taking and leaving move the device on; the new state is the point's.\<close>

lemma step_set:
  assumes call: "can_call km b fd k" and plain: "plain_names k" and at: "at_point N m buf C k pr"
    and q: "m p = Some (Bytes bs)" "p \<noteq> buf" "terminated bs" "c_string bs = q" "length q < 256"
    and i: "name_index q k = Some i" "overriddenSyscalls_address (vec_list k ! i) = a" "a \<noteq> 0"
  obtains r k' pr' where "user_ioctl km fd IOCTL_SET p pr = Inr (r, pr')" and "at_point N m buf C k' pr'" and "can_call km b fd k'"
    and "heap k' = heap k" and "vec_list k' = vec_list (add_refcount i 1 k)"
    and "vector_info k' = (vector_info k)(current k \<mapsto> a)" and "current k' = current k"
proof -
  have d: "same_device k (kern pr)" using at by (simp add: at_point_def)
  note f = same_device_facts [OF d]
  have "umem pr p = Some (Bytes bs)" using at q(1,2) by (auto simp: at_point_def)
  from asks_to_set [OF _ _ this q(3-5) _ _ i(3), unfolded f, OF call plain i(1,2)] obtain s' where
    s': "user_ioctl km fd IOCTL_SET p pr = Inr (0, pr\<lparr>kern := s'\<rparr>)" "ioctl_ready s'" "heap s' = heap k"
      "vec_list s' = vec_list (add_refcount i 1 k)" "vector_info s' = (vector_info k)(current k \<mapsto> a)" "current s' = current k"
    by blast
  moreover have "texts_fit s' = texts_fit k" by (rule recounted(1) [OF s'(4)])
  ultimately show ?thesis
    using at call by (intro that [of 0 "pr\<lparr>kern := s'\<rparr>" s']) (auto simp: at_point_def can_call_def same_device_refl)
qed

lemma step_remove:
  assumes call: "can_call km b fd k" and at: "at_point N m buf C k pr"
    and q: "m p = Some (Bytes bs)" "p \<noteq> buf" "terminated bs" "c_string bs = q" "length q < 256"
    and i: "name_index q k = Some i" "refcount (vec_list k ! i) - 1 = r"
  obtains e k' pr' where "user_ioctl km fd IOCTL_REMOVE p pr = Inr (e, pr')" and "at_point N m buf C k' pr'" and "can_call km b fd k'"
    and "heap k' = heap k" and "vec_list k' = vec_list (add_refcount i (- 1) k)"
    and "vector_info k' = (if sint r < 0 then vector_info k else (vector_info k)(current k \<mapsto> 0))"
    and "current k' = current k"
proof -
  have d: "same_device k (kern pr)" using at by (simp add: at_point_def)
  note f = same_device_facts [OF d]
  have "umem pr p = Some (Bytes bs)" using at q(1,2) by (auto simp: at_point_def)
  from asks_to_remove [OF _ this q(3-5), unfolded f, OF call i] obtain e er s' where
    s': "user_ioctl km fd IOCTL_REMOVE p pr = Inr (e, pr\<lparr>kern := s', errno := er\<rparr>)" "ioctl_ready s'" "heap s' = heap k"
      "vec_list s' = vec_list (add_refcount i (- 1) k)" "current s' = current k"
      "vector_info s' = (if sint r < 0 then vector_info k else (vector_info k)(current k \<mapsto> 0))"
    by blast
  moreover have "texts_fit s' = texts_fit k" by (rule recounted(1) [OF s'(4)])
  ultimately show ?thesis
    using at call by (intro that [of e "pr\<lparr>kern := s', errno := er\<rparr>" s']) (auto simp: at_point_def can_call_def same_device_refl)
qed

lemma files_apartD:
  assumes "files_apart opens fc"
  shows "returns (\<lambda>x. file_kept pr x \<and> (0 \<le> sint (fst x) \<longleftrightarrow> opens p)) (f_open fc p fl pr)"
    and "returns (file_kept pr) (f_open fc p fl pr)" and "returns (file_kept pr) (f_close fc fd pr)"
    and "returns (file_kept pr) (f_write fc fd a n pr)" and "returns (file_kept pr) (f_link fc p p' pr)"
    and "returns (file_kept pr) (f_unlink fc p pr)" and "returns (file_kept pr) (f_mkdir fc p n pr)"
    and "returns (file_kept pr) (f_rmdir fc p pr)"
proof -
  have "returns (file_kept pr) (f_open fc p fl pr)"
    if "returns (\<lambda>x. file_kept pr x \<and> (0 \<le> sint (fst x) \<longleftrightarrow> opens p)) (f_open fc p fl pr)"
    using that by (auto simp: returns_def)
  with assms show "returns (\<lambda>x. file_kept pr x \<and> (0 \<le> sint (fst x) \<longleftrightarrow> opens p)) (f_open fc p fl pr)"
    and "returns (file_kept pr) (f_open fc p fl pr)" and "returns (file_kept pr) (f_close fc fd pr)"
    and "returns (file_kept pr) (f_write fc fd a n pr)" and "returns (file_kept pr) (f_link fc p p' pr)"
    and "returns (file_kept pr) (f_unlink fc p pr)" and "returns (file_kept pr) (f_mkdir fc p n pr)"
    and "returns (file_kept pr) (f_rmdir fc p pr)"
    unfolding files_apart_def by blast+
qed

lemma step_open:
  assumes "files_apart opens fc" and "at_point N m buf C k pr"
  shows "returns (\<lambda>(fd, pr). (0 \<le> sint fd \<longleftrightarrow> opens p) \<and> at_point N m buf C k pr) (f_open fc p fl pr)"
  using files_apartD(1) [OF assms(1)] assms(2) at_point_kept by (fastforce simp: returns_def split_beta)

lemma at_point_free:
  assumes "buf \<noteq> 0" and "m buf = None" and "at_point N m buf C k pr"
  shows "ufree buf pr = Inr (pr\<lparr>umem := m\<rparr>)"
proof -
  from assms(3) obtain bs where u: "umem pr = m(buf \<mapsto> Bytes bs)" by (auto simp: at_point_def)
  have "m(buf := None) = m" using assms(2) by (auto simp: fun_eq_iff)
  then show ?thesis using assms(1) by (simp add: ufree_def u)
qed

lemma at_point_pid:
  "at_point N m buf C k pr \<Longrightarrow> m pb = Some (Pid_n_buf i b) \<Longrightarrow> pb \<noteq> buf \<Longrightarrow> u_pid_n_buf (user_view (umem pr)) pb = (i, b)"
  by (auto simp: at_point_def)

lemma step_read:
  assumes reads: "reads_into fc" and at: "at_point N m buf C k pr" and n: "n \<le> N"
  shows "returns (\<lambda>(_, pr). at_point N m buf (\<lambda>_. True) k pr) (f_read fc fd buf n pr)"
proof -
  from at obtain bs where u: "umem pr = m(buf \<mapsto> Bytes bs)" "length bs = N" and d: "same_device k (kern pr)"
    by (auto simp: at_point_def)
  then obtain x b' where x: "f_read fc fd buf n pr = Inr x" "length b' = N"
    "file_kept (pr\<lparr>umem := (umem pr)(buf \<mapsto> Bytes b')\<rparr>) x"
    using reads n unfolding reads_into_def returns_def by (metis fun_upd_same)
  have "at_point N m buf (\<lambda>_. True) k (pr\<lparr>umem := (umem pr)(buf \<mapsto> Bytes b')\<rparr>)"
    using at u d x(2) by (auto simp: at_point_def)
  from at_point_kept [OF this x(3)] x(1) show ?thesis by (simp add: split_beta)
qed

text \<open>The last words of a program: what \<open>IOCTL_SHOW_MINE\<close> says after the vector was left.\<close>

definition ends_free :: "(addr \<rightharpoonup> ublock) \<Rightarrow> addr \<Rightarrow> 'a ioctl_state_scheme \<Rightarrow> 'a ioctl_state_scheme user_proc \<Rightarrow> bool" where
  "ends_free m buf k pr \<longleftrightarrow> at_point 1024 m buf terminated k pr
     \<and> last (outs pr) = buf_is @ ''vector not assigned'' @ [NL]"

lemma step_last_words:
  assumes files: "files_apart opens fc" and call: "can_call km b fd k" and buf: "buf \<noteq> 0"
    and none: "current_vector k = 0" and at: "at_point 1024 m buf C k pr"
  shows "returns (ends_free m buf k)
    (bindE (user_ioctl km fd IOCTL_SHOW_MINE buf pr) (\<lambda>(_, pr).
     bindE (say_buf buf pr) (\<lambda>pr. bindE (f_close fc fd pr) (\<lambda>(_, pr). Inr pr))))"
proof -
  obtain t where t: "''vector not assigned'' = t" by simp
  have mine: "my_text (current_vector k) k = t" using none by (simp add: my_text_def flip: t)
  have rest: "returns (ends_free m buf k) (bindE (say_buf buf pr) (\<lambda>pr. bindE (f_close fc fd pr) (\<lambda>(_, pr). Inr pr)))"
    if at2: "at_point 1024 m buf (holds_text t) k pr" for pr
  proof -
    let ?pr = "say (buf_is @ t @ [NL]) pr"
    have said: "say_buf buf pr = Inr ?pr"
      using at2 buf by (auto simp: say_buf_def say_string_def at_point_def bytes_at_def holds_text_def)
    obtain r pr' where close: "f_close fc fd ?pr = Inr (r, pr')" "file_kept ?pr (r, pr')"
      using files_apartD(3) [OF files, of ?pr fd] by (auto simp: returns_def)
    have "at_point 1024 m buf terminated k ?pr"
      using at_point_weaken [OF at2, of terminated] by (simp add: holds_text_def)
    from at_point_kept [OF this close(2)] have "ends_free m buf k pr'"
      using close(2) by (simp add: ends_free_def file_kept_def t)
    then show ?thesis by (simp add: said close(1))
  qed
  show ?thesis by (rule returns_call [OF step_show_mine [OF call buf at mine] rest])
qed

text \<open>A vector taken and left again.\<close>

lemma taken_and_left:
  assumes i: "name_index q k = Some i" and r: "0 \<le> sint (refcount (vec_list k ! i))"
    and k1: "vec_list k1 = vec_list (add_refcount i 1 k)" "vector_info k1 = (vector_info k)(current k \<mapsto> a)" "current k1 = current k"
  shows "name_index q k1 = Some i" and "refcount (vec_list k1 ! i) - 1 = refcount (vec_list k ! i)"
    and "vec_list k2 = vec_list (add_refcount i (- 1) k1) \<Longrightarrow> current k2 = current k1
      \<Longrightarrow> vector_info k2 = (if sint (refcount (vec_list k ! i)) < 0 then vector_info k1 else (vector_info k1)(current k1 \<mapsto> 0))
      \<Longrightarrow> vec_list k2 = vec_list k \<and> vector_info k2 = (vector_info k)(current k \<mapsto> 0) \<and> current_vector k2 = 0"
proof -
  note len = index_bounds(1) [OF i]
  show "name_index q k1 = Some i"
    using name_index_add_refcount [of q i 1 k] i by (simp add: name_index_def k1(1))
  show "refcount (vec_list k1 ! i) - 1 = refcount (vec_list k ! i)" using len by (simp add: k1(1) add_refcount_def)
  assume k2: "vec_list k2 = vec_list (add_refcount i (- 1) k1)" "current k2 = current k1"
    "vector_info k2 = (if sint (refcount (vec_list k ! i)) < 0 then vector_info k1 else (vector_info k1)(current k1 \<mapsto> 0))"
  have "vec_list k2 = vec_list k" using len by (simp add: k2(1) k1(1) add_refcount_def)
  with r k2(2,3) k1(2,3) show "vec_list k2 = vec_list k \<and> vector_info k2 = (vector_info k)(current k \<mapsto> 0) \<and> current_vector k2 = 0"
    by (simp add: current_vector_def)
qed

end
