(* ===== verification/Demo_Files.thy ===== *)
theory Demo_Files
  imports File_Calls
begin

text \<open>
  \<open>demo/temp/user_write.c\<close> and \<open>demo/temp/user_code.c\<close>: a process takes a vector, makes calls to the
  file system and leaves the vector.
\<close>

section \<open>Definitions\<close>

subsection \<open>\<open>user_write.c\<close>\<close>

definition write_files ::
  "'k user_proc file_calls \<Rightarrow> cint \<Rightarrow> addr \<Rightarrow> 'k user_proc \<Rightarrow> 'k user_proc cres" where
  "write_files fc temp buf pr =
     (let pr = say (''file id is '' @ sprintf_d temp @ [NL]) pr in
      bindE (umemset0 buf 1024 pr) (\<lambda>pr.
      bindE (umemcpy buf text17 pr) (\<lambda>pr.
      bindE (f_write fc temp buf 17 pr) (\<lambda>(ret, pr).
      let pr = say (''write returned '' @ sprintf_d ret @ '' at user level'' @ [NL]) pr in
      bindE (f_close fc temp pr) (\<lambda>(_, pr).
      bindE (say_string (''ret val '' @ sprintf_d ret @ [NL] @ buf_is) buf pr) (\<lambda>pr.
      bindE (bindE (f_link fc ''normal.txt'' ''normal2.txt'' pr) (say_result ''return value link is '')) (\<lambda>pr.
      bindE (bindE (f_unlink fc ''normal2.txt'' pr) (say_result ''return value unlink is '')) (\<lambda>pr.
      bindE (bindE (f_mkdir fc ''aboutToDelete'' 644 pr) (say_result ''return value mkdir is '')) (\<lambda>pr.
      bindE (f_rmdir fc ''aboutToDelete'' pr) (say_result ''return value rmdir is ''))))))))))"

definition write_session ::
  "allocator \<Rightarrow> 'a ioctl_state_scheme user_proc file_calls \<Rightarrow> cint \<Rightarrow> cint \<Rightarrow> addr \<Rightarrow> addr
   \<Rightarrow> 'a ioctl_state_scheme user_proc \<Rightarrow> 'a ioctl_state_scheme user_proc cres" where
  "write_session km fc file_desc temp buf vec_name pr =
     bindE (user_ioctl km file_desc IOCTL_SET vec_name pr) (\<lambda>(_, pr).
     bindE (user_ioctl km file_desc IOCTL_SHOW_MINE buf pr) (\<lambda>(_, pr).
     bindE (say_buf buf pr) (\<lambda>pr.
     bindE (umemset0 buf 1024 pr) (\<lambda>pr.
     bindE (write_files fc temp buf pr) (\<lambda>pr.
     bindE (user_ioctl km file_desc IOCTL_REMOVE vec_name pr) (\<lambda>(_, pr).
     bindE (f_open fc ''Makefile'' O_RDONLY pr) (\<lambda>(temp, pr).
     bindE (f_close fc temp pr) (\<lambda>(_, pr).
     bindE (umemset0 buf 1024 pr) (\<lambda>pr.
     bindE (user_ioctl km file_desc IOCTL_SHOW_MINE buf pr) (\<lambda>(_, pr).
     bindE (say_buf buf pr) (\<lambda>pr.
     bindE (f_close fc file_desc pr) (\<lambda>(_, pr). Inr pr))))))))))))"

text \<open>\<open>vec_name\<close> is the address of the array on the stack, which is there while \<open>main\<close> runs.\<close>

definition user_write_main ::
  "user_env \<Rightarrow> allocator \<Rightarrow> 'a ioctl_state_scheme user_proc file_calls \<Rightarrow> addr
   \<Rightarrow> 'a ioctl_state_scheme user_proc \<Rightarrow> 'a ioctl_state_scheme user_proc cres" where
  "user_write_main e km fc vec_name pr =
     (let pr = pr\<lparr>umem := (umem pr)(vec_name \<mapsto> Bytes (''Vector4'' @ [NUL]))\<rparr>;
          (buf, pr) = umalloc e 1024 pr in
      bindE
        (if buf = 0 then Inr (say (''buf couldn't be assigned'' @ [NL]) pr)
         else
           bindE (f_open fc device_path O_RDONLY pr) (\<lambda>(file_desc, pr).
           bindE (umemset0 buf 1024 pr) (\<lambda>pr.
           bindE (user_ioctl km file_desc IOCTL_SHOW_ALL buf pr) (\<lambda>(_, pr).
           bindE (say_buf buf pr) (\<lambda>pr.
           bindE (umemset0 buf 1024 pr) (\<lambda>pr.
           bindE (f_open fc ''normal.txt'' (O_RDWR + O_TRUNC + O_CREAT) pr) (\<lambda>(temp, pr).
           bindE
             (if sint temp < 0 then
                bindE (user_ioctl km file_desc IOCTL_REMOVE vec_name pr) (\<lambda>(_, pr).
                Inr (say (''file not opened'' @ [NL]) pr))
              else write_session km fc file_desc temp buf vec_name pr) (\<lambda>pr.
           ufree buf pr))))))))
        (\<lambda>pr. Inr (pr\<lparr>umem := (umem pr)(vec_name := None)\<rparr>)))"

subsection \<open>\<open>user_code.c\<close>\<close>

definition ustore_pid_n_buf :: "addr \<Rightarrow> pid \<Rightarrow> addr \<Rightarrow> 'k user_proc \<Rightarrow> 'k user_proc cres" where
  "ustore_pid_n_buf p i a pr =
     (if p = 0 then Inl Null_deref
      else if umem pr p = None then Inl Bad_pointer
      else Inr (pr\<lparr>umem := (umem pr)(p \<mapsto> Pid_n_buf i a)\<rparr>))"

definition code_files ::
  "'k user_proc file_calls \<Rightarrow> addr \<Rightarrow> 'k user_proc \<Rightarrow> 'k user_proc cres" where
  "code_files fc buf pr =
     bindE (f_open fc ''normal.txt'' O_RDWR pr) (\<lambda>(temp, pr).
     let pr = say (''file id is '' @ sprintf_d temp @ [NL]) pr in
     bindE (f_read fc temp buf 5 pr) (\<lambda>(_, pr).
     bindE (umemset0 buf 1024 pr) (\<lambda>pr.
     bindE (umemcpy buf text17 pr) (\<lambda>pr.
     bindE (f_write fc temp buf 17 pr) (\<lambda>(ret, pr).
     bindE (f_close fc temp pr) (\<lambda>(_, pr).
     bindE (say_string (''ret val '' @ sprintf_d ret @ [NL] @ buf_is) buf pr) (\<lambda>pr.
     bindE (bindE (f_link fc ''normal.txt'' ''normal2.txt.protected'' pr) (say_result ''return value link is '')) (\<lambda>pr.
     bindE (bindE (f_unlink fc ''normal2.txt.protected'' pr) (say_result ''return value unlink is '')) (\<lambda>pr.
     bindE (bindE (f_mkdir fc ''aboutToDelete'' 644 pr) (say_result ''return value mkdir is '')) (\<lambda>pr.
     bindE (f_rmdir fc ''aboutToDelete'' pr) (say_result ''return value rmdir is '')))))))))))"

definition code_session ::
  "allocator \<Rightarrow> 'a ioctl_state_scheme user_proc file_calls \<Rightarrow> cint \<Rightarrow> addr \<Rightarrow> addr \<Rightarrow> addr
   \<Rightarrow> 'a ioctl_state_scheme user_proc \<Rightarrow> 'a ioctl_state_scheme user_proc cres" where
  "code_session km fc file_desc buf vec_name pid_buf pr =
     bindE (user_ioctl km file_desc IOCTL_SET vec_name pr) (\<lambda>(_, pr).
     bindE (user_ioctl km file_desc IOCTL_SHOW_MINE buf pr) (\<lambda>(_, pr).
     bindE (say_buf buf pr) (\<lambda>pr.
     bindE (umemset0 buf 1024 pr) (\<lambda>pr.
     let pr = say (''My vec id '' @ sprintf_d (fst (u_pid_n_buf (user_view (umem pr)) pid_buf)) @ [NL]) pr in
     bindE (user_ioctl km file_desc IOCTL_VECTOR_FOR_PID pid_buf pr) (\<lambda>(_, pr).
     bindE (say_buf (snd (u_pid_n_buf (user_view (umem pr)) pid_buf)) pr) (\<lambda>pr.
     bindE (umemset0 buf 1024 pr) (\<lambda>pr.
     bindE (code_files fc buf pr) (\<lambda>pr.
     bindE (user_ioctl km file_desc IOCTL_REMOVE vec_name pr) (\<lambda>(_, pr).
     bindE (f_open fc ''Makefile'' O_RDONLY pr) (\<lambda>(temp, pr).
     bindE (f_close fc temp pr) (\<lambda>(_, pr).
     bindE (user_ioctl km file_desc IOCTL_SHOW_MINE buf pr) (\<lambda>(_, pr).
     bindE (say_buf buf pr) (\<lambda>pr.
     bindE (f_close fc file_desc pr) (\<lambda>(_, pr). Inr pr))))))))))))))"

text \<open>\<open>buf\<close> and \<open>vec_name\<close> are arrays on the stack, the first with the bytes \<open>junk\<close>.\<close>

definition user_code_main ::
  "user_env \<Rightarrow> allocator \<Rightarrow> 'a ioctl_state_scheme user_proc file_calls \<Rightarrow> addr \<Rightarrow> addr \<Rightarrow> char list
   \<Rightarrow> 'a ioctl_state_scheme user_proc \<Rightarrow> 'a ioctl_state_scheme user_proc cres" where
  "user_code_main e km fc buf vec_name junk pr =
     (let pr = pr\<lparr>umem := (umem pr)(buf \<mapsto> Bytes junk, vec_name \<mapsto> Bytes (''Vector3'' @ [NUL]))\<rparr>;
          (pid_buf, pr) = umalloc e 16 pr in
      bindE (ustore_pid_n_buf pid_buf (own_pid e) buf pr) (\<lambda>pr.
      bindE (f_open fc device_path O_RDONLY pr) (\<lambda>(file_desc, pr).
      bindE (user_ioctl km file_desc IOCTL_SHOW_ALL buf pr) (\<lambda>(_, pr).
      bindE (say_buf buf pr) (\<lambda>pr.
      bindE (umemset0 buf 1024 pr) (\<lambda>pr.
      bindE (code_session km fc file_desc buf vec_name pid_buf pr) (\<lambda>pr.
      Inr (pr\<lparr>umem := (umem pr)(buf := None, vec_name := None)\<rparr>))))))))"

section \<open>The run of \<open>user_write.c\<close>\<close>

lemma write_files_kept:
  assumes files: "files_apart opens fc" and buf: "buf \<noteq> 0" and at: "at_point 1024 m buf C k pr"
  shows "returns (at_point 1024 m buf terminated k) (write_files fc temp buf pr)"
proof -
  note f = files_apartD(3-8) [OF files]
  have start: "at_point 1024 m buf C k (say (''file id is '' @ sprintf_d temp @ [NL]) pr)" using at by simp
  show ?thesis
    unfolding write_files_def Let_def
    by (rule returns_then [OF step_memset [OF buf start]],
        rule returns_then [OF step_text17 [OF buf]], assumption,
        rule returns_call [OF step_file [OF f(2)]], assumption,
        rule returns_call [OF step_file [OF f(1)]], simp only: at_point_say,
        rule returns_then [OF step_say_string [OF buf]], assumption, assumption,
        rule returns_then [OF step_result [OF f(3)]], assumption,
        rule returns_then [OF step_result [OF f(4)]], assumption,
        rule returns_then [OF step_result [OF f(5)]], assumption,
        rule step_result [OF f(6)])
qed

lemma write_session_run:
  assumes files: "files_apart opens fc" and buf: "buf \<noteq> 0" and call: "can_call km b fd k" and plain: "plain_names k"
    and at: "at_point 1024 m buf C k pr" and p: "m p = Some (Bytes (''Vector4'' @ [NUL]))" "p \<noteq> buf"
    and i: "name_index ''Vector4'' k = Some i" "overriddenSyscalls_address (vec_list k ! i) = a" "a \<noteq> 0"
    and r: "0 \<le> sint (refcount (vec_list k ! i))"
  shows "returns (\<lambda>pr'. \<exists>k'. ends_free m buf k' pr' \<and> heap k' = heap k \<and> vec_list k' = vec_list k
    \<and> vector_info k' = (vector_info k)(current k \<mapsto> 0)) (write_session km fc fd temp buf p pr)" (is "returns ?P _")
proof (rule step_set [OF call plain at p(1,2) _ _ _ i(1-3)])
  fix x k1 pr1
  assume set: "user_ioctl km fd IOCTL_SET p pr = Inr (x, pr1)" and at1: "at_point 1024 m buf C k1 pr1" and call1: "can_call km b fd k1"
    and k1: "heap k1 = heap k" "vec_list k1 = vec_list (add_refcount i 1 k)"
      "vector_info k1 = (vector_info k)(current k \<mapsto> a)" "current k1 = current k"
  note again = taken_and_left [OF i(1) r k1(2-4)]
  have tail: "returns ?P (bindE (user_ioctl km fd IOCTL_REMOVE p pr2) (\<lambda>(_, pr).
     bindE (f_open fc ''Makefile'' O_RDONLY pr) (\<lambda>(temp, pr).
     bindE (f_close fc temp pr) (\<lambda>(_, pr).
     bindE (umemset0 buf 1024 pr) (\<lambda>pr.
     bindE (user_ioctl km fd IOCTL_SHOW_MINE buf pr) (\<lambda>(_, pr).
     bindE (say_buf buf pr) (\<lambda>pr.
     bindE (f_close fc fd pr) (\<lambda>(_, pr). Inr pr))))))))" if at2: "at_point 1024 m buf terminated k1 pr2" for pr2
  proof (rule step_remove [OF call1 at2 p(1,2) _ _ _ again(1,2)])
    fix x k2 pr3
    assume rem: "user_ioctl km fd IOCTL_REMOVE p pr2 = Inr (x, pr3)" and at3: "at_point 1024 m buf terminated k2 pr3" and call2: "can_call km b fd k2"
      and k2: "heap k2 = heap k1" "vec_list k2 = vec_list (add_refcount i (- 1) k1)" "current k2 = current k1"
        "vector_info k2 = (if sint (refcount (vec_list k ! i)) < 0 then vector_info k1 else (vector_info k1)(current k1 \<mapsto> 0))"
    note left = again(3) [OF k2(2-4)]
    then have P: "ends_free m buf k2 pr' \<Longrightarrow> ?P pr'" for pr' using k2(1) k1(1) by auto
    have "returns (ends_free m buf k2) (bindE (f_open fc ''Makefile'' O_RDONLY pr3) (\<lambda>(temp, pr).
     bindE (f_close fc temp pr) (\<lambda>(_, pr).
     bindE (umemset0 buf 1024 pr) (\<lambda>pr.
     bindE (user_ioctl km fd IOCTL_SHOW_MINE buf pr) (\<lambda>(_, pr).
     bindE (say_buf buf pr) (\<lambda>pr.
     bindE (f_close fc fd pr) (\<lambda>(_, pr). Inr pr)))))))"
      by (rule returns_call [OF step_file [OF files_apartD(2) [OF files] at3]],
          rule returns_call [OF step_file [OF files_apartD(3) [OF files]]], assumption,
          rule returns_then [OF step_memset [OF buf]], assumption,
          rule step_last_words [OF files call2 buf])
        (use left in blast)+
    then show ?thesis unfolding rem bindE_Inr case_prod_conv by (rule returnsE) (use P in auto)
  qed (simp_all add: terminated_def)
  show "returns ?P (write_session km fc fd temp buf p pr)"
    unfolding write_session_def set bindE_Inr case_prod_conv
    by (rule returns_call [OF step_show_mine [OF call1 buf at1 refl]],
        unfold say_buf_def, rule returns_then [OF step_say_string [OF buf]], assumption, simp only: holds_text_def,
        fold say_buf_def, rule returns_then [OF step_memset [OF buf]], assumption,
        rule returns_then [OF write_files_kept [OF files buf]], assumption, rule tail)
qed (simp_all add: terminated_def)

text \<open>What the program leaves: \<open>opened\<close> tells whether its file could be opened.\<close>

definition write_leaves :: "bool \<Rightarrow> nat \<Rightarrow> 'a ioctl_state_scheme \<Rightarrow> 'a ioctl_state_scheme \<Rightarrow> string \<Rightarrow> bool" where
  "write_leaves opened i k k' t \<longleftrightarrow> heap k' = heap k \<and>
     (if opened
      then vec_list k' = vec_list k \<and> vector_info k' = (vector_info k)(current k \<mapsto> 0)
        \<and> t = buf_is @ ''vector not assigned'' @ [NL]
      else vec_list k' = vec_list (add_refcount i (- 1) k)
        \<and> vector_info k' = (if sint (refcount (vec_list k ! i) - 1) < 0 then vector_info k
            else (vector_info k)(current k \<mapsto> 0))
        \<and> t = ''file not opened'' @ [NL])"

lemma write_leaves_same:
  "same_device k' k2 \<Longrightarrow> write_leaves opened i k k' t \<Longrightarrow> write_leaves opened i k k2 t"
  by (simp add: write_leaves_def same_device_def)

lemma user_write_middle:
  assumes files: "files_apart opens fc" and buf: "buf \<noteq> 0" and call: "can_call km b fd k" and plain: "plain_names k"
    and at: "at_point 1024 m buf C k pr" and p: "m p = Some (Bytes (''Vector4'' @ [NUL]))" "p \<noteq> buf"
    and i: "name_index ''Vector4'' k = Some i" "overriddenSyscalls_address (vec_list k ! i) = a" "a \<noteq> 0"
    and r: "0 \<le> sint (refcount (vec_list k ! i))" and temp: "0 \<le> sint temp \<longleftrightarrow> opened"
  shows "returns (\<lambda>pr'. \<exists>C k'. at_point 1024 m buf C k' pr' \<and> write_leaves opened i k k' (last (outs pr')))
    (if sint temp < 0 then
       bindE (user_ioctl km fd IOCTL_REMOVE p pr) (\<lambda>(_, pr). Inr (say (''file not opened'' @ [NL]) pr))
     else write_session km fc fd temp buf p pr)" (is "returns ?P _")
proof (cases "sint temp < 0")
  case True
  then have "\<not> opened" using temp by simp
  have "returns ?P (bindE (user_ioctl km fd IOCTL_REMOVE p pr) (\<lambda>(_, pr). Inr (say (''file not opened'' @ [NL]) pr)))"
  proof (rule step_remove [OF call at p _ _ _ i(1) refl])
    fix x k2 pr2
    assume run: "user_ioctl km fd IOCTL_REMOVE p pr = Inr (x, pr2)" and at2: "at_point 1024 m buf C k2 pr2"
      and k2: "heap k2 = heap k" "vec_list k2 = vec_list (add_refcount i (- 1) k)"
        "vector_info k2 = (if sint (refcount (vec_list k ! i) - 1) < 0 then vector_info k else (vector_info k)(current k \<mapsto> 0))"
    have "write_leaves opened i k k2 (''file not opened'' @ [NL])" using k2 \<open>\<not> opened\<close> by (simp add: write_leaves_def)
    moreover have "at_point 1024 m buf C k2 (say (''file not opened'' @ [NL]) pr2)" unfolding at_point_say by (rule at2)
    moreover have "last (outs (say (''file not opened'' @ [NL]) pr2)) = ''file not opened'' @ [NL]" by simp
    ultimately show ?thesis unfolding run bindE_Inr case_prod_conv returns_Inr by metis
  qed (simp_all add: terminated_def)
  then show ?thesis using True by (simp only: if_True)
next
  case False
  then have o: "opened" using temp by simp
  have "returns ?P (write_session km fc fd temp buf p pr)"
    using write_session_run [OF files buf call plain at p i r, of temp] o
    unfolding returns_def ends_free_def write_leaves_def by fastforce
  then show ?thesis using False by (simp only: if_False)
qed

lemma user_write_body:
  assumes files: "files_apart opens fc" "opens device_path" and buf: "buf \<noteq> 0" "m buf = None" and call: "can_call km b 0 k"
    and plain: "plain_names k" and at: "at_point 1024 m buf (\<lambda>_. True) k pr"
    and p: "m p = Some (Bytes (''Vector4'' @ [NUL]))" "p \<noteq> buf"
    and i: "name_index ''Vector4'' k = Some i" "overriddenSyscalls_address (vec_list k ! i) = a" "a \<noteq> 0"
    and r: "0 \<le> sint (refcount (vec_list k ! i))"
  shows "returns (\<lambda>pr'. umem pr' = m \<and> write_leaves (opens ''normal.txt'') i k (kern pr') (last (outs pr')))
    (bindE (f_open fc device_path O_RDONLY pr) (\<lambda>(file_desc, pr).
     bindE (umemset0 buf 1024 pr) (\<lambda>pr.
     bindE (user_ioctl km file_desc IOCTL_SHOW_ALL buf pr) (\<lambda>(_, pr).
     bindE (say_buf buf pr) (\<lambda>pr.
     bindE (umemset0 buf 1024 pr) (\<lambda>pr.
     bindE (f_open fc ''normal.txt'' (O_RDWR + O_TRUNC + O_CREAT) pr) (\<lambda>(temp, pr).
     bindE
       (if sint temp < 0 then
          bindE (user_ioctl km file_desc IOCTL_REMOVE p pr) (\<lambda>(_, pr). Inr (say (''file not opened'' @ [NL]) pr))
        else write_session km fc file_desc temp buf p pr) (\<lambda>pr.
     ufree buf pr))))))))" (is "returns ?Q _")
proof (rule returns_then [OF step_open [OF files(1) at]], clarify)
  fix fd :: cint and pr1 assume "(0 \<le> sint fd) = opens device_path" and at1: "at_point 1024 m buf (\<lambda>_. True) k pr1"
  then have call': "can_call km b fd k" using call files(2) by (simp add: can_call_def)
  have free: "returns ?Q (ufree buf q)"
    if q: "at_point 1024 m buf C k' q" "write_leaves (opens ''normal.txt'') i k k' (last (outs q))" for q C k'
  proof -
    have "same_device k' (kern q)" using q(1) by (simp add: at_point_def)
    from write_leaves_same [OF this q(2)] show ?thesis using at_point_free [OF buf q(1)] by simp
  qed
  let ?T = "\<lambda>(temp :: cint) pr. bindE (if sint temp < 0 then
       bindE (user_ioctl km fd IOCTL_REMOVE p pr) (\<lambda>(_, pr). Inr (say (''file not opened'' @ [NL]) pr))
     else write_session km fc fd temp buf p pr) (\<lambda>pr. ufree buf pr)"
  have rest: "returns ?Q (bindE (f_open fc ''normal.txt'' (O_RDWR + O_TRUNC + O_CREAT) q) (\<lambda>(temp, pr). ?T temp pr))"
    if at2: "at_point 1024 m buf (zeroed 1024) k q" for q
    by (rule returns_then [OF step_open [OF files(1) at2]], clarify,
        rule returns_then [OF user_write_middle [where m = m, OF files(1) buf(1) call' plain _ p i r]], assumption, assumption,
        elim exE conjE, rule free)
  show "returns ?Q (bindE (umemset0 buf 1024 pr1) (\<lambda>pr.
     bindE (user_ioctl km fd IOCTL_SHOW_ALL buf pr) (\<lambda>(_, pr).
     bindE (say_buf buf pr) (\<lambda>pr.
     bindE (umemset0 buf 1024 pr) (\<lambda>pr.
     bindE (f_open fc ''normal.txt'' (O_RDWR + O_TRUNC + O_CREAT) pr) (\<lambda>(temp, pr). ?T temp pr))))))"
    unfolding say_buf_def
    by (rule returns_then [OF step_memset [OF buf(1) at1]], rule returns_call [OF step_show_all [OF call' buf(1)]], assumption,
        rule returns_then [OF step_say_string [OF buf(1)]], assumption, simp only: holds_text_def,
        rule returns_then [OF step_memset [OF buf(1)]], assumption, rule rest)
qed

lemma user_write_main_run:
  assumes files: "files_apart opens fc" "opens device_path" and call: "can_call km b 0 (kern pr)"
    and plain: "plain_names (kern pr)" and mem: "malloc_ok e" "malloc_roomy c e" "card (dom (umem pr)) + 2 \<le> c"
    and p: "umem pr p = None"
    and i: "name_index ''Vector4'' (kern pr) = Some i" "overriddenSyscalls_address (vec_list (kern pr) ! i) = a" "a \<noteq> 0"
    and r: "0 \<le> sint (refcount (vec_list (kern pr) ! i))"
  shows "\<exists>pr'. user_write_main e km fc p pr = Inr pr' \<and> umem pr' = umem pr
    \<and> write_leaves (opens ''normal.txt'') i (kern pr) (kern pr') (last (outs pr'))"
proof -
  let ?m = "(umem pr)(p \<mapsto> Bytes (''Vector4'' @ [NUL]))"
  obtain buf where buf: "buf = malloc e 1024 ?m" by simp
  have "card (dom ?m) < c" using mem(3) p by (simp add: domIff card_insert_if)
  note z = zeroed_malloc [OF mem(1,2) this buf]
  have mp: "?m p = Some (Bytes (''Vector4'' @ [NUL]))" "p \<noteq> buf" using z(2) by auto
  let ?p1 = "pr\<lparr>umem := ?m(buf \<mapsto> Bytes (fresh_bytes e 1024))\<rparr>"
  have alloc: "umalloc e 1024 (pr\<lparr>umem := ?m\<rparr>) = (buf, ?p1)" using z(4) [of "pr\<lparr>umem := ?m\<rparr>"] by simp
  have at: "at_point 1024 ?m buf (\<lambda>_. True) (kern pr) ?p1"
    using mem(1) by (auto simp: at_point_def BUF_LEN_def malloc_ok_def same_device_refl)
  have "?m(p := None) = umem pr" using p by auto
  then have "returns (\<lambda>pr'. umem pr' = umem pr \<and> write_leaves (opens ''normal.txt'') i (kern pr) (kern pr') (last (outs pr')))
    (user_write_main e km fc p pr)"
    unfolding user_write_main_def Let_def alloc case_prod_conv if_not_P [OF z(1)]
    by (intro returns_then [OF user_write_body [OF files z(1,2) call plain at mp i r]]) (simp del: fun_upd_apply)
  then show ?thesis by (simp add: returns_def)
qed

section \<open>The run of \<open>user_code.c\<close>\<close>

lemma code_files_kept:
  assumes files: "files_apart opens fc" "reads_into fc" and buf: "buf \<noteq> 0" and at: "at_point 1024 m buf C k pr"
  shows "returns (at_point 1024 m buf terminated k) (code_files fc buf pr)"
proof -
  note f = files_apartD(3-8) [OF files(1)]
  show ?thesis
    unfolding code_files_def Let_def
    by (rule returns_call [OF step_file [OF files_apartD(2) [OF files(1)] at]],
        rule returns_call [OF step_read [OF files(2)]], simp only: at_point_say, simp,
        rule returns_then [OF step_memset [OF buf]], assumption,
        rule returns_then [OF step_text17 [OF buf]], assumption,
        rule returns_call [OF step_file [OF f(2)]], assumption,
        rule returns_call [OF step_file [OF f(1)]], assumption,
        rule returns_then [OF step_say_string [OF buf]], assumption, assumption,
        rule returns_then [OF step_result [OF f(3)]], assumption,
        rule returns_then [OF step_result [OF f(4)]], assumption,
        rule returns_then [OF step_result [OF f(5)]], assumption,
        rule step_result [OF f(6)])
qed

lemma code_session_run:
  assumes files: "files_apart opens fc" "reads_into fc" and buf: "buf \<noteq> 0" and call: "can_call km b fd k" and plain: "plain_names k"
    and at: "at_point 1024 m buf C k pr" and p: "m p = Some (Bytes (''Vector3'' @ [NUL]))" "p \<noteq> buf"
    and pb: "m pb = Some (Pid_n_buf me buf)" "pb \<noteq> buf" and me: "me = current k"
    and i: "name_index ''Vector3'' k = Some i" "overriddenSyscalls_address (vec_list k ! i) = a" "a \<noteq> 0"
    and r: "0 \<le> sint (refcount (vec_list k ! i))"
  shows "returns (\<lambda>pr'. \<exists>k'. ends_free m buf k' pr' \<and> heap k' = heap k \<and> vec_list k' = vec_list k
    \<and> vector_info k' = (vector_info k)(current k \<mapsto> 0)) (code_session km fc fd buf p pb pr)" (is "returns ?P _")
proof (rule step_set [OF call plain at p(1,2) _ _ _ i(1-3)])
  fix x k1 pr1
  assume set: "user_ioctl km fd IOCTL_SET p pr = Inr (x, pr1)" and at1: "at_point 1024 m buf C k1 pr1" and call1: "can_call km b fd k1"
    and k1: "heap k1 = heap k" "vec_list k1 = vec_list (add_refcount i 1 k)"
      "vector_info k1 = (vector_info k)(current k \<mapsto> a)" "current k1 = current k"
  note again = taken_and_left [OF i(1) r k1(2-4)]
  have v: "vector_info k1 me = Some a" using k1(3) me by simp
  have tail: "returns ?P (bindE (user_ioctl km fd IOCTL_REMOVE p pr2) (\<lambda>(_, pr).
     bindE (f_open fc ''Makefile'' O_RDONLY pr) (\<lambda>(temp, pr).
     bindE (f_close fc temp pr) (\<lambda>(_, pr).
     bindE (user_ioctl km fd IOCTL_SHOW_MINE buf pr) (\<lambda>(_, pr).
     bindE (say_buf buf pr) (\<lambda>pr.
     bindE (f_close fc fd pr) (\<lambda>(_, pr). Inr pr)))))))" if at2: "at_point 1024 m buf terminated k1 pr2" for pr2
  proof (rule step_remove [OF call1 at2 p(1,2) _ _ _ again(1,2)])
    fix x k2 pr3
    assume rem: "user_ioctl km fd IOCTL_REMOVE p pr2 = Inr (x, pr3)" and at3: "at_point 1024 m buf terminated k2 pr3" and call2: "can_call km b fd k2"
      and k2: "heap k2 = heap k1" "vec_list k2 = vec_list (add_refcount i (- 1) k1)" "current k2 = current k1"
        "vector_info k2 = (if sint (refcount (vec_list k ! i)) < 0 then vector_info k1 else (vector_info k1)(current k1 \<mapsto> 0))"
    note left = again(3) [OF k2(2-4)]
    then have P: "ends_free m buf k2 pr' \<Longrightarrow> ?P pr'" for pr' using k2(1) k1(1) by auto
    have "returns (ends_free m buf k2) (bindE (f_open fc ''Makefile'' O_RDONLY pr3) (\<lambda>(temp, pr).
     bindE (f_close fc temp pr) (\<lambda>(_, pr).
     bindE (user_ioctl km fd IOCTL_SHOW_MINE buf pr) (\<lambda>(_, pr).
     bindE (say_buf buf pr) (\<lambda>pr.
     bindE (f_close fc fd pr) (\<lambda>(_, pr). Inr pr))))))"
      by (rule returns_call [OF step_file [OF files_apartD(2) [OF files(1)] at3]],
          rule returns_call [OF step_file [OF files_apartD(3) [OF files(1)]]], assumption,
          rule step_last_words [OF files(1) call2 buf])
        (use left in blast)+
    then show ?thesis unfolding rem bindE_Inr case_prod_conv by (rule returnsE) (use P in auto)
  qed (simp_all add: terminated_def)
  have say_pid: "returns (at_point 1024 m buf (holds_text t) k1) (say_buf (snd (u_pid_n_buf (user_view (umem pr)) pb)) pr)"
    if "at_point 1024 m buf (holds_text t) k1 pr" for pr t
    unfolding at_point_pid [OF that pb] snd_conv say_buf_def
    by (rule step_say_string [OF buf that]) (simp add: holds_text_def)
  show "returns ?P (code_session km fc fd buf p pb pr)"
    unfolding code_session_def set bindE_Inr case_prod_conv Let_def
    by (rule returns_call [OF step_show_mine [OF call1 buf at1 refl]],
        unfold say_buf_def, rule returns_then [OF step_say_string [OF buf]], assumption, simp only: holds_text_def,
        fold say_buf_def, rule returns_then [OF step_memset [OF buf]], assumption,
        rule returns_call [OF step_show_pid [where m = m, OF call1 buf _ pb v]], simp only: at_point_say, rule refl,
        rule returns_then [OF say_pid], assumption,
        rule returns_then [OF step_memset [OF buf]], assumption,
        rule returns_then [OF code_files_kept [OF files buf]], assumption, rule tail)
qed (simp_all add: terminated_def)

text \<open>The end of \<open>main\<close>: its two arrays are gone.\<close>

lemma code_stack_gone:
  assumes q: "ends_free (um(p \<mapsto> x, pb \<mapsto> y)) buf k' q" and stack: "um buf = None" "um p = None" "buf \<noteq> p"
    and pb: "pb \<noteq> buf" "pb \<noteq> p"
  shows "(umem q)(buf := None, p := None) = um(pb \<mapsto> y)" and "heap (kern q) = heap k'" and "vec_list (kern q) = vec_list k'"
    and "vector_info (kern q) = vector_info k'" and "last (outs q) = buf_is @ ''vector not assigned'' @ [NL]"
proof -
  from q obtain bs where u: "umem q = um(p \<mapsto> x, pb \<mapsto> y, buf \<mapsto> Bytes bs)" and d: "same_device k' (kern q)"
    by (auto simp: ends_free_def at_point_def)
  show "(umem q)(buf := None, p := None) = um(pb \<mapsto> y)"
    unfolding u using stack pb by (auto simp: fun_eq_iff)
  show "heap (kern q) = heap k'" "vec_list (kern q) = vec_list k'" "vector_info (kern q) = vector_info k'"
    using d by (simp_all add: same_device_def)
  show "last (outs q) = buf_is @ ''vector not assigned'' @ [NL]" using q by (simp add: ends_free_def)
qed

lemma user_code_main_run:
  assumes files: "files_apart opens fc" "reads_into fc" "opens device_path" and call: "can_call km b 0 (kern pr)"
    and plain: "plain_names (kern pr)" and mem: "malloc_ok e" "malloc_roomy c e" "card (dom (umem pr)) + 3 \<le> c"
    and stack: "umem pr buf = None" "umem pr p = None" "buf \<noteq> p" "buf \<noteq> 0" "length junk = 1024"
    and me: "own_pid e = current (kern pr)"
    and i: "name_index ''Vector3'' (kern pr) = Some i" "overriddenSyscalls_address (vec_list (kern pr) ! i) = a" "a \<noteq> 0"
    and r: "0 \<le> sint (refcount (vec_list (kern pr) ! i))"
  shows "\<exists>pr' pb. user_code_main e km fc buf p junk pr = Inr pr' \<and> umem pr pb = None
    \<and> umem pr' = (umem pr)(pb \<mapsto> Pid_n_buf (own_pid e) buf) \<and> heap (kern pr') = heap (kern pr)
    \<and> vec_list (kern pr') = vec_list (kern pr) \<and> vector_info (kern pr') = (vector_info (kern pr))(current (kern pr) \<mapsto> 0)
    \<and> last (outs pr') = buf_is @ ''vector not assigned'' @ [NL]"
proof -
  let ?k = "kern pr" and ?ms = "(umem pr)(buf \<mapsto> Bytes junk, p \<mapsto> Bytes (''Vector3'' @ [NUL]))"
  obtain pb where pb: "pb = malloc e 16 ?ms" by simp
  have "card (dom ?ms) < c" using mem(3) stack(1-3) by (simp add: domIff card_insert_if)
  note z = zeroed_malloc [OF mem(1,2) this pb]
  have free: "pb \<noteq> buf" "pb \<noteq> p" "umem pr pb = None" using z(2) by (auto split: if_splits)
  let ?m = "(umem pr)(p \<mapsto> Bytes (''Vector3'' @ [NUL]), pb \<mapsto> Pid_n_buf (own_pid e) buf)"
  let ?p1 = "pr\<lparr>umem := ?ms(pb \<mapsto> Pid_n_buf (own_pid e) buf)\<rparr>"
  have alloc: "umalloc e 16 (pr\<lparr>umem := ?ms\<rparr>) = (pb, pr\<lparr>umem := ?ms(pb \<mapsto> Bytes (fresh_bytes e 16))\<rparr>)"
    using z(4) [where pr = "pr\<lparr>umem := ?ms\<rparr>"] by simp
  have store: "ustore_pid_n_buf pb (own_pid e) buf (pr\<lparr>umem := ?ms(pb \<mapsto> Bytes (fresh_bytes e 16))\<rparr>) = Inr ?p1"
    using z(1) by (simp add: ustore_pid_n_buf_def)
  have m: "?m p = Some (Bytes (''Vector3'' @ [NUL]))" "?m pb = Some (Pid_n_buf (own_pid e) buf)" using free by simp_all
  have "?ms(pb \<mapsto> Pid_n_buf (own_pid e) buf) = ?m(buf \<mapsto> Bytes junk)"
    using free(1,2) stack(3) by (auto simp: fun_eq_iff)
  then have at: "at_point 1024 ?m buf (\<lambda>_. True) ?k ?p1"
    using stack(5) by (auto simp: at_point_def BUF_LEN_def same_device_refl)
  let ?fin = "\<lambda>pr. pr\<lparr>umem := (umem pr)(buf := None, p := None)\<rparr>"
  let ?Q = "\<lambda>pr'. umem pr' = (umem pr)(pb \<mapsto> Pid_n_buf (own_pid e) buf) \<and> heap (kern pr') = heap ?k
    \<and> vec_list (kern pr') = vec_list ?k \<and> vector_info (kern pr') = (vector_info ?k)(current ?k \<mapsto> 0)
    \<and> last (outs pr') = buf_is @ ''vector not assigned'' @ [NL]"
  have finish: "?Q (?fin q)" if q: "ends_free ?m buf k' q" "heap k' = heap ?k" "vec_list k' = vec_list ?k"
      "vector_info k' = (vector_info ?k)(current ?k \<mapsto> 0)" for q k'
    using code_stack_gone [OF q(1) stack(1-3) free(1,2)] q(2-4) by simp
  have "returns ?Q (bindE (f_open fc device_path O_RDONLY ?p1) (\<lambda>(fd, pr).
      bindE (user_ioctl km fd IOCTL_SHOW_ALL buf pr) (\<lambda>(_, pr).
      bindE (say_buf buf pr) (\<lambda>pr.
      bindE (umemset0 buf 1024 pr) (\<lambda>pr. bindE (code_session km fc fd buf p pb pr) (\<lambda>pr. Inr (?fin pr)))))))"
  proof (rule returns_then [OF step_open [OF files(1) at]], clarify)
    fix fd :: cint and pr1 assume "(0 \<le> sint fd) = opens device_path" and at1: "at_point 1024 ?m buf (\<lambda>_. True) ?k pr1"
    then have call': "can_call km b fd ?k" using call files(3) by (simp add: can_call_def)
    have last: "returns ?Q (bindE (code_session km fc fd buf p pb q) (\<lambda>pr. Inr (?fin pr)))" if at2: "at_point 1024 ?m buf (zeroed 1024) ?k q" for q
    proof (rule returns_then [OF code_session_run [OF files(1,2) stack(4) call' plain at2 m(1) _ m(2) _ me i r]])
      show "p \<noteq> buf" "pb \<noteq> buf" using stack(3) free by auto
    qed (elim exE conjE, unfold returns_Inr, rule finish)
    show "returns ?Q (bindE (user_ioctl km fd IOCTL_SHOW_ALL buf pr1) (\<lambda>(_, pr).
      bindE (say_buf buf pr) (\<lambda>pr.
      bindE (umemset0 buf 1024 pr) (\<lambda>pr. bindE (code_session km fc fd buf p pb pr) (\<lambda>pr. Inr (?fin pr))))))"
      unfolding say_buf_def
      by (rule returns_call [OF step_show_all [OF call' stack(4) at1]],
          rule returns_then [OF step_say_string [OF stack(4)]], assumption, simp only: holds_text_def,
          rule returns_then [OF step_memset [OF stack(4)]], assumption, rule last)
  qed
  then have "returns ?Q (user_code_main e km fc buf p junk pr)"
    unfolding user_code_main_def Let_def alloc case_prod_conv store bindE_Inr .
  with free(3) show ?thesis unfolding returns_def by blast
qed

end
