(* ===== verification/Test_Programs.thy ===== *)
theory Test_Programs
  imports File_Calls
begin

text \<open>
  \<open>test_vector1.c\<close> and \<open>test_vector2.c\<close> of \<open>demo\<close>: a program that takes a vector, looks at it, makes file
  calls under it and ends. Neither asks to leave its vector.
\<close>

section \<open>The programs\<close>

text \<open>
  The lines both have: take the vector and show it. \<open>False\<close> is the \<open>goto out\<close> after a failure.
\<close>

definition test_take ::
  "user_env \<Rightarrow> allocator \<Rightarrow> cint \<Rightarrow> addr \<Rightarrow> addr \<Rightarrow> 'a ioctl_state_scheme user_proc
   \<Rightarrow> (bool \<times> 'a ioctl_state_scheme user_proc) cres" where
  "test_take e km fd buf vec_name pr =
     bindE (reporting_ioctl ''failed to set my vector :'' ''ERROR'' IOCTL_SET e km fd vec_name pr) (\<lambda>(ret, pr).
     if sint ret < 0 then Inr (False, pr)
     else
       bindE (reporting_ioctl ''failed to get my vector :'' ''ERROR'' IOCTL_SHOW_MINE e km fd buf pr) (\<lambda>(ret, pr).
       if sint ret < 0 then Inr (False, pr)
       else
         bindE (say_string ''my vector is : '' buf pr) (\<lambda>pr.
         bindE (umemset0 buf 1024 pr) (\<lambda>pr. Inr (True, pr)))))"

text \<open>The file calls; the descriptor that \<open>out\<close> closes again.\<close>

definition test1_files :: "'k user_proc file_calls \<Rightarrow> addr \<Rightarrow> 'k user_proc \<Rightarrow> (cint \<times> 'k user_proc) cres" where
  "test1_files fc buf pr =
     bindE (f_open fc ''test.txt'' O_RDWR pr) (\<lambda>(fd, pr).
     let pr = say (''file id is '' @ sprintf_d fd @ [NL]) pr in
     if sint fd < 0 then Inr (fd, say (''couldn't open...Sorry '' @ [NL]) pr)
     else
       bindE (f_read fc fd buf 5 pr) (\<lambda>(ret, pr).
       bindE (say_string (''read bytes: '' @ sprintf_d ret @ [NL] @ '', read data : '' @ [NL]) buf pr) (\<lambda>pr.
       bindE (umemset0 buf 1024 pr) (\<lambda>pr.
       bindE (umemcpy buf text17 pr) (\<lambda>pr.
       bindE (f_write fc fd buf 17 pr) (\<lambda>(ret, pr).
       bindE (say_string (''write bytes: '' @ sprintf_d ret @ [NL] @ '', write data : '' @ [NL]) buf pr) (\<lambda>pr.
       bindE (f_close fc fd pr) (\<lambda>(_, pr).
       let pr = say (''file closed'' @ [NL]) pr in
       bindE (bindE (f_link fc ''normal.txt'' ''normal.protected'' pr) (say_result ''link returned : '')) (\<lambda>pr.
       bindE (bindE (f_unlink fc ''normal.protected'' pr) (say_result ''unlink returned: '')) (\<lambda>pr.
       Inr (fd, say (''Successfully tested Vector 55'' @ [NL]) pr)))))))))))"

definition test_vector1_main ::
  "user_env \<Rightarrow> allocator \<Rightarrow> 'a ioctl_state_scheme user_proc file_calls \<Rightarrow> addr \<Rightarrow> addr \<Rightarrow> char list
   \<Rightarrow> 'a ioctl_state_scheme user_proc \<Rightarrow> 'a ioctl_state_scheme user_proc cres" where
  "test_vector1_main e km fc buf vec_name junk pr =
     (let pr = pr\<lparr>umem := (umem pr)(buf \<mapsto> Bytes junk)\<rparr> in
      bindE
        (bindE (f_open fc device_path O_RDONLY pr) (\<lambda>(fd, pr).
         bindE (umemset0 buf 1024 pr) (\<lambda>pr.
         bindE (test_take e km fd buf vec_name pr) (\<lambda>(taken, pr).
         bindE (if taken then bindE (f_close fc fd pr) (\<lambda>(_, pr). test1_files fc buf pr) else Inr (fd, pr)) (\<lambda>(fd, pr).
         bindE (f_close fc fd pr) (\<lambda>(_, pr). Inr pr))))))
        (\<lambda>pr. Inr (pr\<lparr>umem := (umem pr)(buf := None)\<rparr>)))"

text \<open>The second program tries three files.\<close>

definition O_APPEND :: nat where "O_APPEND = 1024"

definition test2_open :: "'k user_proc file_calls \<Rightarrow> 'k user_proc \<Rightarrow> (cint \<times> 'k user_proc) cres" where
  "test2_open fc pr =
     bindE (f_open fc ''/etc/passwd'' O_RDWR pr) (\<lambda>(fd, pr).
     let pr = say (''file id is '' @ sprintf_d fd @ [NL]) pr in
     bindE (if sint fd < 0 then f_open fc ''/etc/shadow'' O_RDWR (say (''changing file to /etc/shadow'' @ [NL]) pr)
            else Inr (fd, pr)) (\<lambda>(fd, pr).
     if sint fd < 0 then f_open fc ''normal.c'' (O_RDWR + O_APPEND) (say (''changing file to normal.c '' @ [NL]) pr)
     else Inr (fd, pr)))"

definition test2_files :: "'k user_proc file_calls \<Rightarrow> addr \<Rightarrow> 'k user_proc \<Rightarrow> (cint \<times> 'k user_proc) cres" where
  "test2_files fc buf pr =
     bindE (test2_open fc pr) (\<lambda>(fd, pr).
     if sint fd < 0 then Inr (fd, say (''still couldn't open...exiting'' @ [NL]) pr)
     else
       bindE (f_read fc fd buf 5 pr) (\<lambda>(ret, pr).
       bindE (umemset0 buf 1024 pr) (\<lambda>pr.
       bindE (umemcpy buf text17 pr) (\<lambda>pr.
       bindE (f_write fc fd buf 17 pr) (\<lambda>(ret, pr).
       bindE (f_close fc fd pr) (\<lambda>(_, pr).
       bindE (say_string (''ret val '' @ sprintf_d ret @ [NL] @ buf_is) buf pr) (\<lambda>pr.
       bindE (bindE (f_mkdir fc ''testDir'' 644 pr) (say_result ''mkdir returned : '')) (\<lambda>pr.
       bindE (bindE (f_rmdir fc ''testDir'' pr) (say_result ''rmmdir returned :'')) (\<lambda>pr.
       Inr (fd, pr))))))))))"

definition test_vector2_main ::
  "user_env \<Rightarrow> allocator \<Rightarrow> 'a ioctl_state_scheme user_proc file_calls \<Rightarrow> addr \<Rightarrow> addr \<Rightarrow> char list
   \<Rightarrow> 'a ioctl_state_scheme user_proc \<Rightarrow> 'a ioctl_state_scheme user_proc cres" where
  "test_vector2_main e km fc buf vec_name junk pr =
     (let pr = pr\<lparr>umem := (umem pr)(buf \<mapsto> Bytes junk, vec_name \<mapsto> Bytes (''Vector968'' @ [NUL]))\<rparr> in
      bindE
        (bindE (f_open fc device_path O_RDONLY pr) (\<lambda>(fd, pr).
         bindE (umemset0 buf 1024 pr) (\<lambda>pr.
         bindE (test_take e km fd buf vec_name pr) (\<lambda>(taken, pr).
         bindE (if taken then bindE (f_close fc fd pr) (\<lambda>(_, pr). test2_files fc buf pr) else Inr (fd, pr)) (\<lambda>(fd, pr).
         bindE (f_close fc fd pr) (\<lambda>(_, pr). Inr pr))))))
        (\<lambda>pr. Inr (pr\<lparr>umem := (umem pr)(buf := None, vec_name := None)\<rparr>)))"

section \<open>Reading\<close>

text \<open>\<open>read\<close> writes no more than the bytes it is given room for.\<close>

definition reads_at_most :: "'a ioctl_state_scheme user_proc file_calls \<Rightarrow> bool" where
  "reads_at_most fc \<longleftrightarrow> (\<forall>fd a n pr b. umem pr a = Some (Bytes b) \<longrightarrow> n \<le> length b \<longrightarrow>
     returns (\<lambda>x. \<exists>b'. length b' = n \<and> file_kept (pr\<lparr>umem := (umem pr)(a \<mapsto> Bytes (b' @ drop n b))\<rparr>) x)
       (f_read fc fd a n pr))"

lemma step_read_prefix:
  assumes reads: "reads_at_most fc" and at: "at_point 1024 m buf (zeroed 1024) k pr" and n: "n < 1024"
  shows "returns (\<lambda>(_, pr). at_point 1024 m buf terminated k pr) (f_read fc fd buf n pr)"
proof -
  from at have u: "umem pr = m(buf \<mapsto> Bytes (replicate 1024 NUL))" and d: "same_device k (kern pr)"
    by (auto simp: at_point_def zeroed_def)
  then obtain x b' where x: "f_read fc fd buf n pr = Inr x" "length b' = n"
    "file_kept (pr\<lparr>umem := (umem pr)(buf \<mapsto> Bytes (b' @ drop n (replicate 1024 NUL)))\<rparr>) x"
    using reads n unfolding reads_at_most_def returns_def
    by (metis fun_upd_same length_replicate less_imp_le)
  have "terminated (b' @ drop n (replicate 1024 NUL))" using n by (simp add: terminated_def)
  then have "at_point 1024 m buf terminated k (pr\<lparr>umem := (umem pr)(buf \<mapsto> Bytes (b' @ drop n (replicate 1024 NUL)))\<rparr>)"
    using at u d x(2) n by (auto simp: at_point_def)
  from at_point_kept [OF this x(3)] x(1) show ?thesis by (simp add: split_beta)
qed

section \<open>Taking the vector, or not\<close>

text \<open>A name that is not registered.\<close>

lemma asks_to_set_unknown:
  assumes call: "can_call km b fd (kern pr)"
    and q: "umem pr buf = Some (Bytes bs)" "terminated bs" "c_string bs = q" "length q < 256"
    and i: "name_index q (kern pr) = None"
  shows "\<exists>s'. user_ioctl km fd IOCTL_SET buf pr = Inr (- 1, pr\<lparr>kern := s', errno := 22\<rparr>) \<and> same_device (kern pr) s'"
proof (rule can_callE [OF call])
  let ?s = "(kern pr)\<lparr>user_out := Map.empty\<rparr>" and ?u = "user_view (umem pr)"
  assume c: "allocator_ok km" "roomy b km" "ioctl_ready ?s" "card (dom (heap ?s)) + 2 \<le> b"
    and fd: "0 \<le> sint fd"
  have u: "user_name ?u buf q" "not_copied ?u buf (length q) = 0"
    using q by (simp_all add: user_name_def)
  show ?thesis
  proof (rule named_command [OF c, of ?u IOCTL_SET buf "Suc (length q)"])
    fix a vn n
    let ?t = "?s\<lparr>mutexlock := True, tick := n, heap := (heap ?s)(a \<mapsto> Raw BUF_LEN)\<rparr>"
    let ?t1 = "?s\<lparr>mutexlock := True, tick := Suc n, heap := (heap ?s)(a \<mapsto> Raw BUF_LEN, vn \<mapsto> Raw (Suc (length q)))\<rparr>"
    let ?t2 = "module_put Mod_ioctl_module (try_module_get Mod_ioctl_module ?t1)"
    let ?c = "(leave Goto_free_vector_name (- EINVAL))\<lparr>c_vector_name := vn\<rparr>"
    assume run: "custom_ioctl km ?u IOCTL_SET buf ?s = bindE (ioctl_switch km ?u IOCTL_SET buf ?t) (\<lambda>(c, s). ioctl_end a c s)"
      and vn: "kmalloc km (Raw (Suc (length q))) ?t = (vn, ?t1)"
      and h: "heap ?s a = None" "heap ?s vn = None" "a \<noteq> vn" "a \<noteq> 0" "vn \<noteq> 0" and ok: "reg_ok ?t"
    have idx: "name_index q (try_module_get Mod_ioctl_module ?t1) = None" using i by (simp add: name_index_def)
    have "ioctl_switch km ?u IOCTL_SET buf ?t = Inr (?c, ?t2)"
      unfolding ioctl_switch_def if_True refl ioctl_set_eq [OF c(1) ok u(1)] vn Let_def case_prod_conv idx option.case
      using h(5) u(2) by simp
    moreover have "ioctl_end a ?c ?t2 = Inr (- EINVAL, ?t2\<lparr>heap := heap ?s, mutexlock := False\<rparr>)"
      by (rule ioctl_end_frees [OF h refl]) simp
    ultimately have r: "custom_ioctl km ?u IOCTL_SET buf ?s = Inr (- EINVAL, ?t2\<lparr>heap := heap ?s, mutexlock := False\<rparr>)"
      using run by simp
    have "libc_ret (- EINVAL) x = (- 1, x\<lparr>errno := 22\<rparr>)" for x :: "'a ioctl_state_scheme user_proc"
      by (simp add: libc_ret_def is_err_def)
    moreover have "IOCTL_SET \<noteq> IOCTL_VECTOR_FOR_PID" by (simp add: ioctl_numbers)
    moreover have "same_device (kern pr) (?t2\<lparr>heap := heap ?s, mutexlock := False\<rparr>)"
      using c(3) by (simp add: ioctl_ready_def same_device_def)
    ultimately show ?thesis
      using r fd by (intro exI [of _ "?t2\<lparr>heap := heap ?s, mutexlock := False\<rparr>"])
        (simp add: user_ioctl_def reply_to_def store_reply_def)
  qed
qed

lemma digits22: "dec_digits 22 = ''22''"
  by (subst dec_digits.simps) (simp add: dec_digits.simps digit_def)

text \<open>The two ends of the lines both programs have.\<close>

lemma test_take_taken:
  assumes call: "can_call km b fd k" and plain: "plain_names k" and buf: "buf \<noteq> 0" and at: "at_point 1024 m buf (zeroed 1024) k pr"
    and q: "m p = Some (Bytes bs)" "p \<noteq> buf" "terminated bs" "c_string bs = q" "length q < 256"
    and i: "name_index q k = Some i" "overriddenSyscalls_address (vec_list k ! i) = a" "a \<noteq> 0"
  shows "returns (\<lambda>(taken, pr'). taken \<and> (\<exists>k'. at_point 1024 m buf (zeroed 1024) k' pr' \<and> heap k' = heap k
    \<and> vec_list k' = vec_list (add_refcount i 1 k) \<and> vector_info k' = (vector_info k)(current k \<mapsto> a)))
    (test_take e km fd buf p pr)" (is "returns ?P _")
proof -
  have d: "same_device k (kern pr)" using at by (simp add: at_point_def)
  note f = same_device_facts [OF d]
  have "umem pr p = Some (Bytes bs)" using at q(1,2) by (auto simp: at_point_def)
  from asks_to_set [OF _ _ this q(3-5) _ _ i(3), unfolded f, OF call plain i(1,2)] obtain k1 where
    set: "user_ioctl km fd IOCTL_SET p pr = Inr (0, pr\<lparr>kern := k1\<rparr>)" and k1: "ioctl_ready k1" "heap k1 = heap k"
      "vec_list k1 = vec_list (add_refcount i 1 k)" "vector_info k1 = (vector_info k)(current k \<mapsto> a)" by blast
  have "texts_fit k1 = texts_fit k" by (rule recounted(1) [OF k1(3)])
  with k1 call have call1: "can_call km b fd k1" by (simp add: can_call_def)
  have at1: "at_point 1024 m buf (zeroed 1024) k1 (pr\<lparr>kern := k1\<rparr>)" using at by (auto simp: at_point_def same_device_refl)
  obtain t where t: "my_text (current_vector k1) k1 = t" by simp
  have sign: "(sint (0 :: cint) < 0) = False" by simp
  have rest: "returns ?P (bindE (say_string w buf pr2) (\<lambda>pr. bindE (umemset0 buf 1024 pr) (\<lambda>pr. Inr (True, pr))))"
    if "at_point 1024 m buf (holds_text t) k1 pr2" for pr2 w
    using k1(2-4) by (intro returns_then [OF step_say_string [OF buf that]] returns_then [OF step_memset [OF buf]])
      (auto simp: holds_text_def)
  from call1 have ready: "can_call km b fd (kern (pr\<lparr>kern := k1\<rparr>))" by simp
  from at1 obtain old where old: "umem (pr\<lparr>kern := k1\<rparr>) buf = Some (Bytes old)" "BUF_LEN \<le> length old"
    by (auto simp: at_point_def BUF_LEN_def)
  have "my_text (current_vector (kern (pr\<lparr>kern := k1\<rparr>))) (kern (pr\<lparr>kern := k1\<rparr>)) = t" using t by simp
  from asks_mine_into [OF ready old(1) buf old(2) this] obtain pr2 where
    mine: "user_ioctl km fd IOCTL_SHOW_MINE buf (pr\<lparr>kern := k1\<rparr>) = Inr (0, pr2)" by blast
  with step_show_mine [OF call1 buf at1 t] have at2: "at_point 1024 m buf (holds_text t) k1 pr2" by simp
  show ?thesis
    unfolding test_take_def reporting_ioctl_def set mine bindE_Inr case_prod_conv sign if_False
    by (rule rest [OF at2])
qed

lemma test_take_refused:
  assumes call: "can_call km b fd k" and at: "at_point 1024 m buf C k pr"
    and q: "m p = Some (Bytes bs)" "p \<noteq> buf" "terminated bs" "c_string bs = q" "length q < 256"
    and i: "name_index q k = None"
  shows "returns (\<lambda>(taken, pr'). \<not> taken \<and> at_point 1024 m buf C k pr'
    \<and> last (outs pr') = ''failed to set my vector :22 '' @ sprintf_d fd @ [NL]) (test_take e km fd buf p pr)"
proof -
  have d: "same_device k (kern pr)" using at by (simp add: at_point_def)
  note f = same_device_facts [OF d]
  have "umem pr p = Some (Bytes bs)" using at q(1,2) by (auto simp: at_point_def)
  from asks_to_set_unknown [OF _ this q(3-5), unfolded f, OF call i] obtain s' where
    s': "user_ioctl km fd IOCTL_SET p pr = Inr (- 1, pr\<lparr>kern := s', errno := 22\<rparr>)" "same_device (kern pr) s'" by blast
  have sign: "(sint (- 1 :: cint) < 0) = True" by simp
  have "sprintf_d (22 :: cint) = ''22''" by (simp add: sprintf_d_def digits22)
  moreover have "at_point 1024 m buf C k (pr\<lparr>kern := s', errno := 22\<rparr>)"
    using at same_device_trans [OF d s'(2)] by (simp add: at_point_def)
  ultimately show ?thesis
    unfolding test_take_def reporting_ioctl_def s'(1) bindE_Inr case_prod_conv sign if_True returns_Inr
    by (simp add: perror_def at_point_def)
qed

section \<open>The runs\<close>

lemma zeroed_terminated: "zeroed 1024 bs \<Longrightarrow> terminated bs"
  by (simp add: zeroed_def)

lemma test1_files_kept:
  assumes files: "files_apart opens fc" "reads_at_most fc" and buf: "buf \<noteq> 0" and at: "at_point 1024 m buf (zeroed 1024) k pr"
  shows "returns (\<lambda>(_, pr). at_point 1024 m buf terminated k pr) (test1_files fc buf pr)"
proof -
  note f = files_apartD(3-8) [OF files(1)]
  have end1: "returns (\<lambda>(_, pr). at_point 1024 m buf terminated k pr) (Inr (fd, say t pr))"
    if "at_point 1024 m buf terminated k pr" for fd :: cint and t pr using that by simp
  have opened: "returns (\<lambda>(_, pr). at_point 1024 m buf terminated k pr)
    (if sint fd < 0 then Inr (fd, say (''couldn't open...Sorry '' @ [NL]) q) else
       bindE (f_read fc fd buf 5 q) (\<lambda>(ret, pr).
       bindE (say_string (''read bytes: '' @ sprintf_d ret @ [NL] @ '', read data : '' @ [NL]) buf pr) (\<lambda>pr.
       bindE (umemset0 buf 1024 pr) (\<lambda>pr.
       bindE (umemcpy buf text17 pr) (\<lambda>pr.
       bindE (f_write fc fd buf 17 pr) (\<lambda>(ret, pr).
       bindE (say_string (''write bytes: '' @ sprintf_d ret @ [NL] @ '', write data : '' @ [NL]) buf pr) (\<lambda>pr.
       bindE (f_close fc fd pr) (\<lambda>(_, pr).
       bindE (bindE (f_link fc ''normal.txt'' ''normal.protected'' (say (''file closed'' @ [NL]) pr)) (say_result ''link returned : '')) (\<lambda>pr.
       bindE (bindE (f_unlink fc ''normal.protected'' pr) (say_result ''unlink returned: '')) (\<lambda>pr.
       Inr (fd, say (''Successfully tested Vector 55'' @ [NL]) pr)))))))))))"
    if q: "at_point 1024 m buf (zeroed 1024) k q" for q and fd :: cint
  proof (cases "sint fd < 0")
    case True
    from end1 [OF at_point_weaken [OF q zeroed_terminated]] True show ?thesis by simp
  next
    case False
    show ?thesis
      unfolding if_not_P [OF False]
      by (rule returns_call [OF step_read_prefix [OF files(2) q]], simp,
          rule returns_then [OF step_say_string [OF buf]], assumption, assumption,
          rule returns_then [OF step_memset [OF buf]], assumption,
          rule returns_then [OF step_text17 [OF buf]], assumption,
          rule returns_call [OF step_file [OF f(2)]], assumption,
          rule returns_then [OF step_say_string [OF buf]], assumption, assumption,
          rule returns_call [OF step_file [OF f(1)]], assumption,
          rule returns_then [OF step_result [OF f(3)]], simp only: at_point_say,
          rule returns_then [OF step_result [OF f(4)]], assumption, rule end1)
  qed
  show ?thesis
    unfolding test1_files_def Let_def
    by (rule returns_call [OF step_file [OF files_apartD(2) [OF files(1)] at]], rule opened, simp only: at_point_say)
qed

lemma test2_open_kept:
  assumes files: "files_apart opens fc" and at: "at_point 1024 m buf C k pr"
  shows "returns (\<lambda>(_, pr). at_point 1024 m buf C k pr) (test2_open fc pr)"
proof -
  note o = step_file [OF files_apartD(2) [OF files]]
  have again: "returns (\<lambda>(_, pr). at_point 1024 m buf C k pr) (if sint fd < 0 then f_open fc p fl (say t q) else Inr (fd, q))"
    if "at_point 1024 m buf C k q" for fd :: cint and p fl t q using that o by simp
  show ?thesis
    unfolding test2_open_def Let_def
    by (rule returns_call [OF o [OF at]], rule returns_call [OF again], simp only: at_point_say, rule again)
qed

lemma test2_files_kept:
  assumes files: "files_apart opens fc" "reads_at_most fc" and buf: "buf \<noteq> 0" and at: "at_point 1024 m buf (zeroed 1024) k pr"
  shows "returns (\<lambda>(_, pr). at_point 1024 m buf terminated k pr) (test2_files fc buf pr)"
proof -
  note f = files_apartD(3-8) [OF files(1)]
  have opened: "returns (\<lambda>(_, pr). at_point 1024 m buf terminated k pr)
    (if sint fd < 0 then Inr (fd, say (''still couldn't open...exiting'' @ [NL]) q) else
       bindE (f_read fc fd buf 5 q) (\<lambda>(ret, pr).
       bindE (umemset0 buf 1024 pr) (\<lambda>pr.
       bindE (umemcpy buf text17 pr) (\<lambda>pr.
       bindE (f_write fc fd buf 17 pr) (\<lambda>(ret, pr).
       bindE (f_close fc fd pr) (\<lambda>(_, pr).
       bindE (say_string (''ret val '' @ sprintf_d ret @ [NL] @ buf_is) buf pr) (\<lambda>pr.
       bindE (bindE (f_mkdir fc ''testDir'' 644 pr) (say_result ''mkdir returned : '')) (\<lambda>pr.
       bindE (bindE (f_rmdir fc ''testDir'' pr) (say_result ''rmmdir returned :'')) (\<lambda>pr.
       Inr (fd, pr))))))))))"
    if q: "at_point 1024 m buf (zeroed 1024) k q" for q and fd :: cint
  proof (cases "sint fd < 0")
    case True
    with at_point_weaken [OF q zeroed_terminated] show ?thesis by simp
  next
    case False
    show ?thesis
      unfolding if_not_P [OF False]
      by (rule returns_call [OF step_read_prefix [OF files(2) q]], simp,
          rule returns_then [OF step_memset [OF buf]], assumption,
          rule returns_then [OF step_text17 [OF buf]], assumption,
          rule returns_call [OF step_file [OF f(2)]], assumption,
          rule returns_call [OF step_file [OF f(1)]], assumption,
          rule returns_then [OF step_say_string [OF buf]], assumption, assumption,
          rule returns_then [OF step_result [OF f(5)]], assumption,
          rule returns_then [OF step_result [OF f(6)]], assumption, simp)
  qed
  show ?thesis
    unfolding test2_files_def
    by (rule returns_call [OF test2_open_kept [OF files(1) at]], rule opened)
qed

text \<open>
  What such a program leaves of the device: a reference more on the vector of its name and the process
  under it, or, without such a vector, everything as it was.
\<close>

definition test_leaves :: "string \<Rightarrow> 'a ioctl_state_scheme \<Rightarrow> 'a ioctl_state_scheme \<Rightarrow> bool" where
  "test_leaves q k k' \<longleftrightarrow> heap k' = heap k \<and>
     (case name_index q k of
        None \<Rightarrow> vec_list k' = vec_list k \<and> vector_info k' = vector_info k
      | Some i \<Rightarrow> vec_list k' = vec_list (add_refcount i 1 k)
          \<and> vector_info k' = (vector_info k)(current k \<mapsto> overriddenSyscalls_address (vec_list k ! i)))"

lemma test_leaves_same: "same_device k' k2 \<Longrightarrow> test_leaves q k k' \<Longrightarrow> test_leaves q k k2"
  by (auto simp: test_leaves_def same_device_def split: option.splits)

lemma test_body:
  assumes files: "files_apart opens fc" "opens device_path" and call: "can_call km b 0 k" and plain: "plain_names k"
    and buf: "buf \<noteq> 0" and at: "at_point 1024 m buf (\<lambda>_. True) k pr"
    and q: "m p = Some (Bytes bs)" "p \<noteq> buf" "terminated bs" "c_string bs = q" "length q < 256"
    and i: "\<And>i. name_index q k = Some i \<Longrightarrow> overriddenSyscalls_address (vec_list k ! i) \<noteq> 0"
    and rest: "\<And>k pr. at_point 1024 m buf (zeroed 1024) k pr \<Longrightarrow> returns (\<lambda>(_, pr). at_point 1024 m buf terminated k pr) (rest pr)"
  shows "returns (\<lambda>pr'. \<exists>bs. umem pr' = m(buf \<mapsto> Bytes bs) \<and> test_leaves q k (kern pr'))
    (bindE (f_open fc device_path O_RDONLY pr) (\<lambda>(fd, pr).
     bindE (umemset0 buf 1024 pr) (\<lambda>pr.
     bindE (test_take e km fd buf p pr) (\<lambda>(taken, pr).
     bindE (if taken then bindE (f_close fc fd pr) (\<lambda>(_, pr). rest pr) else Inr (fd, pr)) (\<lambda>(fd, pr).
     bindE (f_close fc fd pr) (\<lambda>(_, pr). Inr pr))))))" (is "returns ?Q _")
proof (rule returns_then [OF step_open [OF files(1) at]], clarify)
  fix fd :: cint and pr1
  assume "(0 \<le> sint fd) = opens device_path" and at1: "at_point 1024 m buf (\<lambda>_. True) k pr1"
  then have call': "can_call km b fd k" using call files(2) by (simp add: can_call_def)
  note close = files_apartD(3) [OF files(1)]
  have finish: "returns ?Q (bindE (f_close fc g r) (\<lambda>(_, pr). Inr pr))"
    if r: "at_point 1024 m buf C k' r" "test_leaves q k k'" for C k' r and g :: cint
  proof (rule returns_call [OF step_file [OF close r(1)]])
    fix r' assume "at_point 1024 m buf C k' r'"
    then have "\<exists>bs. umem r' = m(buf \<mapsto> Bytes bs)" "same_device k' (kern r')" by (auto simp: at_point_def)
    with test_leaves_same [OF this(2) r(2)] show "returns ?Q (Inr r')" by simp
  qed
  let ?T = "\<lambda>(taken, pr). bindE (if taken then bindE (f_close fc fd pr) (\<lambda>(_, pr). rest pr) else Inr (fd, pr))
    (\<lambda>(fd, pr). bindE (f_close fc fd pr) (\<lambda>(_, pr). Inr pr))"
  show "returns ?Q (bindE (umemset0 buf 1024 pr1) (\<lambda>pr. bindE (test_take e km fd buf p pr) ?T))"
  proof (rule returns_then [OF step_memset [OF buf at1]])
    fix pr2 assume at2: "at_point 1024 m buf (zeroed 1024) k pr2"
    show "returns ?Q (bindE (test_take e km fd buf p pr2) ?T)"
    proof (cases "name_index q k")
      case None
      have stop: "returns ?Q (?T (taken, r))" if "\<not> taken" and "at_point 1024 m buf (zeroed 1024) k r" for taken r
        using finish [OF that(2), of fd] that(1) by (simp add: test_leaves_def None)
      show ?thesis
        by (rule returns_then [OF test_take_refused [OF call' at2 q None]]) (use stop in blast)
    next
      case (Some j)
      have go: "returns ?Q (?T (taken, r))"
        if "taken" and r: "at_point 1024 m buf (zeroed 1024) k' r" and k': "heap k' = heap k" "vec_list k' = vec_list (add_refcount j 1 k)"
          "vector_info k' = (vector_info k)(current k \<mapsto> overriddenSyscalls_address (vec_list k ! j))" for taken k' r
      proof -
        have "test_leaves q k k'" using k' by (simp add: test_leaves_def Some)
        then show ?thesis
          unfolding case_prod_conv if_P [OF that(1)]
          by (intro returns_call [OF returns_call [OF step_file [OF close r] rest]] finish)
      qed
      show ?thesis
        by (rule returns_then [OF test_take_taken [OF call' plain buf at2 q Some refl i [OF Some]]])
          (use go in blast)
    qed
  qed
qed

lemma test_vector1_run:
  assumes files: "files_apart opens fc" "reads_at_most fc" "opens device_path" and call: "can_call km b 0 (kern pr)"
    and plain: "plain_names (kern pr)" and stack: "umem pr buf = None" "buf \<noteq> 0" "length junk = 1024"
    and name: "umem pr p = Some (Bytes (''Vector55'' @ [NUL]))"
    and i: "\<And>i. name_index ''Vector55'' (kern pr) = Some i \<Longrightarrow> overriddenSyscalls_address (vec_list (kern pr) ! i) \<noteq> 0"
  shows "\<exists>pr'. test_vector1_main e km fc buf p junk pr = Inr pr' \<and> umem pr' = umem pr
    \<and> test_leaves ''Vector55'' (kern pr) (kern pr')"
proof -
  let ?p = "pr\<lparr>umem := (umem pr)(buf \<mapsto> Bytes junk)\<rparr>"
  have at: "at_point 1024 (umem pr) buf (\<lambda>_. True) (kern pr) ?p" using stack(3) by (auto simp: at_point_def same_device_refl BUF_LEN_def)
  have q: "p \<noteq> buf" "terminated (''Vector55'' @ [NUL])" "c_string (''Vector55'' @ [NUL]) = ''Vector55''"
    "length ''Vector55'' < 256" using stack(1) name by (auto simp: terminated_def)
  have gone: "(umem pr)(buf := None) = umem pr" using stack(1) by auto
  have "returns (\<lambda>pr'. umem pr' = umem pr \<and> test_leaves ''Vector55'' (kern pr) (kern pr'))
    (test_vector1_main e km fc buf p junk pr)"
    unfolding test_vector1_main_def Let_def
    by (rule returns_then [OF test_body [OF files(1,3) call plain stack(2) at name q i test1_files_kept [OF files(1,2) stack(2)]]])
      (auto simp: gone)
  then show ?thesis by (simp add: returns_def)
qed

lemma test_vector2_run:
  assumes files: "files_apart opens fc" "reads_at_most fc" "opens device_path" and call: "can_call km b 0 (kern pr)"
    and plain: "plain_names (kern pr)"
    and stack: "umem pr buf = None" "buf \<noteq> 0" "length junk = 1024" "umem pr p = None" "p \<noteq> buf"
    and i: "\<And>i. name_index ''Vector968'' (kern pr) = Some i \<Longrightarrow> overriddenSyscalls_address (vec_list (kern pr) ! i) \<noteq> 0"
  shows "\<exists>pr'. test_vector2_main e km fc buf p junk pr = Inr pr' \<and> umem pr' = umem pr
    \<and> test_leaves ''Vector968'' (kern pr) (kern pr')"
proof -
  let ?m = "(umem pr)(p \<mapsto> Bytes (''Vector968'' @ [NUL]))"
  let ?p = "pr\<lparr>umem := (umem pr)(buf \<mapsto> Bytes junk, p \<mapsto> Bytes (''Vector968'' @ [NUL]))\<rparr>"
  have at: "at_point 1024 ?m buf (\<lambda>_. True) (kern pr) ?p"
    using stack(3,5) by (auto simp: at_point_def same_device_refl fun_upd_twist BUF_LEN_def)
  have q: "?m p = Some (Bytes (''Vector968'' @ [NUL]))" "p \<noteq> buf" "terminated (''Vector968'' @ [NUL])"
    "c_string (''Vector968'' @ [NUL]) = ''Vector968''" "length ''Vector968'' < 256"
    using stack(5) by (auto simp: terminated_def)
  have "returns (\<lambda>pr'. umem pr' = umem pr \<and> test_leaves ''Vector968'' (kern pr) (kern pr'))
    (test_vector2_main e km fc buf p junk pr)"
    unfolding test_vector2_main_def Let_def
    by (rule returns_then [OF test_body [OF files(1,3) call plain stack(2) at q i test2_files_kept [OF files(1,2) stack(2)]]])
      (use stack(1,4) in \<open>auto simp: fun_eq_iff\<close>)
  then show ?thesis by (simp add: returns_def)
qed

end
