(* ===== verification/Test_Ioctl.thy ===== *)
theory Test_Ioctl
  imports Demo_Create Demo_Files
begin

text \<open>
  \<open>demo/test_ioctl.c\<close>: one process that sends all six requests of the device, the name of a vector as
  its argument.
\<close>

section \<open>The program\<close>

text \<open>
  Its functions around \<open>ioctl\<close> are those of \<open>user_ioctl1.c\<close>; the one that creates a vector is that of
  \<open>user_ioctl3.c\<close>; one more asks about the process itself.
\<close>

definition tio_vector_for_pid ::
  "user_env \<Rightarrow> allocator \<Rightarrow> cint \<Rightarrow> addr \<Rightarrow> 'a ioctl_state_scheme user_proc \<Rightarrow> (cint \<times> 'a ioctl_state_scheme user_proc) cres" where
  "tio_vector_for_pid e km fd a pr =
     (let (pid_buf, pr) = umalloc e 16 pr in
      bindE (ustore_pid_n_buf pid_buf (own_pid e) a pr) (\<lambda>pr.
      bindE (user_ioctl km fd IOCTL_VECTOR_FOR_PID pid_buf pr) (\<lambda>(err, pr).
      let pr = (if sint err < 0 then perror e ''ERROR'' (say ''ioctl create vector from bitmap failed'' pr) else pr);
          pr = say (''called ioctl successfullly'' @ [NL]) pr in
      bindE (ufree pid_buf pr) (\<lambda>pr. Inr (err, pr)))))"

text \<open>A line of stars, and a call after whose failure \<open>main\<close> goes to \<open>free_out\<close>.\<close>

definition tio_line :: "string \<Rightarrow> string \<Rightarrow> string" where
  "tio_line start what = start @ replicate 35 CHR ''*'' @ what @ replicate 29 CHR ''*'' @ [NL]"

definition or_free_out :: "(cint \<times> 'p) cres \<Rightarrow> ('p \<Rightarrow> (cint \<times> 'p) cres) \<Rightarrow> (cint \<times> 'p) cres" where
  "or_free_out m f = bindE m (\<lambda>(ret, pr). if sint ret < 0 then Inr (ret, pr) else f pr)"

definition tio_show_mine ::
  "user_env \<Rightarrow> allocator \<Rightarrow> cint \<Rightarrow> addr \<Rightarrow> string \<Rightarrow> 'a ioctl_state_scheme user_proc
   \<Rightarrow> (cint \<times> 'a ioctl_state_scheme user_proc) cres" where
  "tio_show_mine e km fd v start pr =
     (let pr = say (tio_line start ''   calling ioctl to get my vector      '') pr in
      bindE (ioctl_get_my_vector_info e km fd v pr) (\<lambda>(ret, pr).
      if sint ret < 0 then Inr (ret, pr)
      else
        bindE (say_string ([NL] @ ''  current vector name is:'' @ [NL]) v pr) (\<lambda>pr.
        bindE (umemset0 v MAX_VECTOR_NAME_LEN pr) (\<lambda>pr. Inr (ret, pr)))))"

definition tio_assigned :: string where
  "tio_assigned = [NL] @ ''Process has new vector assigned. Will verify it by calling ioctl to get process vector '' @ [NL]"

definition tio_create_line :: string where
  "tio_create_line = [NL] @ '' '' @ replicate 31 CHR ''*'' @ ''   calling ioctl to create dynamic vector with bitmap 1017   ''
     @ replicate 26 CHR ''*'' @ [NL]"

definition tio_done_line :: string where
  "tio_done_line = [NL] @ '' '' @ replicate 8 CHR ''*'' @ '' We are done testing all the ioctls  '' @ replicate 14 CHR ''*'' @ [NL]"

definition tio_created ::
  "user_env \<Rightarrow> allocator \<Rightarrow> cint \<Rightarrow> addr \<Rightarrow> addr \<Rightarrow> 'a ioctl_state_scheme user_proc
   \<Rightarrow> (cint \<times> 'a ioctl_state_scheme user_proc) cres" where
  "tio_created e km fd bitmap v pr =
     or_free_out (ioctl3_create_vector e km fd bitmap (say tio_create_line pr)) (\<lambda>pr.
     bindE (umemset0 v MAX_VECTOR_NAME_LEN (say tio_assigned pr)) (\<lambda>pr.
     bindE (tio_show_mine e km fd v ([NL] @ '' '') pr) (\<lambda>(ret, pr).
     Inr (ret, if sint ret < 0 then pr else say tio_done_line pr))))"

text \<open>From the vector taken to the vector left.\<close>

definition tio_assign ::
  "user_env \<Rightarrow> allocator \<Rightarrow> cint \<Rightarrow> addr \<Rightarrow> string \<Rightarrow> ('a ioctl_state_scheme user_proc \<Rightarrow> (cint \<times> 'a ioctl_state_scheme user_proc) cres)
   \<Rightarrow> 'a ioctl_state_scheme user_proc \<Rightarrow> (cint \<times> 'a ioctl_state_scheme user_proc) cres" where
  "tio_assign e km fd v q rest pr =
     bindE (umemcpy v q pr) (\<lambda>pr.
     or_free_out (ioctl_set_vector e km fd v (say (tio_line ''/n'' ''   calling ioctl to set my vector      '') pr)) (\<lambda>pr.
     bindE (umemset0 v MAX_VECTOR_NAME_LEN (say tio_assigned pr)) (\<lambda>pr.
     or_free_out (tio_show_mine e km fd v ([NL] @ '' '') pr) (\<lambda>pr.
     bindE (umemcpy v q pr) (\<lambda>pr.
     bindE (umemset0 v MAX_VECTOR_NAME_LEN pr) (\<lambda>pr.
     or_free_out (tio_vector_for_pid e km fd v (say (tio_line ''/n'' ''   calling ioctl to get vector of some pid     '') pr)) (\<lambda>pr.
     bindE (say_string ([NL] @ ''  received vector name is:'' @ [NL]) v pr) (\<lambda>pr.
     bindE (umemset0 v MAX_VECTOR_NAME_LEN pr) (\<lambda>pr.
     bindE (umemcpy v q pr) (\<lambda>pr.
     or_free_out (ioctl_remove_vector e km fd v (say (tio_line ([NL] @ '' '') ''   calling ioctl to remove my vector      '') pr)) (\<lambda>pr.
     let pr = say ([NL] @ ''Process has removed vector. Will verify it by calling ioctl to get process vector '' @ [NL]) pr in
     bindE (umemset0 v MAX_VECTOR_NAME_LEN pr) rest)))))))))))"

definition test_ioctl_session ::
  "user_env \<Rightarrow> allocator \<Rightarrow> cint \<Rightarrow> addr \<Rightarrow> addr \<Rightarrow> string \<Rightarrow> 'a ioctl_state_scheme user_proc
   \<Rightarrow> (cint \<times> 'a ioctl_state_scheme user_proc) cres" where
  "test_ioctl_session e km fd bitmap v q pr =
     (let pr = say (tio_line [NL] ''   calling ioctl to get all vector names      '') pr in
      or_free_out (ioctl_get_all_vectors_info e km fd v pr) (\<lambda>pr.
      bindE (say_string ([NL] @ ''  names of vectors '' @ [NL] @ '' '') v pr) (\<lambda>pr.
      bindE (umemset0 v MAX_VECTOR_NAME_LEN pr) (\<lambda>pr.
      or_free_out (tio_show_mine e km fd v ''/n'' pr) (\<lambda>pr.
      tio_assign e km fd v q (\<lambda>pr.
      or_free_out (tio_show_mine e km fd v ([NL] @ '' '') pr) (\<lambda>pr.
      tio_created e km fd bitmap v pr)) pr)))))"

text \<open>\<open>close\<close> of the device is not modelled. The arguments are the strings of \<open>argv\<close> without their NUL.\<close>

definition test_ioctl_main ::
  "user_env \<Rightarrow> allocator \<Rightarrow> string list \<Rightarrow> 'a ioctl_state_scheme user_proc \<Rightarrow> (cint \<times> 'a ioctl_state_scheme user_proc) cres" where
  "test_ioctl_main e km argv pr =
     (let (bitmap, pr) = umalloc e 4 pr in
      bindE (ustore_bitmap bitmap 1017 pr) (\<lambda>pr.
      if length argv < 2 \<or> MAX_VECTOR_NAME_LEN < length (argv ! 1) then
        Inr (0, say (''Vector name must be of maximum length of 32'' @ [NL]) pr)
      else
        let pr = say (''pid : '' @ sprintf_d (own_pid e) @ [NL]) pr;
            (file_name, pr) = umalloc e (length device_path + 1) pr in
        if file_name = 0 then Inr (0, say (''couldn't allocate memory..Sorry'' @ [NL]) pr)
        else
          bindE (umemset0 file_name (length device_path + 1) pr) (\<lambda>pr.
          bindE (umemcpy file_name device_path pr) (\<lambda>pr.
          let (vector_name, pr) = umalloc e MAX_VECTOR_NAME_LEN pr in
          bindE
            (if vector_name = 0 then Inr (0, say (''couldn't allocate memory..Sorry'' @ [NL]) pr)
             else
               bindE (umemset0 vector_name MAX_VECTOR_NAME_LEN pr) (\<lambda>pr.
               bindE (umemcpy vector_name (argv ! 1) pr) (\<lambda>pr.
               bindE (bytes_at file_name (umem pr)) (\<lambda>name.
               let file_desc = open_path e (c_string name) in
               if sint file_desc < 0 then Inr (0, say (''Can't open file: '' @ c_string name @ [NL]) pr)
               else test_ioctl_session e km file_desc bitmap vector_name (argv ! 1) pr))))
            (\<lambda>(ret, pr).
          bindE (ufree bitmap pr) (\<lambda>pr.
          bindE (ufree file_name pr) (\<lambda>pr.
          bindE (ufree vector_name pr) (\<lambda>pr. Inr (ret, pr)))))))))"

section \<open>Points of the program\<close>

text \<open>As \<open>at_point\<close>, with what was printed.\<close>

definition tio_at ::
  "(addr \<rightharpoonup> ublock) \<Rightarrow> addr \<Rightarrow> (char list \<Rightarrow> bool) \<Rightarrow> 'a ioctl_state_scheme \<Rightarrow> string list \<Rightarrow> 'a ioctl_state_scheme user_proc \<Rightarrow> bool" where
  "tio_at m v C k os pr \<longleftrightarrow> at_point MAX_VECTOR_NAME_LEN m v C k pr \<and> outs pr = os"

lemma tio_at_say: "tio_at m v C k os pr \<Longrightarrow> tio_at m v C k (os @ [t]) (say t pr)"
  by (simp add: tio_at_def)

lemma returns_pair:
  "returns (\<lambda>(r, pr). Q r pr) m \<Longrightarrow> (\<And>r pr. Q r pr \<Longrightarrow> returns P (f r pr)) \<Longrightarrow> returns P (bindE m (\<lambda>(r, pr). f r pr))"
  by (auto simp: returns_def)

lemma returns_weaken: "returns P m \<Longrightarrow> (\<And>x. P x \<Longrightarrow> Q x) \<Longrightarrow> returns Q m"
  by (auto simp: returns_def)

lemma umemcpy_outs: "umemcpy a bs pr = Inr pr' \<Longrightarrow> outs pr' = outs pr"
  by (auto simp: umemcpy_def bindE_eq_Inr)

lemma tio_zero:
  assumes "v \<noteq> 0" and "tio_at m v C k os pr"
  shows "returns (tio_at m v (zeroed MAX_VECTOR_NAME_LEN) k os) (umemset0 v MAX_VECTOR_NAME_LEN pr)"
  using step_memset [OF assms(1), where m = m and C = C and k = k and pr = pr] assms(2) umemcpy_outs
  by (fastforce simp: tio_at_def returns_def umemset0_def)

lemma tio_name:
  assumes v: "v \<noteq> 0" and at: "tio_at m v (zeroed MAX_VECTOR_NAME_LEN) k os pr"
    and q: "length q < MAX_VECTOR_NAME_LEN" "NUL \<notin> set q"
  shows "returns (tio_at m v (holds_text q) k os) (umemcpy v q pr)"
proof -
  let ?N = MAX_VECTOR_NAME_LEN
  from at have u: "umem pr = m(v \<mapsto> Bytes (replicate ?N NUL))" "same_device k (kern pr)" "outs pr = os" "BUF_LEN \<le> ?N"
    by (auto simp: tio_at_def at_point_def zeroed_def)
  have "holds_text q (q @ replicate (?N - length q) NUL)"
    using q by (auto simp: holds_text_def terminated_def c_string_append_terminated)
  with u v q(1) show ?thesis
    by (auto simp: umemcpy_bytes tio_at_def at_point_def drop_replicate intro!: exI [of _ "q @ replicate (?N - length q) NUL"])
qed

lemma tio_print:
  assumes v: "v \<noteq> 0" and at: "tio_at m v (holds_text t) k os pr"
  shows "returns (tio_at m v (holds_text t) k (os @ [w @ t @ [NL]])) (say_string w v pr)"
  using assms by (auto simp: tio_at_def at_point_def say_string_def bytes_at_def holds_text_def)

lemma or_free_out_passes: "m = Inr (r, pr) \<Longrightarrow> 0 \<le> sint r \<Longrightarrow> or_free_out m f = f pr"
  by (simp add: or_free_out_def)

lemma or_free_out_then:
  assumes "returns (\<lambda>(ret, pr). 0 \<le> sint ret \<and> Q pr) m" and "\<And>pr. Q pr \<Longrightarrow> returns P (f pr)"
  shows "returns P (or_free_out m f)"
  using assms by (auto simp: or_free_out_def returns_def)

section \<open>The requests\<close>

lemma tio_buffer:
  assumes "tio_at m v C k os pr"
  obtains bs where "umem pr v = Some (Bytes bs)" and "BUF_LEN \<le> length bs" and "same_device k (kern pr)"
  using assms by (auto simp: tio_at_def at_point_def)

lemma tio_answered:
  assumes "returns (\<lambda>(_, pr). at_point MAX_VECTOR_NAME_LEN m v D k pr) (user_ioctl km fd req p pr)"
    and "user_ioctl km fd req p pr = Inr (0, pr')" and "tio_at m v C k os pr"
  shows "returns (\<lambda>(ret, pr). 0 \<le> sint ret \<and> tio_at m v D k os pr) (reporting_ioctl msg label req e km fd p pr)"
  using assms user_ioctl_outs [OF assms(2)] reporting_ioctl_passes [OF assms(2)] by (simp add: tio_at_def)

lemma tio_all:
  assumes call: "can_call km b fd k" and v: "v \<noteq> 0" and at: "tio_at m v C k os pr"
  shows "returns (\<lambda>(ret, pr). 0 \<le> sint ret \<and> tio_at m v (holds_text (all_text k)) k os pr)
    (ioctl_get_all_vectors_info e km fd v pr)"
proof (rule tio_buffer [OF at])
  fix bs assume u: "umem pr v = Some (Bytes bs)" "BUF_LEN \<le> length bs" and d: "same_device k (kern pr)"
  have "can_call km b fd (kern pr)" using call by (simp add: same_device_facts [OF d])
  from asks_all_into [OF this u(1) v u(2)] obtain pr' where "user_ioctl km fd IOCTL_SHOW_ALL v pr = Inr (0, pr')" by blast
  moreover have "at_point MAX_VECTOR_NAME_LEN m v C k pr" using at by (simp add: tio_at_def)
  ultimately show ?thesis
    unfolding ioctl_get_all_vectors_info_def using tio_answered [OF step_show_all [OF call v] _ at] by blast
qed

lemma tio_mine:
  assumes call: "can_call km b fd k" and v: "v \<noteq> 0" and at: "tio_at m v C k os pr" and t: "my_text (current_vector k) k = t"
  shows "returns (\<lambda>(ret, pr). 0 \<le> sint ret \<and> tio_at m v (holds_text t) k os pr) (ioctl_get_my_vector_info e km fd v pr)"
proof (rule tio_buffer [OF at])
  fix bs assume u: "umem pr v = Some (Bytes bs)" "BUF_LEN \<le> length bs" and d: "same_device k (kern pr)"
  have "can_call km b fd (kern pr)" using call by (simp add: same_device_facts [OF d])
  from asks_mine_into [OF this u(1) v u(2) refl] obtain pr' where "user_ioctl km fd IOCTL_SHOW_MINE v pr = Inr (0, pr')" by blast
  moreover have "at_point MAX_VECTOR_NAME_LEN m v C k pr" using at by (simp add: tio_at_def)
  ultimately show ?thesis
    unfolding ioctl_get_my_vector_info_def using tio_answered [OF step_show_mine [OF call v _ t] _ at] by blast
qed

definition tio_current :: "string \<Rightarrow> string \<Rightarrow> string list" where
  "tio_current start t =
     [tio_line start ''   calling ioctl to get my vector      '', ([NL] @ ''  current vector name is:'' @ [NL]) @ t @ [NL]]"

lemma tio_shows_mine:
  assumes call: "can_call km b fd k" and v: "v \<noteq> 0" and at: "tio_at m v C k os pr" and t: "my_text (current_vector k) k = t"
  shows "returns (\<lambda>(ret, pr). 0 \<le> sint ret \<and> tio_at m v (zeroed MAX_VECTOR_NAME_LEN) k (os @ tio_current start t) pr)
    (tio_show_mine e km fd v start pr)"
proof -
  let ?l = "tio_line start ''   calling ioctl to get my vector      ''"
  have os: "os @ tio_current start t = (os @ [?l]) @ [([NL] @ ''  current vector name is:'' @ [NL]) @ t @ [NL]]"
    by (simp add: tio_current_def)
  have rest: "returns (\<lambda>(ret, pr). 0 \<le> sint ret \<and> tio_at m v (zeroed MAX_VECTOR_NAME_LEN) k (os @ tio_current start t) pr)
      (if sint ret < 0 then Inr (ret, pr)
       else bindE (say_string ([NL] @ ''  current vector name is:'' @ [NL]) v pr) (\<lambda>pr.
            bindE (umemset0 v MAX_VECTOR_NAME_LEN pr) (\<lambda>pr. Inr (ret, pr))))"
    if "0 \<le> sint ret" "tio_at m v (holds_text t) k (os @ [?l]) pr" for ret pr
  proof -
    from that(1) have "\<not> sint ret < 0" by simp
    then show ?thesis
      unfolding os if_not_P [OF \<open>\<not> sint ret < 0\<close>]
      by (intro returns_then [OF tio_print [OF v that(2)]] returns_then [OF tio_zero [OF v]]) (auto simp: that(1))
  qed
  show ?thesis
    unfolding tio_show_mine_def Let_def
    by (rule returns_pair [OF tio_mine [OF call v tio_at_say [OF at] t]]) (elim conjE, rule rest)
qed

text \<open>The request about the process itself, from a structure that is freed again.\<close>

lemma tio_for_pid:
  assumes call: "can_call km b fd k" and v: "v \<noteq> 0" "m v = None" and at: "tio_at m v C k os pr"
    and mem: "malloc_ok e" "malloc_roomy c e" "card (dom m) + 1 < c"
    and i: "vector_info k (own_pid e) = Some a" "my_text a k = t"
  shows "returns (\<lambda>(ret, pr). 0 \<le> sint ret \<and> tio_at m v (holds_text t) k (os @ [''called ioctl successfullly'' @ [NL]]) pr)
    (tio_vector_for_pid e km fd v pr)"
proof (rule tio_buffer [OF at])
  fix bs assume u: "umem pr v = Some (Bytes bs)" "BUF_LEN \<le> length bs" and d: "same_device k (kern pr)"
  obtain pb where pb: "pb = malloc e 16 (umem pr)" by simp
  from at obtain bs where m: "umem pr = m(v \<mapsto> Bytes bs)" by (auto simp: tio_at_def at_point_def)
  have "card (dom (umem pr)) \<le> Suc (card (dom m))" unfolding m by (simp add: card_insert_le_m1 card_insert_if)
  then have "card (dom (umem pr)) < c" using mem(3) by simp
  note z = zeroed_malloc [OF mem(1,2) this pb]
  have pv: "pb \<noteq> v" "m pb = None" using z(2) m by (auto split: if_splits)
  let ?m = "m(pb \<mapsto> Pid_n_buf (own_pid e) v)"
  let ?q = "pr\<lparr>umem := (umem pr)(pb \<mapsto> Pid_n_buf (own_pid e) v)\<rparr>"
  have stored: "ustore_pid_n_buf pb (own_pid e) v (pr\<lparr>umem := (umem pr)(pb \<mapsto> Bytes (fresh_bytes e 16))\<rparr>) = Inr ?q"
    using z(1) by (simp add: ustore_pid_n_buf_def)
  have at1: "tio_at ?m v C k os ?q"
    using at pv(1) by (auto simp: tio_at_def at_point_def fun_upd_twist [of pb v])
  have call': "can_call km b fd (kern ?q)" using call by (simp add: same_device_facts [OF d])
  have w: "umem ?q v = Some (Bytes bs)" "umem ?q pb = Some (Pid_n_buf (own_pid e) v)" using pv(1) m by auto
  have k: "vector_info (kern ?q) (own_pid e) = Some a" using i(1) by (simp add: same_device_facts [OF d])
  have "BUF_LEN \<le> length bs" using at m by (auto simp: tio_at_def at_point_def dest: map_upd_eqD1)
  from asks_pid_into [OF call' w(1) v(1) this w(2) k refl] obtain pr' where
    run: "user_ioctl km fd IOCTL_VECTOR_FOR_PID pb ?q = Inr (0, pr')" by blast
  have at2: "tio_at ?m v (holds_text t) k os pr'"
    using step_show_pid [where m = ?m and pr = ?q, OF call v(1) _ _ pv(1) i] at1 run user_ioctl_outs [OF run]
    by (auto simp: tio_at_def)
  let ?p = "say (''called ioctl successfullly'' @ [NL]) pr'"
  have "tio_at ?m v (holds_text t) k (os @ [''called ioctl successfullly'' @ [NL]]) ?p" using at2 by (rule tio_at_say)
  then have p: "umem ?p pb \<noteq> None" "tio_at m v (holds_text t) k (os @ [''called ioctl successfullly'' @ [NL]])
      (?p\<lparr>umem := (umem ?p)(pb := None)\<rparr>)"
    using pv v(2) by (auto simp: tio_at_def at_point_def fun_eq_iff)
  have free: "ufree pb ?p = Inr (?p\<lparr>umem := (umem ?p)(pb := None)\<rparr>)"
    unfolding ufree_def if_not_P [OF z(1)] if_not_P [OF p(1)] ..
  have "(sint (0 :: cint) < 0) = False" by simp
  then show ?thesis
    unfolding tio_vector_for_pid_def pb [symmetric] z(4) [OF refl] Let_def case_prod_conv stored bindE_Inr run
    by (simp only: if_False free bindE_Inr returns_Inr case_prod_conv p(2)) simp
qed

text \<open>Taking the vector named in the buffer and leaving it: the device moves on, the buffer stays.\<close>

definition moved ::
  "allocator \<Rightarrow> nat \<Rightarrow> cint \<Rightarrow> 'a ioctl_state_scheme \<Rightarrow> struct_vector list \<Rightarrow> addr \<Rightarrow> 'a ioctl_state_scheme \<Rightarrow> bool" where
  "moved km b fd k vs a k' \<longleftrightarrow> can_call km b fd k' \<and> heap k' = heap k \<and> vec_list k' = vs
     \<and> vector_info k' = (vector_info k)(current k \<mapsto> a) \<and> current k' = current k
     \<and> dyn_i k' = dyn_i k \<and> list_heads k' = list_heads k"

lemma tio_text:
  assumes "tio_at m v (holds_text q) k os pr"
  obtains bs where "umem pr v = Some (Bytes bs)" and "terminated bs" and "c_string bs = q" and "same_device k (kern pr)"
  using assms by (auto simp: tio_at_def at_point_def holds_text_def)

lemma tio_set:
  assumes call: "can_call km b fd k" and plain: "plain_names k" and at: "tio_at m v (holds_text q) k os pr"
    and q: "length q < 256" and i: "name_index q k = Some i" "overriddenSyscalls_address (vec_list k ! i) = a" "a \<noteq> 0"
  obtains k' pr' where "ioctl_set_vector e km fd v pr = Inr (0, pr')" and "tio_at m v (holds_text q) k' os pr'"
    and "moved km b fd k (vec_list (add_refcount i 1 k)) a k'"
proof (rule tio_text [OF at])
  fix bs assume u: "umem pr v = Some (Bytes bs)" "terminated bs" "c_string bs = q" and d: "same_device k (kern pr)"
  note f = same_device_facts [OF d]
  have slots: "dyn_i (kern pr) = dyn_i k" "list_heads (kern pr) = list_heads k" using d by (simp_all add: same_device_def)
  from asks_to_set [OF _ _ u q _ _ i(3), unfolded f, OF call plain i(1,2)] obtain k' where
    run: "user_ioctl km fd IOCTL_SET v pr = Inr (0, pr\<lparr>kern := k'\<rparr>)" and k': "ioctl_ready k'" "heap k' = heap k"
      "vec_list k' = vec_list (add_refcount i 1 k)" "vector_info k' = (vector_info k)(current k \<mapsto> a)" "current k' = current k"
      "dyn_i k' = dyn_i k" "list_heads k' = list_heads k" unfolding slots by blast
  have "texts_fit k' = texts_fit k" by (rule recounted(1) [OF k'(3)])
  with k' call have "moved km b fd k (vec_list (add_refcount i 1 k)) a k'" by (simp add: moved_def can_call_def)
  moreover have "tio_at m v (holds_text q) k' os (pr\<lparr>kern := k'\<rparr>)"
    using at by (simp add: tio_at_def at_point_def same_device_refl)
  ultimately show ?thesis
    using that reporting_ioctl_passes [OF run] by (simp add: ioctl_set_vector_def)
qed

lemma tio_remove:
  assumes call: "can_call km b fd k" and at: "tio_at m v (holds_text q) k os pr"
    and q: "length q < 256" and i: "name_index q k = Some i" "refcount (vec_list k ! i) - 1 = r" "0 \<le> sint r"
  obtains k' pr' where "ioctl_remove_vector e km fd v pr = Inr (r, pr')" and "tio_at m v (holds_text q) k' os pr'"
    and "moved km b fd k (vec_list (add_refcount i (- 1) k)) 0 k'"
proof (rule tio_text [OF at])
  fix bs assume u: "umem pr v = Some (Bytes bs)" "terminated bs" "c_string bs = q" and d: "same_device k (kern pr)"
  note f = same_device_facts [OF d]
  have slots: "dyn_i (kern pr) = dyn_i k" "list_heads (kern pr) = list_heads k" using d by (simp_all add: same_device_def)
  have sign: "(sint r < 0) = False" using i(3) by simp
  from asks_to_remove [OF _ u q, unfolded f, OF call i(1,2)] obtain er k' where
    run: "user_ioctl km fd IOCTL_REMOVE v pr = Inr (r, pr\<lparr>kern := k', errno := er\<rparr>)" and k': "ioctl_ready k'" "heap k' = heap k"
      "vec_list k' = vec_list (add_refcount i (- 1) k)" "vector_info k' = (vector_info k)(current k \<mapsto> 0)" "current k' = current k"
      "dyn_i k' = dyn_i k" "list_heads k' = list_heads k" unfolding slots sign if_False by blast
  have "texts_fit k' = texts_fit k" by (rule recounted(1) [OF k'(3)])
  with k' call have "moved km b fd k (vec_list (add_refcount i (- 1) k)) 0 k'" by (simp add: moved_def can_call_def)
  moreover have "tio_at m v (holds_text q) k' os (pr\<lparr>kern := k', errno := er\<rparr>)"
    using at by (simp add: tio_at_def at_point_def same_device_refl)
  ultimately show ?thesis
    using that reporting_ioctl_passes [OF run i(3)] by (simp add: ioctl_remove_vector_def)
qed

section \<open>From the vector taken to the vector left\<close>

text \<open>What is printed on the way, \<open>t\<close> being the vector's lines.\<close>

definition tio_assign_text :: "string \<Rightarrow> string list" where
  "tio_assign_text t =
     [tio_line ''/n'' ''   calling ioctl to set my vector      '', tio_assigned] @ tio_current ([NL] @ '' '') t
     @ [tio_line ''/n'' ''   calling ioctl to get vector of some pid     '', ''called ioctl successfullly'' @ [NL],
        ([NL] @ ''  received vector name is:'' @ [NL]) @ t @ [NL],
        tio_line ([NL] @ '' '') ''   calling ioctl to remove my vector      '',
        [NL] @ ''Process has removed vector. Will verify it by calling ioctl to get process vector '' @ [NL]]"

lemma my_text_recounted:
  assumes vl: "vec_list k' = vec_list (add_refcount i d k)"
  shows "my_text a k' = my_text a k"
proof -
  have "vector_text (vec_list k' ! j) = vector_text (vec_list k ! j)" if "j < length (vec_list k)" for j
    using that unfolding vl by (cases "i = j") (simp_all add: add_refcount_def vector_text_def)
  then show ?thesis
    using vl addr_index_add_refcount [of a i d k] index_bounds(2) [of a k]
    by (simp add: my_text_def addr_index_def split: option.splits)
qed

lemma tio_assign_runs:
  assumes call: "can_call km b fd k" and plain: "plain_names k" and v: "v \<noteq> 0" "m v = None"
    and at: "tio_at m v (zeroed MAX_VECTOR_NAME_LEN) k os pr"
    and q: "length q < 256" "NUL \<notin> set q" and i: "name_index q k = Some i" "overriddenSyscalls_address (vec_list k ! i) = a" "a \<noteq> 0"
    and r: "0 \<le> sint (refcount (vec_list k ! i))" and mem: "malloc_ok e" "malloc_roomy c e" "card (dom m) + 1 < c"
    and me: "own_pid e = current k"
    and rest: "\<And>k' pr. moved km b fd k (vec_list k) 0 k' \<Longrightarrow>
      tio_at m v (zeroed MAX_VECTOR_NAME_LEN) k' (os @ tio_assign_text (my_text a k)) pr \<Longrightarrow> returns P (rest pr)"
  shows "returns P (tio_assign e km fd v q rest pr)"
proof -
  have q': "length q < MAX_VECTOR_NAME_LEN" using q(1) by (simp add: MAX_VECTOR_NAME_LEN_def)
  let ?l1 = "tio_line ''/n'' ''   calling ioctl to set my vector      ''"
  let ?l2 = "tio_line ''/n'' ''   calling ioctl to get vector of some pid     ''"
  let ?l3 = "tio_line ([NL] @ '' '') ''   calling ioctl to remove my vector      ''"
  let ?t = "my_text a k"
  have sign: "0 \<le> sint (0 :: cint)" by simp
  have r': "(sint (refcount (vec_list k ! i)) < 0) = False" using r by simp
  show ?thesis
    unfolding tio_assign_def
  proof (rule returns_then [OF tio_name [OF v(1) at q' q(2)]])
    fix pr1 assume at1: "tio_at m v (holds_text q) k os pr1"
    obtain k1 pr2 where set: "ioctl_set_vector e km fd v (say ?l1 pr1) = Inr (0, pr2)"
      and at2: "tio_at m v (holds_text q) k1 (os @ [?l1]) pr2" and k1: "moved km b fd k (vec_list (add_refcount i 1 k)) a k1"
      by (rule tio_set [OF call plain tio_at_say [OF at1] q(1) i])
    have call1: "can_call km b fd k1" and vl1: "vec_list k1 = vec_list (add_refcount i 1 k)"
      and vi1: "vector_info k1 = (vector_info k)(current k \<mapsto> a)" "current k1 = current k" using k1 by (simp_all add: moved_def)
    note again = taken_and_left(1,2) [OF i(1) r vl1 vi1]
    have t: "my_text (current_vector k1) k1 = ?t" "my_text a k1 = ?t" "vector_info k1 (own_pid e) = Some a"
      using my_text_recounted [OF vl1] vi1 me by (simp_all add: current_vector_def)
    have left: "returns P (or_free_out (ioctl_remove_vector e km fd v (say ?l3 pr)) (\<lambda>pr.
        let pr = say ([NL] @ ''Process has removed vector. Will verify it by calling ioctl to get process vector '' @ [NL]) pr in
        bindE (umemset0 v MAX_VECTOR_NAME_LEN pr) rest))"
      if at3: "tio_at m v (holds_text q) k1 os3 pr" and os3: "os3 @ [?l3,
        [NL] @ ''Process has removed vector. Will verify it by calling ioctl to get process vector '' @ [NL]] = os @ tio_assign_text ?t"
      for pr os3
    proof -
      obtain k2 pr3 where rem: "ioctl_remove_vector e km fd v (say ?l3 pr) = Inr (refcount (vec_list k ! i), pr3)"
        and at4: "tio_at m v (holds_text q) k2 (os3 @ [?l3]) pr3" and k2: "moved km b fd k1 (vec_list (add_refcount i (- 1) k1)) 0 k2"
        by (rule tio_remove [OF call1 tio_at_say [OF at3] q(1) again r])
      have "vec_list k2 = vec_list k"
        using taken_and_left(3) [OF i(1) r vl1 vi1, of k2] k2 r' vi1 by (simp add: moved_def)
      then have k3: "moved km b fd k (vec_list k) 0 k2" using k1 k2 by (simp add: moved_def)
      show ?thesis
        unfolding or_free_out_passes [OF rem r] Let_def
        by (rule returns_then [OF tio_zero [OF v(1) tio_at_say [OF at4]]], rule rest [OF k3])
          (simp only: os3 [symmetric] append_assoc append_Cons append_Nil)
    qed
    have asked: "returns P (or_free_out (tio_vector_for_pid e km fd v (say ?l2 pr)) (\<lambda>pr.
        bindE (say_string ([NL] @ ''  received vector name is:'' @ [NL]) v pr) (\<lambda>pr.
        bindE (umemset0 v MAX_VECTOR_NAME_LEN pr) (\<lambda>pr.
        bindE (umemcpy v q pr) (\<lambda>pr.
        or_free_out (ioctl_remove_vector e km fd v (say ?l3 pr)) (\<lambda>pr.
        let pr = say ([NL] @ ''Process has removed vector. Will verify it by calling ioctl to get process vector '' @ [NL]) pr in
        bindE (umemset0 v MAX_VECTOR_NAME_LEN pr) rest))))))"
      if at3: "tio_at m v (zeroed MAX_VECTOR_NAME_LEN) k1 (os @ [?l1, tio_assigned] @ tio_current ([NL] @ '' '') ?t) pr" for pr
      by (rule or_free_out_then [OF tio_for_pid [OF call1 v tio_at_say [OF at3] mem t(3,2)]],
          rule returns_then [OF tio_print [OF v(1)]], assumption,
          rule returns_then [OF tio_zero [OF v(1)]], assumption,
          rule returns_then [OF tio_name [OF v(1) _ q' q(2)]], assumption, rule left, assumption)
        (simp add: tio_assign_text_def)
    show "returns P (or_free_out (ioctl_set_vector e km fd v (say ?l1 pr1)) (\<lambda>pr.
        bindE (umemset0 v MAX_VECTOR_NAME_LEN (say tio_assigned pr)) (\<lambda>pr.
        or_free_out (tio_show_mine e km fd v ([NL] @ '' '') pr) (\<lambda>pr.
        bindE (umemcpy v q pr) (\<lambda>pr.
        bindE (umemset0 v MAX_VECTOR_NAME_LEN pr) (\<lambda>pr.
        or_free_out (tio_vector_for_pid e km fd v (say ?l2 pr)) (\<lambda>pr.
        bindE (say_string ([NL] @ ''  received vector name is:'' @ [NL]) v pr) (\<lambda>pr.
        bindE (umemset0 v MAX_VECTOR_NAME_LEN pr) (\<lambda>pr.
        bindE (umemcpy v q pr) (\<lambda>pr.
        or_free_out (ioctl_remove_vector e km fd v (say ?l3 pr)) (\<lambda>pr.
        let pr = say ([NL] @ ''Process has removed vector. Will verify it by calling ioctl to get process vector '' @ [NL]) pr in
        bindE (umemset0 v MAX_VECTOR_NAME_LEN pr) rest)))))))))))"
      unfolding or_free_out_passes [OF set sign]
      by (rule returns_then [OF tio_zero [OF v(1) tio_at_say [OF at2]]],
          rule or_free_out_then [OF tio_shows_mine [OF call1 v(1) _ t(1)]], assumption,
          rule returns_then [OF tio_name [OF v(1) _ q' q(2)]], assumption,
          rule returns_then [OF tio_zero [OF v(1)]], assumption, rule asked)
        (simp only: append_assoc append_Cons append_Nil)
  qed
qed

section \<open>The new vector\<close>

text \<open>As \<open>asks_to_create\<close>, and the device can be asked again: nine blocks are used up at most.\<close>

lemma bitmap_1017: "validate_bitmap 1017 = 0" "length (dyn_calls 1017) = 6"
  by (simp_all add: validate_bitmap_def dyn_calls_def dyn_table_def override_bits)

lemma asks_to_create_more:
  assumes call: "can_call km b fd (kern pr)" and can: "can_create km b 1017 (kern pr)"
    and slots: "Suc (dyn_i (kern pr)) < length (list_heads (kern pr))"
    and p: "umem pr p = Some (Bitmap 1017)"
  shows "\<exists>r er s' va a. user_ioctl km fd IOCTL_CREATE_FROM_BITMAP p pr = Inr (r, pr\<lparr>kern := s', errno := er\<rparr>)
    \<and> (sint r < 0 \<longleftrightarrow> sint (ucast a :: cint) < 0) \<and> ioctl_ready s' \<and> card (dom (heap s')) = card (dom (heap (kern pr))) + 9
    \<and> vec_list s' = stored_vector va (dyn_name 1017) a 1 Mod_dynamic_vector 1017 # vec_list (kern pr)
    \<and> vector_info s' = (vector_info (kern pr))(current (kern pr) \<mapsto> a) \<and> current s' = current (kern pr) \<and> a \<noteq> 0"
proof -
  let ?s = "(kern pr)\<lparr>user_out := Map.empty\<rparr>" and ?u = "user_view (umem pr)" and ?C = IOCTL_CREATE_FROM_BITMAP
  have fd: "0 \<le> sint fd" using call by (simp add: can_call_def)
  have ready: "allocator_ok km" "roomy b km" "ioctl_ready ?s" "card (dom (heap ?s)) + 12 \<le> b"
    "dyn_i ?s < length (list_heads ?s)" "not_copied ?u p 4 = 0" "u_bitmap ?u p = 1017"
    "validate_bitmap 1017 = 0" "bitmap_index 1017 ?s = None"
    using can p by (simp_all add: can_create_def)
  from create_request_runs [OF this] obtain s' t q va es where
    s': "custom_ioctl km ?u ?C p ?s = Inr (scast (ucast (current_vector s') :: cint), s')" "\<not> mutexlock s'"
    "vec_list s' = stored_vector va (dyn_name 1017) (current_vector s') 1 Mod_dynamic_vector 1017 # vec_list (kern pr)"
    "map snd es = dyn_calls 1017" "heap ?s t = None" "heap ?s q = None" "heap ?s va = None" "distinct [t, q, va]"
    "built ((heap ?s)(t \<mapsto> Raw 32, q \<mapsto> Raw (7 + length (sprintf_d (1017 :: uint))), va \<mapsto> Vector_node)) (heap s') (current_vector s') es"
    "vector_info s' = (vector_info ?s)(current ?s \<mapsto> current_vector s')"
    "list_heads s' = (list_heads ?s)[dyn_i ?s := current_vector s']" "dyn_i s' = Suc (dyn_i ?s)" "user_out s' = Map.empty"
    by (auto simp: Let_def)
  let ?h = "(heap ?s)(km (tick ?s) (heap ?s) \<mapsto> Raw BUF_LEN)"
  have "card (dom ?h) \<le> b" using ready(4) by (simp add: card_insert_if)
  then have room: "request_ok km ?u ?C p ?s" using ready(2) by (simp add: request_ok_def roomy_def ioctl_numbers)
  have "texts_fit ?s" using call by (simp add: can_call_def)
  from custom_ioctl_kept [OF ready(1,3) this room] s'(1) have kept: "reg_inv s'" "dyn_listHead s' = 0" "current s' = current (kern pr)"
    by auto
  have es: "length es = 6" using s'(4) bitmap_1017(2) by (metis length_map)
  have "sc_list (heap s') (current_vector s') es" using s'(9) by (simp add: built_def)
  then have a: "current_vector s' \<noteq> 0" using es by (cases es) auto
  have "card (dom (heap s')) = card (dom (heap (kern pr))) + 9"
    using built_card [OF s'(9)] es s'(5-8) by (auto simp: domIff card_insert_if)
  moreover have "ioctl_ready s'" using kept s'(2,11,12) slots by (simp add: ioctl_ready_def)
  moreover obtain r er where r: "libc_ret (scast (ucast (current_vector s') :: cint)) (pr\<lparr>kern := s'\<rparr>) =
      (r, pr\<lparr>kern := s', errno := er\<rparr>)" "sint r < 0 \<longleftrightarrow> sint (ucast (current_vector s') :: cint) < 0"
    by (rule libc_ret_sign)
  moreover have "?C \<noteq> IOCTL_VECTOR_FOR_PID" by (simp add: ioctl_numbers)
  with s'(1,13) fd r(1) have "user_ioctl km fd ?C p pr = Inr (r, pr\<lparr>kern := s', errno := er\<rparr>)"
    by (simp add: user_ioctl_def reply_to_def store_reply_def)
  ultimately show ?thesis using s'(3,10) kept(3) a
    by (intro exI [of _ r] exI [of _ er] exI [of _ s'] exI [of _ va] exI [of _ "current_vector s'"]) simp
qed

definition text_1017 :: string where
  "text_1017 = dyn_name 1017 @ [NL] @ sprintf_lu (1017 :: ulong) @ [NL] @ sprintf_d (1017 :: uint) @ [NL]"

text \<open>What is printed from there on: \<open>failed\<close> when the low half of the new list's address is negative.\<close>

definition tio_created_text :: "bool \<Rightarrow> string list" where
  "tio_created_text failed =
     (if failed
      then [tio_create_line, ''ioctl create vector from bitmap failed'', ''called ioctl successfullly'' @ [NL]]
      else [tio_create_line, ''called ioctl successfullly'' @ [NL], tio_assigned]
        @ tio_current ([NL] @ '' '') text_1017 @ [tio_done_line])"

definition tio_ends ::
  "(addr \<rightharpoonup> ublock) \<Rightarrow> addr \<Rightarrow> 'a ioctl_state_scheme \<Rightarrow> string list \<Rightarrow> cint \<times> 'a ioctl_state_scheme user_proc \<Rightarrow> bool" where
  "tio_ends m v k os = (\<lambda>(ret, pr'). \<exists>va a x. a \<noteq> 0 \<and> umem pr' = m(v \<mapsto> x)
     \<and> vec_list (kern pr') = stored_vector va (dyn_name 1017) a 1 Mod_dynamic_vector 1017 # vec_list k
     \<and> vector_info (kern pr') = (vector_info k)(current k \<mapsto> a)
     \<and> (sint ret < 0 \<longleftrightarrow> sint (ucast a :: cint) < 0) \<and> outs pr' = os @ tio_created_text (sint ret < 0))"

lemma vector_id_1017:
  "vector_text (stored_vector va (dyn_name 1017) a 1 Mod_dynamic_vector 1017) = text_1017"
  "printable (stored_vector va (dyn_name 1017) a 1 Mod_dynamic_vector 1017)"
  "length text_1017 = 21"
proof -
  note n = stored_vector_name [OF dyn_name_ok(1) [of 1017], unfolded dyn_name_ok(2)]
  show "vector_text (stored_vector va (dyn_name 1017) a 1 Mod_dynamic_vector 1017) = text_1017"
    using n by (simp add: vector_text_def text_1017_def)
  show "printable (stored_vector va (dyn_name 1017) a 1 Mod_dynamic_vector 1017)"
    by (rule printable_small) (use n in simp_all)
  have "dec_digits 1017 = ''1017''"
    by (subst dec_digits.simps, simp, subst dec_digits.simps, simp, subst dec_digits.simps, simp,
        subst dec_digits.simps, simp add: digit_def)
  then show "length text_1017 = 21" by (simp add: text_1017_def dyn_name_def sprintf_d_def sprintf_lu_def)
qed

lemma with_1017:
  assumes vl: "vec_list s = stored_vector va (dyn_name 1017) a 1 Mod_dynamic_vector 1017 # vec_list k"
    and fit: "texts_fit k" "length (registry_text (vec_list k)) + 21 < BUF_LEN" and a: "a \<noteq> 0"
  shows "texts_fit s" and "my_text a s = text_1017"
proof -
  note t = vector_id_1017(1,2) [of va a] vector_id_1017(3)
  show "texts_fit s"
    using fit t(2) by (auto simp: texts_fit_def vl registry_text_def t(1,3))
  have "addr_index a s = Some 0" by (simp add: addr_index_def vl stored_vector_def)
  then show "my_text a s = text_1017" using a t(1) by (simp add: my_text_def vl)
qed

lemma tio_created_run:
  assumes call: "can_call km b fd k" and room: "card (dom (heap k)) + 12 \<le> b"
    and slots: "Suc (dyn_i k) < length (list_heads k)" and none: "bitmap_index 1017 k = None"
    and fits: "length (registry_text (vec_list k)) + 21 < BUF_LEN" and v: "v \<noteq> 0"
    and bp: "m bp = Some (Bitmap 1017)" "bp \<noteq> v" and at: "tio_at m v C k os pr"
  shows "returns (tio_ends m v k os) (tio_created e km fd bp v pr)"
proof -
  let ?p = "say tio_create_line pr"
  from at have d: "same_device k (kern pr)" by (simp add: tio_at_def at_point_def)
  note f = same_device_facts [OF d]
  have call': "can_call km b fd (kern ?p)" using call by (simp add: f)
  have slots': "Suc (dyn_i (kern ?p)) < length (list_heads (kern ?p))" using slots d by (simp add: same_device_def)
  have can: "can_create km b 1017 (kern ?p)"
    using call' slots' room none bitmap_1017(1) by (simp add: can_create_def can_call_def f bitmap_index_def)
  have "umem ?p bp = Some (Bitmap 1017)" using at bp by (auto simp: tio_at_def at_point_def)
  from asks_to_create_more [OF call' can slots' this, unfolded user_fields f] obtain r er s' va a where
    run: "user_ioctl km fd IOCTL_CREATE_FROM_BITMAP bp ?p = Inr (r, ?p\<lparr>kern := s', errno := er\<rparr>)"
    and r: "sint r < 0 \<longleftrightarrow> sint (ucast a :: cint) < 0"
    and s': "ioctl_ready s'" "card (dom (heap s')) = card (dom (heap k)) + 9"
      "vec_list s' = stored_vector va (dyn_name 1017) a 1 Mod_dynamic_vector 1017 # vec_list k"
      "vector_info s' = (vector_info k)(current k \<mapsto> a)" "current s' = current k" "a \<noteq> 0" by blast
  from at obtain bs where u: "umem pr = m(v \<mapsto> Bytes bs)" "outs pr = os" by (auto simp: tio_at_def at_point_def)
  note new = with_1017 [OF s'(3) _ fits s'(6)]
  show ?thesis
  proof (cases "sint r < 0")
    case True
    with run u s' r show ?thesis
      by (auto simp: tio_created_def or_free_out_def ioctl3_create_vector_def tio_ends_def tio_created_text_def perror_def)
  next
    case False
    let ?q = "say (''called ioctl successfullly'' @ [NL]) (?p\<lparr>kern := s', errno := er\<rparr>)"
    have made: "ioctl3_create_vector e km fd bp ?p = Inr (r, ?q)" using run False by (simp add: ioctl3_create_vector_def)
    have r': "0 \<le> sint r" using False by simp
    have "tio_at m v C s' os (pr\<lparr>kern := s', errno := er\<rparr>)" using at by (simp add: tio_at_def at_point_def same_device_refl)
    then have at1: "tio_at m v C s' (os @ [tio_create_line, ''called ioctl successfullly'' @ [NL]]) ?q"
      by (simp add: tio_at_def at_point_def)
    have fit: "texts_fit k" using call by (simp add: can_call_def)
    have call1: "can_call km b fd s'" using call s'(1,2) room new(1) [OF fit] by (simp add: can_call_def)
    have t: "my_text (current_vector s') s' = text_1017" using new(2) [OF fit] s'(4,5) by (simp add: current_vector_def)
    have last: "returns (tio_ends m v k os) (Inr (ret, if sint ret < 0 then pr else say tio_done_line pr))"
      if "0 \<le> sint ret \<and> tio_at m v D s' (((os @ [tio_create_line, ''called ioctl successfullly'' @ [NL]]) @ [tio_assigned])
        @ tio_current ([NL] @ '' '') text_1017) pr" for ret pr D
    proof -
      from that obtain bs where "umem pr = m(v \<mapsto> Bytes bs)" "same_device s' (kern pr)" "\<not> sint ret < 0"
        "outs pr @ [tio_done_line] = os @ tio_created_text False"
        by (auto simp: tio_at_def at_point_def tio_created_text_def)
      with s'(3,4,6) r False show ?thesis by (auto simp: tio_ends_def same_device_def)
    qed
    show ?thesis
      unfolding tio_created_def or_free_out_passes [OF made r']
      by (rule returns_then [OF tio_zero [OF v tio_at_say [OF at1]]],
          rule returns_pair [OF tio_shows_mine [OF call1 v _ t]], assumption, rule last)
  qed
qed

section \<open>The run\<close>

text \<open>What is printed before the last part: \<open>t\<close> for the process's first vector, \<open>t'\<close> for the one it takes.\<close>

definition tio_session_text :: "string \<Rightarrow> string \<Rightarrow> string \<Rightarrow> string list" where
  "tio_session_text names t t' =
     [tio_line [NL] ''   calling ioctl to get all vector names      '',
      ([NL] @ ''  names of vectors '' @ [NL] @ '' '') @ names @ [NL]] @ tio_current ''/n'' t
     @ tio_assign_text t' @ tio_current ([NL] @ '' '') ''vector not assigned''"

lemma tio_ends_moved:
  "moved km b fd k (vec_list k) 0 k' \<Longrightarrow> tio_ends m v k' os x \<Longrightarrow> tio_ends m v k os x"
  by (cases x) (simp add: moved_def tio_ends_def)

lemma test_ioctl_session_run:
  assumes call: "can_call km b fd k" and plain: "plain_names k" and room: "card (dom (heap k)) + 12 \<le> b"
    and slots: "Suc (dyn_i k) < length (list_heads k)" and none: "bitmap_index 1017 k = None"
    and fits: "length (registry_text (vec_list k)) + 21 < BUF_LEN" and v: "v \<noteq> 0" "m v = None"
    and bp: "m bp = Some (Bitmap 1017)" "bp \<noteq> v" and at: "tio_at m v C k os pr"
    and q: "length q < 256" "NUL \<notin> set q" and i: "name_index q k = Some i" "overriddenSyscalls_address (vec_list k ! i) = a" "a \<noteq> 0"
    and r: "0 \<le> sint (refcount (vec_list k ! i))" and mem: "malloc_ok e" "malloc_roomy c e" "card (dom m) + 1 < c"
    and me: "own_pid e = current k"
  shows "returns (tio_ends m v k (os @ tio_session_text (all_text k) (my_text (current_vector k) k) (my_text a k)))
    (test_ioctl_session e km fd bp v q pr)"
proof -
  let ?N = MAX_VECTOR_NAME_LEN and ?l = "tio_line [NL] ''   calling ioctl to get all vector names      ''"
  let ?os1 = "((os @ [?l]) @ [([NL] @ ''  names of vectors '' @ [NL] @ '' '') @ all_text k @ [NL]])
    @ tio_current ''/n'' (my_text (current_vector k) k)"
  have last: "returns (tio_ends m v k (os @ tio_session_text (all_text k) (my_text (current_vector k) k) (my_text a k)))
      (or_free_out (tio_show_mine e km fd v ([NL] @ '' '') pr) (tio_created e km fd bp v))"
    if k': "moved km b fd k (vec_list k) 0 k'" and at2: "tio_at m v (zeroed ?N) k' (?os1 @ tio_assign_text (my_text a k)) pr" for k' pr
  proof -
    have call': "can_call km b fd k'" "card (dom (heap k')) + 12 \<le> b" "Suc (dyn_i k') < length (list_heads k')"
      "bitmap_index 1017 k' = None" "length (registry_text (vec_list k')) + 21 < BUF_LEN"
      using k' room slots none fits by (simp_all add: moved_def bitmap_index_def)
    obtain t where t: "t = ''vector not assigned''" by simp
    have mine: "my_text (current_vector k') k' = t" using k' by (simp add: moved_def current_vector_def my_text_def t)
    have os: "os @ tio_session_text (all_text k) (my_text (current_vector k) k) (my_text a k) =
        (?os1 @ tio_assign_text (my_text a k)) @ tio_current ([NL] @ '' '') t"
      by (simp add: tio_session_text_def t)
    show ?thesis
      unfolding os
      by (rule or_free_out_then [OF tio_shows_mine [OF call'(1) v(1) at2 mine]],
          rule returns_weaken [OF tio_created_run [where m = m, OF call' v(1) bp]], assumption, rule tio_ends_moved [OF k'])
  qed
  show ?thesis
    unfolding test_ioctl_session_def Let_def
    by (rule or_free_out_then [OF tio_all [OF call v(1) tio_at_say [OF at]]],
        rule returns_then [OF tio_print [OF v(1)]], assumption,
        rule returns_then [OF tio_zero [OF v(1)]], assumption,
        rule or_free_out_then [OF tio_shows_mine [OF call v(1) _ refl]], assumption,
        rule tio_assign_runs [where m = m, OF call plain v _ q i r mem me], assumption, rule last)
qed

text \<open>\<open>main\<close>: the blocks it takes first are given back last.\<close>

lemma ufree_three:
  assumes "m a = None" "m b = None" "m d = None" and "a \<noteq> b" "a \<noteq> d" "b \<noteq> d" and "a \<noteq> 0" "b \<noteq> 0" "d \<noteq> 0"
    and u: "umem pr = m(a \<mapsto> x, b \<mapsto> y, d \<mapsto> z)"
  shows "bindE (ufree a pr) (\<lambda>pr. bindE (ufree b pr) (\<lambda>pr. bindE (ufree d pr) f)) = f (pr\<lparr>umem := m\<rparr>)"
proof -
  have "(m(a \<mapsto> x, b \<mapsto> y, d \<mapsto> z))(a := None) = m(b \<mapsto> y, d \<mapsto> z)" using assms(1,4,5) by (auto simp: fun_eq_iff)
  then have "ufree a pr = Inr (pr\<lparr>umem := m(b \<mapsto> y, d \<mapsto> z)\<rparr>)" using assms(4-9) by (simp add: ufree_def u)
  then show ?thesis
    using ufree_two [OF assms(2,3,6,8,9), of "pr\<lparr>umem := m(b \<mapsto> y, d \<mapsto> z)\<rparr>" y z f] by simp
qed

lemma test_ioctl_main_run:
  assumes call: "can_call km b (open_path e device_path) (kern pr)" and plain: "plain_names (kern pr)"
    and room: "card (dom (heap (kern pr))) + 12 \<le> b" "Suc (dyn_i (kern pr)) < length (list_heads (kern pr))"
    and none: "bitmap_index 1017 (kern pr) = None" and fits: "length (registry_text (vec_list (kern pr))) + 21 < BUF_LEN"
    and mem: "malloc_ok e" "malloc_roomy c e" "card (dom (umem pr)) + 4 \<le> c" and me: "own_pid e = current (kern pr)"
    and argv: "2 \<le> length argv" "length (argv ! 1) < 256" "NUL \<notin> set (argv ! 1)"
    and i: "name_index (argv ! 1) (kern pr) = Some i" "overriddenSyscalls_address (vec_list (kern pr) ! i) = a" "a \<noteq> 0"
    and r: "0 \<le> sint (refcount (vec_list (kern pr) ! i))"
  shows "\<exists>ret pr' va a'. test_ioctl_main e km argv pr = Inr (ret, pr') \<and> umem pr' = umem pr \<and> a' \<noteq> 0
    \<and> vec_list (kern pr') = stored_vector va (dyn_name 1017) a' 1 Mod_dynamic_vector 1017 # vec_list (kern pr)
    \<and> vector_info (kern pr') = (vector_info (kern pr))(current (kern pr) \<mapsto> a')
    \<and> (sint ret < 0 \<longleftrightarrow> sint (ucast a' :: cint) < 0)
    \<and> outs pr' = outs pr @ (''pid : '' @ sprintf_d (own_pid e) @ [NL])
        # tio_session_text (all_text (kern pr)) (my_text (current_vector (kern pr)) (kern pr)) (my_text a (kern pr))
        @ tio_created_text (sint ret < 0)"
proof -
  let ?m = "umem pr" and ?N = MAX_VECTOR_NAME_LEN and ?q = "argv ! 1"
  obtain pid where pid: "pid = ''pid : '' @ sprintf_d (own_pid e) @ [NL]" by simp
  obtain bp where bp: "bp = malloc e 4 ?m" by simp
  have "card (dom ?m) < c" using mem(3) by simp
  note zb = zeroed_malloc [OF mem(1,2) this bp]
  let ?mb = "?m(bp \<mapsto> Bitmap 1017)"
  let ?p1 = "say pid (pr\<lparr>umem := ?mb\<rparr>)"
  have store: "ustore_bitmap bp 1017 (pr\<lparr>umem := ?m(bp \<mapsto> Bytes (fresh_bytes e 4))\<rparr>) = Inr (pr\<lparr>umem := ?mb\<rparr>)"
    using zb(1) by (subst ustore_bitmap_cases(3)) simp_all
  obtain f where f: "f = malloc e (length device_path + 1) ?mb" by simp
  have "card (dom ?mb) < c" using mem(3) zb(3) by simp
  note zf = zeroed_malloc [OF mem(1,2) this f]
  let ?mf = "?mb(f \<mapsto> Bytes (device_path @ [NUL]))"
  let ?p2 = "?p1\<lparr>umem := ?mf\<rparr>"
  have "drop (length device_path) (replicate (length device_path + 1) NUL) = [NUL]"
    by (simp add: drop_replicate del: replicate_Suc) simp
  then have copy: "umemcpy f device_path (?p1\<lparr>umem := ?mb(f \<mapsto> Bytes (replicate (length device_path + 1) NUL))\<rparr>) = Inr ?p2"
    using zf(1) by (subst umemcpy_bytes [where b = "replicate (length device_path + 1) NUL"]) (simp_all del: replicate_Suc)
  obtain v where v: "v = malloc e ?N ?mf" by simp
  have "card (dom ?mf) < c" using zf(3) zb(3) mem(3) by simp
  note zv = zeroed_malloc [OF mem(1,2) this v]
  have fresh: "?m bp = None" "?m f = None" "?m v = None" "bp \<noteq> f" "bp \<noteq> v" "f \<noteq> v"
    using zb(2) zf(2) zv(2) by (auto split: if_splits)
  let ?p3 = "?p2\<lparr>umem := ?mf(v \<mapsto> Bytes (replicate ?N NUL))\<rparr>"
  have at0: "tio_at ?mf v (zeroed ?N) (kern pr) (outs pr @ [pid]) ?p3"
    by (auto simp: tio_at_def at_point_def zeroed_def same_device_refl BUF_LEN_def MAX_VECTOR_NAME_LEN_def)
  have q: "length ?q < ?N" using argv(2) by (simp add: MAX_VECTOR_NAME_LEN_def)
  obtain p4 where named: "umemcpy v ?q ?p3 = Inr p4" and at: "tio_at ?mf v (holds_text ?q) (kern pr) (outs pr @ [pid]) p4"
    using tio_name [OF zv(1) at0 q argv(3)] by (auto simp: returns_def)
  have fn: "bytes_at f (umem p4) = Inr (device_path @ [NUL])" "c_string (device_path @ [NUL]) = device_path"
    using at zf(1) fresh(6) by (auto simp: tio_at_def at_point_def bytes_at_def c_string_append_terminated device_path_facts)
  have fd: "(sint (open_path e device_path) < 0) = False" using call by (auto simp: can_call_def)
  have len: "(length argv < 2 \<or> ?N < length ?q) = False" using argv(1) q by auto
  have "card (dom ?mf) + 1 < c" using zf(3) zb(3) mem(3) by simp
  from test_ioctl_session_run [OF call plain room none fits zv(1,2) _ fresh(5) at argv(2,3) i r mem(1,2) this me] fresh(4)
  obtain ret p5 where run: "test_ioctl_session e km (open_path e device_path) bp v ?q p4 = Inr (ret, p5)"
    and ends: "tio_ends ?mf v (kern pr) ((outs pr @ [pid]) @ tio_session_text (all_text (kern pr))
      (my_text (current_vector (kern pr)) (kern pr)) (my_text a (kern pr))) (ret, p5)"
    by (auto simp: returns_def)
  from ends obtain x where u: "umem p5 = ?mf(v \<mapsto> x)" by (auto simp: tio_ends_def)
  have free: "bindE (ufree bp p5) (\<lambda>pr. bindE (ufree f pr) (\<lambda>pr. bindE (ufree v pr) (\<lambda>pr. Inr (ret, pr)))) =
      Inr (ret, p5\<lparr>umem := ?m\<rparr>)"
    by (rule ufree_three [OF fresh zb(1) zf(1) zv(1) u])
  have m: "umalloc e 4 pr = (bp, pr\<lparr>umem := ?m(bp \<mapsto> Bytes (fresh_bytes e 4))\<rparr>)"
    "umalloc e (length device_path + 1) ?p1 = (f, ?p1\<lparr>umem := ?mb(f \<mapsto> Bytes (fresh_bytes e (length device_path + 1)))\<rparr>)"
    "umalloc e ?N ?p2 = (v, ?p2\<lparr>umem := ?mf(v \<mapsto> Bytes (fresh_bytes e ?N))\<rparr>)"
    by (rule zb(4) zf(4) zv(4), simp)+
  have "test_ioctl_main e km argv pr = Inr (ret, p5\<lparr>umem := ?m\<rparr>)"
    unfolding test_ioctl_main_def Let_def m(1) case_prod_conv store bindE_Inr len if_False pid [symmetric] m(2)
      if_not_P [OF zf(1)] zf(5) copy m(3) if_not_P [OF zv(1)] zv(5) named fn fd run
    by (rule free)
  with ends show ?thesis
    unfolding pid [symmetric] by (intro exI [of _ ret] exI [of _ "p5\<lparr>umem := ?m\<rparr>"]) (auto simp: tio_ends_def)
qed

end
