(* ===== verification/Program_Properties.thy ===== *)
theory Program_Properties
  imports Sample_States Demo_Create Demo_Files Test_Programs Test_Ioctl
begin

text \<open>
  Properties of the programs under \<open>demo\<close>, each a run from start to end: what it prints and what it
  leaves in the kernel.
\<close>

section \<open>A sample process\<close>

text \<open>
  The kernel after \<open>vector2_module\<close> and a vector of bitmap 23 were made; a process on it with an
  empty memory; an environment whose \<open>open\<close> gives the descriptor 3.
\<close>

definition demo_kernel :: syscall_state where
  "demo_kernel = boot\<lparr>heap := [16 \<mapsto> Vector_node, 48 \<mapsto> Vector_node], tick := 2,
     vec_list := [stored_vector 48 ''Vector23'' 64 0 Mod_dynamic_vector 23,
       stored_vector 16 ''Vector968'' 32 0 Mod_vector2 968],
     chrdev := True, sysptr := True\<rparr>"

definition demo_env :: user_env where
  "demo_env = \<lparr>malloc = (\<lambda>n m. km40 0 (\<lambda>a. map_option (\<lambda>_. Vector_node) (m a))),
     fresh_bytes = (\<lambda>n. replicate n NUL), open_path = (\<lambda>_. 3), strerror = (\<lambda>_. ''''), own_pid = 1\<rparr>"

definition process_on :: "'k \<Rightarrow> (addr \<rightharpoonup> ublock) \<Rightarrow> 'k user_proc" where
  "process_on k m = \<lparr>kern = k, umem = m, errno = 0, outs = [], errs = []\<rparr>"

lemma process_on_fields [simp]:
  "kern (process_on k m) = k" "umem (process_on k m) = m" "outs (process_on k m) = []" "errs (process_on k m) = []"
  by (simp_all add: process_on_def)

lemma demo_env_fields [simp]:
  "open_path demo_env t = 3" "own_pid demo_env = 1" "fresh_bytes demo_env n = replicate n NUL"
  by (simp_all add: demo_env_def)

lemma demo_malloc: "malloc_ok demo_env" "malloc_roomy 40 demo_env"
proof -
  have m: "malloc demo_env n m = km40 0 (\<lambda>a. map_option (\<lambda>_. Vector_node) (m a))" for n m
    by (simp add: demo_env_def)
  have "map_option (\<lambda>_. Vector_node) (m a) = None \<Longrightarrow> m a = None" for m :: "addr \<rightharpoonup> ublock" and a by simp
  then show "malloc_ok demo_env"
    unfolding malloc_ok_def m using allocator_okD(1) [OF km40_ok(1)] by (metis demo_env_fields(3) length_replicate)
  have "dom (\<lambda>a. map_option (\<lambda>_. Vector_node) (m a)) = dom m" for m :: "addr \<rightharpoonup> ublock" by (auto simp: dom_def)
  then show "malloc_roomy 40 demo_env"
    unfolding malloc_roomy_def m by (simp add: km40_nonzero)
qed

lemma names_demo:
  "name_ok (''Vector968'' @ [NUL])" "c_string (''Vector968'' @ [NUL]) = ''Vector968''"
  "name_ok (''Vector23'' @ [NUL])" "c_string (''Vector23'' @ [NUL]) = ''Vector23''"
  by (simp_all add: name_ok_def MAX_VECTOR_NAME_LEN_def)

lemma stored_demo:
  "c_string (vector_name (stored_vector a ''Vector968'' b r m c)) = ''Vector968''"
  "terminated (vector_name (stored_vector a ''Vector968'' b r m c))"
  "length (vector_name (stored_vector a ''Vector968'' b r m c)) = MAX_VECTOR_NAME_LEN"
  "c_string (vector_name (stored_vector a ''Vector23'' b r m c)) = ''Vector23''"
  "terminated (vector_name (stored_vector a ''Vector23'' b r m c))"
  "length (vector_name (stored_vector a ''Vector23'' b r m c)) = MAX_VECTOR_NAME_LEN"
  using stored_vector_name [OF names_demo(1)] stored_vector_name [OF names_demo(3)]
  unfolding names_demo(2,4) by simp_all

lemma demo_kernel_fields [simp]:
  "vec_list demo_kernel = [stored_vector 48 ''Vector23'' 64 0 Mod_dynamic_vector 23,
     stored_vector 16 ''Vector968'' 32 0 Mod_vector2 968]"
  "heap demo_kernel = [16 \<mapsto> Vector_node, 48 \<mapsto> Vector_node]" "current demo_kernel = 1"
  "vector_info demo_kernel = [1 \<mapsto> 0]"
  by (simp_all add: demo_kernel_def boot_def)

lemma demo_kernel_ready: "ioctl_ready demo_kernel"
  by (simp add: ioctl_ready_def reg_inv_def reg_ok_def stored_demo demo_kernel_def boot_def)

lemma demo_kernel_index:
  "name_index ''Vector968'' demo_kernel = Some 1" "bitmap_index 23 demo_kernel = Some 0"
  by (simp_all add: name_index_def bitmap_index_def stored_demo)

lemma digits_demo: "dec_digits 23 = ''23''" "dec_digits 968 = ''968''"
  by (subst dec_digits.simps, simp add: digit_def)+

lemma sprintf_demo:
  "sprintf_d 23 = ''23''" "sprintf_lu 23 = ''23''" "sprintf_d 968 = ''968''" "sprintf_lu 968 = ''968''"
  by (simp_all add: sprintf_d_def sprintf_lu_def digits_demo)

lemma demo_kernel_texts: "texts_fit demo_kernel" "plain_names demo_kernel" "one_line_names (vec_list demo_kernel)"
proof -
  have p: "printable (stored_vector a ''Vector968'' b r m 968)" "printable (stored_vector a ''Vector23'' b r m 23)" for a b r m
    by (rule printable_small; simp add: stored_demo)+
  show "texts_fit demo_kernel"
    by (simp add: texts_fit_def registry_text_def p vector_text_def stored_demo sprintf_demo BUF_LEN_def)
  show "plain_names demo_kernel" "one_line_names (vec_list demo_kernel)"
    by (simp_all add: plain_names_def one_line_names_def stored_demo)
qed

section \<open>The client that prints the registry\<close>

text \<open>
  C21. \<open>user_ioctl1.c\<close>: with memory and a registry that fits the device's buffer, the program prints
  its process number and then every vector of the registry, name, id, bitmap and overrides, in the order
  of the list. It gives back all its memory and changes neither the registry nor any process. When
  the device cannot be opened it says so and ends with the result 0 of a success.
\<close>

theorem registry_printed_by_client:
  assumes "allocator_ok km" "roomy b km" and "ioctl_ready (kern pr)" and "card (dom (heap (kern pr))) + 2 \<le> b"
    and "texts_fit (kern pr)" "one_line_names (vec_list (kern pr))"
    and "malloc_ok e" "malloc_roomy c e" "card (dom (umem pr)) + 2 \<le> c"
  shows "\<exists>s'. ioctl1_main e km pr = Inr (0, pr\<lparr>kern := s', outs := outs pr @ (''pid : '' @ sprintf_d (own_pid e) @ [NL]) #
      (if sint (open_path e device_path) < 0 then [''Can't open file: '' @ device_path @ [NL]]
       else (''calling ioctl to get all vector names '' @ [NL]) #
         (if vec_list (kern pr) = [] then [rule_line, ''The vector name is : no vectors present'' @ [NL]]
          else concat (map shown (vec_list (kern pr)))))\<rparr>)
    \<and> heap s' = heap (kern pr) \<and> vec_list s' = vec_list (kern pr) \<and> vector_info s' = vector_info (kern pr)"
  using ioctl1_main_run [OF assms] unfolding all_shown_def .

theorem registry_printed_by_client_witness:
  "\<exists>pr'. ioctl1_main demo_env km40 (process_on demo_kernel Map.empty) = Inr (0, pr') \<and> umem pr' = Map.empty
    \<and> outs pr' = [''pid : '' @ sprintf_d (1 :: pid) @ [NL], ''calling ioctl to get all vector names '' @ [NL]]
        @ concat (map shown (vec_list demo_kernel))"
proof -
  have "card (dom (heap (kern (process_on demo_kernel Map.empty)))) + 2 \<le> 40"
    "card (dom (umem (process_on demo_kernel Map.empty))) + 2 \<le> 40" by simp_all
  from registry_printed_by_client [OF km40_ok _ this(1) _ _ demo_malloc this(2)] show ?thesis
    using demo_kernel_ready demo_kernel_texts by auto
qed

section \<open>The program that clones under a vector\<close>



section \<open>The programs that ask for a vector\<close>



section \<open>The programs that use files under a vector\<close>

text \<open>A registry with one vector of the name asked for, and file calls that do nothing but fail or succeed.\<close>

definition named_kernel :: "string \<Rightarrow> cint \<Rightarrow> syscall_state" where
  "named_kernel q r = (one_vector 0)\<lparr>vec_list := [stored_vector 16 q 32 r Mod_vector1 55], vector_info := [1 \<mapsto> 0, 2 \<mapsto> 32]\<rparr>"

definition quiet_files :: "(string \<Rightarrow> bool) \<Rightarrow> 'p file_calls" where
  "quiet_files opens = \<lparr>f_open = (\<lambda>p fl pr. Inr (if opens p then 3 else - 1, pr)), f_close = (\<lambda>fd pr. Inr (0, pr)),
     f_read = (\<lambda>fd a n pr. Inr (0, pr)), f_write = (\<lambda>fd a n pr. Inr (of_nat n, pr)), f_link = (\<lambda>p q pr. Inr (0, pr)),
     f_unlink = (\<lambda>p pr. Inr (0, pr)), f_mkdir = (\<lambda>p n pr. Inr (0, pr)), f_rmdir = (\<lambda>p pr. Inr (0, pr))\<rparr>"

lemma quiet_files_apart: "files_apart opens (quiet_files opens)" "reads_into (quiet_files opens)"
proof -
  show "files_apart opens (quiet_files opens)"
    by (simp add: files_apart_def quiet_files_def file_kept_def same_device_refl)
  show "reads_into (quiet_files opens)"
    by (auto simp: reads_into_def quiet_files_def file_kept_def same_device_refl map_upd_triv intro!: exI)
qed

lemma quiet_files_prefix: "reads_at_most (quiet_files opens)"
  unfolding reads_at_most_def
proof (intro allI impI)
  fix fd a n b and pr :: "'a ioctl_state_scheme user_proc"
  assume "umem pr a = Some (Bytes b)" "n \<le> length b"
  then have "length (take n b) = n \<and> file_kept (pr\<lparr>umem := (umem pr)(a \<mapsto> Bytes (take n b @ drop n b))\<rparr>) (0, pr)"
    by (simp add: file_kept_def same_device_refl map_upd_triv)
  then show "returns (\<lambda>x. \<exists>b'. length b' = n \<and> file_kept (pr\<lparr>umem := (umem pr)(a \<mapsto> Bytes (b' @ drop n b))\<rparr>) x)
      (f_read (quiet_files opens) fd a n pr)"
    by (auto simp: quiet_files_def simp del: append_take_drop_id length_take)
qed

lemma named_kernel_facts:
  assumes "name_ok (q @ [NUL])" "c_string (q @ [NUL]) = q" "q \<noteq> []" "NL \<notin> set q" "length q < 20"
  shows "can_call km40 40 0 (named_kernel q r)" "plain_names (named_kernel q r)" "name_index q (named_kernel q r) = Some 0"
    "vec_list (named_kernel q r) = [stored_vector 16 q 32 r Mod_vector1 55]"
    "vector_info (named_kernel q r) = [1 \<mapsto> 0, 2 \<mapsto> 32]" "current (named_kernel q r) = 1"
proof -
  have n: "c_string (vector_name (stored_vector a q b r m c)) = q" "terminated (vector_name (stored_vector a q b r m c))"
    "length (vector_name (stored_vector a q b r m c)) = MAX_VECTOR_NAME_LEN" for a b r m c
    using stored_vector_name [OF assms(1)] unfolding assms(2) by simp_all
  have p: "printable (stored_vector 16 q 32 r Mod_vector1 55)" by (rule printable_small) (simp_all add: n)
  have "vector_text (stored_vector 16 q 32 r Mod_vector1 55) = q @ [NL] @ ''55'' @ [NL] @ ''55'' @ [NL]"
    by (simp add: vector_text_def n sprintf55)
  then have "texts_fit (named_kernel q r)"
    using p assms(5) by (simp add: texts_fit_def named_kernel_def registry_text_def BUF_LEN_def)
  moreover have "ioctl_ready (named_kernel q r)"
    by (simp add: named_kernel_def ioctl_ready_def reg_inv_def reg_ok_def n one_vector_heap)
  ultimately show "can_call km40 40 0 (named_kernel q r)"
    by (simp add: can_call_def km40_ok named_kernel_def one_vector_heap)
  show "plain_names (named_kernel q r)" using assms(3,4) by (simp add: plain_names_def named_kernel_def n)
  show "name_index q (named_kernel q r) = Some 0" by (simp add: name_index_def named_kernel_def n)
qed (simp_all add: named_kernel_def)

text \<open>
  C25. \<open>user_write.c\<close>, with \<open>Vector4\<close> registered: if its file can be opened it takes the vector, makes its
  calls, leaves the vector and ends with the registry as it was, running under none. If the file cannot
  be opened it asks the device to leave a vector it never took: a reference counted for another
  process is given back, and the program loses the vector it ran under. In both cases it frees its memory.
\<close>

theorem user_write_references:
  assumes "files_apart opens fc" "opens device_path" and "can_call km b 0 (kern pr)"
    and "plain_names (kern pr)" and "malloc_ok e" "malloc_roomy c e" "card (dom (umem pr)) + 2 \<le> c"
    and "umem pr p = None"
    and "name_index ''Vector4'' (kern pr) = Some i" "overriddenSyscalls_address (vec_list (kern pr) ! i) = a" "a \<noteq> 0"
    and "0 \<le> sint (refcount (vec_list (kern pr) ! i))"
  shows "\<exists>pr'. user_write_main e km fc p pr = Inr pr' \<and> umem pr' = umem pr \<and> heap (kern pr') = heap (kern pr)
    \<and> (if opens ''normal.txt''
       then vec_list (kern pr') = vec_list (kern pr)
         \<and> vector_info (kern pr') = (vector_info (kern pr))(current (kern pr) \<mapsto> 0)
         \<and> last (outs pr') = buf_is @ ''vector not assigned'' @ [NL]
       else vec_list (kern pr') = vec_list (add_refcount i (- 1) (kern pr))
         \<and> vector_info (kern pr') = (if sint (refcount (vec_list (kern pr) ! i) - 1) < 0 then vector_info (kern pr)
             else (vector_info (kern pr))(current (kern pr) \<mapsto> 0))
         \<and> last (outs pr') = ''file not opened'' @ [NL])"
  using user_write_main_run [OF assms] unfolding write_leaves_def .

theorem user_write_references_witness:
  "\<exists>pr'. user_write_main demo_env km40 (quiet_files (\<lambda>p. p = device_path)) 2000
      (process_on (named_kernel ''Vector4'' 1) Map.empty) = Inr pr'
    \<and> vec_list (kern pr') = [stored_vector 16 ''Vector4'' 32 0 Mod_vector1 55] \<and> vector_info (kern pr') 2 = Some 32"
proof -
  let ?k = "named_kernel ''Vector4'' 1" and ?p = "process_on (named_kernel ''Vector4'' 1) Map.empty"
  let ?opens = "\<lambda>p. p = device_path"
  have "name_ok (''Vector4'' @ [NUL])" "c_string (''Vector4'' @ [NUL]) = ''Vector4''" "''Vector4'' \<noteq> []"
    "NL \<notin> set ''Vector4''" "length ''Vector4'' < 20"
    by (simp_all add: name_ok_def MAX_VECTOR_NAME_LEN_def)
  note k = named_kernel_facts [OF this, of 1]
  have f: "card (dom (umem ?p)) + 2 \<le> 40" "umem ?p 2000 = None" "can_call km40 40 0 (kern ?p)" "plain_names (kern ?p)"
    "name_index ''Vector4'' (kern ?p) = Some 0" "overriddenSyscalls_address (vec_list (kern ?p) ! 0) = 32" "(32 :: addr) \<noteq> 0"
    "0 \<le> sint (refcount (vec_list (kern ?p) ! 0))"
    using k by (simp_all add: stored_vector_def)
  have n: "\<not> ?opens ''normal.txt''" by (simp add: device_path_def)
  from user_write_references [where opens = ?opens, OF quiet_files_apart(1) refl f(3,4) demo_malloc f(1,2,5-8), unfolded if_not_P [OF n]]
  obtain q where q: "user_write_main demo_env km40 (quiet_files ?opens) 2000 ?p = Inr q"
    "vec_list (kern q) = vec_list (add_refcount 0 (- 1) ?k)"
    "vector_info (kern q) = (if sint (refcount (vec_list ?k ! 0) - 1) < 0 then vector_info ?k else (vector_info ?k)(current ?k \<mapsto> 0))"
    by (auto simp del: if_split_asm)
  have "vec_list (kern q) = [stored_vector 16 ''Vector4'' 32 0 Mod_vector1 55]"
    unfolding q(2) by (simp add: add_refcount_def k(4) stored_vector_def)
  moreover have "vector_info (kern q) 2 = Some 32" unfolding q(3) by (simp add: k(5,6))
  ultimately show ?thesis using q(1) by blast
qed

text \<open>
  \<open>user_code.c\<close>, with \<open>Vector3\<close> registered and a process that asks about itself: whatever its file calls
  answer, it ends with the registry and the counts as they were and under no vector, and its
  \<open>struct pid_n_buf\<close> is never freed.
\<close>

theorem user_code_leaves:
  assumes "files_apart opens fc" "reads_into fc" "opens device_path" and "can_call km b 0 (kern pr)"
    and "plain_names (kern pr)" and "malloc_ok e" "malloc_roomy c e" "card (dom (umem pr)) + 3 \<le> c"
    and "umem pr buf = None" "umem pr p = None" "buf \<noteq> p" "buf \<noteq> 0" "length junk = 1024"
    and "own_pid e = current (kern pr)"
    and "name_index ''Vector3'' (kern pr) = Some i" "overriddenSyscalls_address (vec_list (kern pr) ! i) = a" "a \<noteq> 0"
    and "0 \<le> sint (refcount (vec_list (kern pr) ! i))"
  shows "\<exists>pr' pb. user_code_main e km fc buf p junk pr = Inr pr' \<and> umem pr pb = None
    \<and> umem pr' = (umem pr)(pb \<mapsto> Pid_n_buf (own_pid e) buf) \<and> heap (kern pr') = heap (kern pr)
    \<and> vec_list (kern pr') = vec_list (kern pr) \<and> vector_info (kern pr') = (vector_info (kern pr))(current (kern pr) \<mapsto> 0)
    \<and> last (outs pr') = buf_is @ ''vector not assigned'' @ [NL]"
  by (rule user_code_main_run [OF assms])

theorem user_code_leaves_witness:
  "\<exists>pr' pb. user_code_main demo_env km40 (quiet_files (\<lambda>_. True)) 3000 2000 (replicate 1024 NUL)
      (process_on (named_kernel ''Vector3'' 1) Map.empty) = Inr pr'
    \<and> vec_list (kern pr') = [stored_vector 16 ''Vector3'' 32 1 Mod_vector1 55] \<and> umem pr' pb \<noteq> None"
proof -
  let ?k = "named_kernel ''Vector3'' 1" and ?p = "process_on (named_kernel ''Vector3'' 1) Map.empty"
  have "name_ok (''Vector3'' @ [NUL])" "c_string (''Vector3'' @ [NUL]) = ''Vector3''" "''Vector3'' \<noteq> []"
    "NL \<notin> set ''Vector3''" "length ''Vector3'' < 20"
    by (simp_all add: name_ok_def MAX_VECTOR_NAME_LEN_def)
  note k = named_kernel_facts [OF this, of 1]
  have f: "card (dom (umem ?p)) + 3 \<le> 40" "umem ?p 3000 = None" "umem ?p 2000 = None" "(3000 :: addr) \<noteq> 2000" "(3000 :: addr) \<noteq> 0"
    "length (replicate 1024 NUL) = 1024" "own_pid demo_env = current (kern ?p)"
    "can_call km40 40 0 (kern ?p)" "plain_names (kern ?p)" "name_index ''Vector3'' (kern ?p) = Some 0"
    "overriddenSyscalls_address (vec_list (kern ?p) ! 0) = 32" "(32 :: addr) \<noteq> 0" "0 \<le> sint (refcount (vec_list (kern ?p) ! 0))"
    using k by (simp_all add: stored_vector_def)
  from user_code_leaves [OF quiet_files_apart TrueI f(8,9) demo_malloc f(1-7,10-13)] obtain q pb where
    q: "user_code_main demo_env km40 (quiet_files (\<lambda>_. True)) 3000 2000 (replicate 1024 NUL) ?p = Inr q"
      "umem q = (umem ?p)(pb \<mapsto> Pid_n_buf (own_pid demo_env) 3000)" "vec_list (kern q) = vec_list (kern ?p)" by blast
  have "umem q pb \<noteq> None" by (simp add: q(2))
  moreover have "vec_list (kern q) = [stored_vector 16 ''Vector3'' 32 1 Mod_vector1 55]" by (simp add: q(3) k(4))
  ultimately show ?thesis using q(1) by blast
qed



text \<open>
  C23. \<open>test_ioctl.c\<close> sends all six requests in one run: given the name of a registered vector it prints the
  registry and its own vector, takes the vector, is shown it in both ways, leaves it, is shown none, and
  gets a new vector of the bitmap 1017. It ends with its memory given back, every old vector and count
  as it was, and running under the new vector; the last vector is printed and the result not negative
  unless the low half of the new list's address is negative, when the program says it has failed.
\<close>

theorem all_requests_in_one_run:
  assumes "can_call km b (open_path e device_path) (kern pr)" and "plain_names (kern pr)"
    and "card (dom (heap (kern pr))) + 12 \<le> b" "Suc (dyn_i (kern pr)) < length (list_heads (kern pr))"
    and "bitmap_index 1017 (kern pr) = None" and "length (registry_text (vec_list (kern pr))) + 21 < BUF_LEN"
    and "malloc_ok e" "malloc_roomy c e" "card (dom (umem pr)) + 4 \<le> c" and "own_pid e = current (kern pr)"
    and "2 \<le> length argv" "length (argv ! 1) < 256" "NUL \<notin> set (argv ! 1)"
    and "name_index (argv ! 1) (kern pr) = Some i" "overriddenSyscalls_address (vec_list (kern pr) ! i) = a" "a \<noteq> 0"
    and "0 \<le> sint (refcount (vec_list (kern pr) ! i))"
  shows "\<exists>ret pr' va a'. test_ioctl_main e km argv pr = Inr (ret, pr') \<and> umem pr' = umem pr \<and> a' \<noteq> 0
    \<and> vec_list (kern pr') = stored_vector va (dyn_name 1017) a' 1 Mod_dynamic_vector 1017 # vec_list (kern pr)
    \<and> vector_info (kern pr') = (vector_info (kern pr))(current (kern pr) \<mapsto> a')
    \<and> (sint ret < 0 \<longleftrightarrow> sint (ucast a' :: cint) < 0)
    \<and> outs pr' = outs pr @ (''pid : '' @ sprintf_d (own_pid e) @ [NL])
        # tio_session_text (all_text (kern pr)) (my_text (current_vector (kern pr)) (kern pr)) (my_text a (kern pr))
        @ tio_created_text (sint ret < 0)"
  by (rule test_ioctl_main_run [OF assms])

theorem all_requests_in_one_run_witness:
  "\<exists>ret q va a'. test_ioctl_main demo_env km40 [''test_ioctl'', ''Vector55''] (process_on (named_kernel ''Vector55'' 0) Map.empty) = Inr (ret, q)
    \<and> umem q = Map.empty \<and> vector_info (kern q) 1 = Some a'
    \<and> vec_list (kern q) = [stored_vector va (dyn_name 1017) a' 1 Mod_dynamic_vector 1017,
        stored_vector 16 ''Vector55'' 32 0 Mod_vector1 55]"
proof -
  let ?k = "named_kernel ''Vector55'' 0"
  let ?p = "process_on ?k Map.empty" and ?argv = "[''test_ioctl'', ''Vector55'']"
  have "name_ok (''Vector55'' @ [NUL])" "c_string (''Vector55'' @ [NUL]) = ''Vector55''" "''Vector55'' \<noteq> []"
    "NL \<notin> set ''Vector55''" "length ''Vector55'' < 20"
    by (simp_all add: name_ok_def MAX_VECTOR_NAME_LEN_def)
  note k = named_kernel_facts [OF this, of 0]
  have "can_call km40 40 (open_path demo_env device_path) (kern ?p)"
    using k(1) by (simp add: can_call_def)
  moreover have "card (dom (heap (kern ?p))) + 12 \<le> 40" "Suc (dyn_i (kern ?p)) < length (list_heads (kern ?p))"
    "bitmap_index 1017 (kern ?p) = None"
    by (simp_all add: named_kernel_def one_vector_heap bitmap_index_def stored_vector_def)
  moreover have "length (registry_text (vec_list (kern ?p))) + 21 < BUF_LEN"
    by (simp add: k(4) registry_text_def text55 BUF_LEN_def)
  moreover have "card (dom (umem ?p)) + 4 \<le> 40" "own_pid demo_env = current (kern ?p)" "2 \<le> length ?argv"
    "length (?argv ! 1) < 256" "NUL \<notin> set (?argv ! 1)" "name_index (?argv ! 1) (kern ?p) = Some 0"
    "overriddenSyscalls_address (vec_list (kern ?p) ! 0) = 32" "(32 :: addr) \<noteq> 0"
    "0 \<le> sint (refcount (vec_list (kern ?p) ! 0))"
    using k(3-6) by (simp_all add: stored_vector_def)
  moreover have "plain_names (kern ?p)" using k(2) by simp
  ultimately obtain ret q va a' where "test_ioctl_main demo_env km40 ?argv ?p = Inr (ret, q)" "umem q = Map.empty"
    "vec_list (kern q) = stored_vector va (dyn_name 1017) a' 1 Mod_dynamic_vector 1017 # vec_list ?k"
    "vector_info (kern q) = (vector_info ?k)(current ?k \<mapsto> a')"
    using all_requests_in_one_run [OF _ _ _ _ _ _ demo_malloc, of km40 40 ?p ?argv 0 32] by auto
  then show ?thesis unfolding k(4-6) by (intro exI [of _ ret] exI [of _ q] exI [of _ va] exI [of _ a']) simp
qed

end
