(* ===== verification/Vector_Machine.thy ===== *)
theory Vector_Machine
  imports Clone2
begin

text \<open>
  What the modules do together, said without memory, locks or buffers: a machine that keeps the
  registered vectors with their counts and the vector each process runs under, and moves by ten
  actions, each with its guard. \<open>machine_of\<close> reads this machine off a state of the modules; a locale
  states what it means for a step relation to be a refinement of the machine, and what follows.
\<close>

section \<open>The machine\<close>

record vec_entry =
  e_name :: string
  e_address :: addr
  e_count :: cint
  e_bitmap :: uint
  e_module :: kmodule

record machine =
  entries :: "vec_entry list"
  runs_under :: "pid \<rightharpoonup> addr"
  running :: pid

text \<open>
  A reference is taken or given back, a vector entered or removed; the running process adopts a
  registered vector, forgoes its own, or strays to a list that was never registered; a process is
  born without a vector or inherits the one of the running process; another process is scheduled.
\<close>

datatype action =
  Take nat
| Drop nat
| Enter vec_entry
| Remove nat
| Adopt nat
| Forgo
| Stray addr
| Born pid
| Inherit pid
| Switch pid

definition count_by :: "cint \<Rightarrow> vec_entry \<Rightarrow> vec_entry" where
  "count_by d e = e\<lparr>e_count := e_count e + d\<rparr>"

definition own_vector :: "machine \<Rightarrow> addr" where
  "own_vector m = (case runs_under m (running m) of None \<Rightarrow> 0 | Some a \<Rightarrow> a)"

definition run_under :: "addr \<Rightarrow> machine \<Rightarrow> machine" where
  "run_under a m = m\<lparr>runs_under := (runs_under m)(running m \<mapsto> a)\<rparr>"

fun act :: "action \<Rightarrow> machine \<Rightarrow> machine option" where
  "act (Take i) m =
     (if i < length (entries m)
      then Some (m\<lparr>entries := (entries m)[i := count_by 1 (entries m ! i)]\<rparr>) else None)"
| "act (Drop i) m =
     (if i < length (entries m)
      then Some (m\<lparr>entries := (entries m)[i := count_by (- 1) (entries m ! i)]\<rparr>) else None)"
| "act (Enter e) m =
     (if e_count e = (if e_module e = Mod_dynamic_vector then 1 else 0)
      then Some (m\<lparr>entries := e # entries m\<rparr>) else None)"
| "act (Remove i) m =
     (if i < length (entries m) \<and> \<not> 0 < sint (e_count (entries m ! i))
      then Some (m\<lparr>entries := list_del i (entries m)\<rparr>) else None)"
| "act (Adopt i) m =
     (if i < length (entries m) then Some (run_under (e_address (entries m ! i)) m) else None)"
| "act Forgo m = Some (run_under 0 m)"
| "act (Stray a) m = Some (run_under a m)"
| "act (Born c) m =
     (if runs_under m c = None then Some (m\<lparr>runs_under := (runs_under m)(c \<mapsto> 0)\<rparr>) else None)"
| "act (Inherit c) m =
     (if runs_under m c = None
      then Some (m\<lparr>runs_under := (runs_under m)(c \<mapsto> own_vector m)\<rparr>) else None)"
| "act (Switch p) m = (if runs_under m p \<noteq> None then Some (m\<lparr>running := p\<rparr>) else None)"

primrec acts :: "action list \<Rightarrow> machine \<Rightarrow> machine option" where
  "acts [] m = Some m"
| "acts (l # ls) m = Option.bind (act l m) (acts ls)"

lemma acts_append [simp]: "acts (ls @ ks) m = Option.bind (acts ls m) (acts ks)"
  by (induction ls arbitrary: m) (auto split: bind_splits)

text \<open>One call never mixes removals with anything else, nor does scheduling.\<close>

fun is_Remove :: "action \<Rightarrow> bool" where
  "is_Remove (Remove i) = True"
| "is_Remove _ = False"

fun is_Switch :: "action \<Rightarrow> bool" where
  "is_Switch (Switch p) = True"
| "is_Switch _ = False"

definition call_shape :: "action list \<Rightarrow> bool" where
  "call_shape ls \<longleftrightarrow> (\<exists>p. ls = [Switch p]) \<or> (\<forall>l \<in> set ls. is_Remove l)
     \<or> (\<forall>l \<in> set ls. \<not> is_Remove l \<and> \<not> is_Switch l)"

section \<open>What the actions keep\<close>

definition same_vector :: "vec_entry \<Rightarrow> vec_entry \<Rightarrow> bool" where
  "same_vector d e \<longleftrightarrow> e_name d = e_name e \<and> e_address d = e_address e \<and> e_bitmap d = e_bitmap e
     \<and> e_module d = e_module e"

lemma same_vector_refl [simp]: "same_vector e e"
  by (simp add: same_vector_def)

lemma same_vector_trans: "same_vector c d \<Longrightarrow> same_vector d e \<Longrightarrow> same_vector c e"
  by (simp add: same_vector_def)

lemma count_by_update:
  assumes "e \<in> set es" and "i < length es"
  shows "\<exists>e' \<in> set (es[i := count_by d (es ! i)]). same_vector e e'"
proof -
  from assms(1) obtain j where j: "j < length es" "es ! j = e" by (auto simp: in_set_conv_nth)
  show ?thesis
  proof (rule bexI [of _ "es[i := count_by d (es ! i)] ! j"])
    show "es[i := count_by d (es ! i)] ! j \<in> set (es[i := count_by d (es ! i)])"
      using j(1) by (intro nth_mem) simp
    show "same_vector e (es[i := count_by d (es ! i)] ! j)"
      using j by (cases "i = j") (simp_all add: same_vector_def count_by_def)
  qed
qed

text \<open>Only a removal takes a vector off, and it takes only vectors without references.\<close>

lemma act_entries:
  assumes "act l m = Some m'" and "\<not> is_Remove l" and "e \<in> set (entries m)"
  shows "\<exists>e' \<in> set (entries m'). same_vector e e'"
proof (cases l)
  case (Take i)
  with assms count_by_update [OF assms(3), of i 1] show ?thesis by (auto split: if_splits)
next
  case (Drop i)
  with assms count_by_update [OF assms(3), of i "- 1"] show ?thesis by (auto split: if_splits)
qed (use assms in \<open>auto simp: run_under_def intro: same_vector_refl split: if_splits\<close>)

lemma act_removal:
  assumes "act l m = Some m'" and "is_Remove l" and "e \<in> set (entries m)" and "0 < sint (e_count e)"
  shows "e \<in> set (entries m')"
proof -
  from assms(2) obtain i where l: "l = Remove i" by (cases l) auto
  with assms(1) have i: "i < length (entries m)" "\<not> 0 < sint (e_count (entries m ! i))"
    and m': "entries m' = list_del i (entries m)" by (auto split: if_splits)
  have "set (entries m) = insert (entries m ! i) (set (entries m'))"
    unfolding m' list_del_def
    using i(1) by (metis Cons_nth_drop_Suc Un_insert_right append_take_drop_id list.set(2) set_append)
  with assms(3,4) i(2) show ?thesis by auto
qed

lemma acts_removals:
  assumes "acts ls m = Some m'" and "\<forall>l \<in> set ls. is_Remove l"
    and "e \<in> set (entries m)" and "0 < sint (e_count e)"
  shows "e \<in> set (entries m')"
  using assms
proof (induction ls arbitrary: m)
  case Nil
  then show ?case by simp
next
  case (Cons l ls)
  from Cons.prems(1) obtain m1 where m1: "act l m = Some m1" "acts ls m1 = Some m'"
    by (auto simp: bind_eq_Some_conv)
  from act_removal [OF m1(1) _ Cons.prems(3,4)] Cons.prems(2) have "e \<in> set (entries m1)" by simp
  from Cons.IH [OF m1(2) _ this Cons.prems(4)] Cons.prems(2) show ?case by simp
qed

lemma acts_additions:
  assumes "acts ls m = Some m'" and "\<forall>l \<in> set ls. \<not> is_Remove l" and "e \<in> set (entries m)"
  shows "\<exists>e' \<in> set (entries m'). same_vector e e'"
  using assms
proof (induction ls arbitrary: m e)
  case Nil
  then show ?case by (auto intro: same_vector_refl)
next
  case (Cons l ls)
  from Cons.prems(1) obtain m1 where m1: "act l m = Some m1" "acts ls m1 = Some m'"
    by (auto simp: bind_eq_Some_conv)
  from act_entries [OF m1(1) _ Cons.prems(3)] Cons.prems(2) obtain e1 where
    e1: "e1 \<in> set (entries m1)" "same_vector e e1" by auto
  from Cons.IH [OF m1(2) _ e1(1)] Cons.prems(2) obtain e' where
    "e' \<in> set (entries m')" "same_vector e1 e'" by auto
  with e1(2) show ?case by (blast intro: same_vector_trans)
qed

text \<open>No action but of the running process changes the vector of a process that there is.\<close>

lemma act_others:
  assumes "act l m = Some m'" and "p \<noteq> running m" and "runs_under m p = Some a"
  shows "runs_under m' p = Some a" and "\<not> is_Switch l \<Longrightarrow> running m' = running m"
  using assms by (cases l; auto simp: run_under_def split: if_splits)+

lemma acts_others:
  assumes "acts ls m = Some m'" and "\<forall>l \<in> set ls. \<not> is_Switch l"
    and "p \<noteq> running m" and "runs_under m p = Some a"
  shows "runs_under m' p = Some a"
  using assms
proof (induction ls arbitrary: m)
  case Nil
  then show ?case by simp
next
  case (Cons l ls)
  from Cons.prems(1) obtain m1 where m1: "act l m = Some m1" "acts ls m1 = Some m'"
    by (auto simp: bind_eq_Some_conv)
  from act_others [OF m1(1) Cons.prems(3,4)] Cons.prems(2) have
    m1': "runs_under m1 p = Some a" "running m1 = running m" by simp_all
  from Cons.IH [OF m1(2) _ _ m1'(1)] Cons.prems(2,3) m1'(2) show ?case by simp
qed

lemma call_shape_others:
  assumes "call_shape ls" and "acts ls m = Some m'" and "p \<noteq> running m" and "runs_under m p = Some a"
  shows "runs_under m' p = Some a"
proof -
  from assms(1) consider q where "ls = [Switch q]" | "\<forall>l \<in> set ls. \<not> is_Switch l"
    unfolding call_shape_def by (metis is_Remove.elims(2) is_Switch.simps(5))
  then show ?thesis
  proof cases
    case 1
    with assms(2) have "m' = m\<lparr>running := q\<rparr>" by (auto split: if_splits)
    with assms(4) show ?thesis by simp
  next
    case 2
    from acts_others [OF assms(2) this assms(3,4)] show ?thesis .
  qed
qed

lemma acts_alive:
  assumes "acts ls m = Some m'" and "runs_under m (running m) \<noteq> None"
  shows "runs_under m' (running m') \<noteq> None"
  using assms
proof (induction ls arbitrary: m)
  case Nil
  then show ?case by simp
next
  case (Cons l ls)
  from Cons.prems(1) obtain m1 where m1: "act l m = Some m1" "acts ls m1 = Some m'"
    by (auto simp: bind_eq_Some_conv)
  from m1(1) Cons.prems(2) have "runs_under m1 (running m1) \<noteq> None"
    by (cases l) (auto simp: run_under_def split: if_splits)
  from Cons.IH [OF m1(2) this] show ?case .
qed

section \<open>Systems that refine the machine\<close>

locale vector_system =
  fixes step :: "'s \<Rightarrow> 's \<Rightarrow> bool"
    and good :: "'s \<Rightarrow> bool"
    and view :: "'s \<Rightarrow> machine"
  assumes good_step: "good s \<Longrightarrow> step s s' \<Longrightarrow> good s'"
    and refines: "good s \<Longrightarrow> step s s' \<Longrightarrow> \<exists>ls. call_shape ls \<and> acts ls (view s) = Some (view s')"
begin

lemma good_steps: "step\<^sup>*\<^sup>* s s' \<Longrightarrow> good s \<Longrightarrow> good s'"
  by (induction rule: rtranclp_induct) (auto intro: good_step)

lemma refines_steps:
  "step\<^sup>*\<^sup>* s s' \<Longrightarrow> good s \<Longrightarrow> \<exists>ls. acts ls (view s) = Some (view s')"
proof (induction rule: rtranclp_induct)
  case base
  have "acts [] (view s) = Some (view s)" by simp
  then show ?case by blast
next
  case (step t t')
  from step.IH [OF step.prems] obtain ls where ls: "acts ls (view s) = Some (view t)" by blast
  from refines [OF good_steps [OF step.hyps(1) step.prems] step.hyps(2)] obtain ks where
    "acts ks (view t) = Some (view t')" by blast
  with ls have "acts (ls @ ks) (view s) = Some (view t')" by simp
  then show ?case by blast
qed

lemma counted_stays:
  assumes "good s" and "step s s'" and "e \<in> set (entries (view s))" and "0 < sint (e_count e)"
  shows "\<exists>e' \<in> set (entries (view s')). same_vector e e'"
proof -
  from refines [OF assms(1,2)] obtain ls where ls: "call_shape ls" "acts ls (view s) = Some (view s')"
    by blast
  from ls(1) consider "\<forall>l \<in> set ls. \<not> is_Remove l" | "\<forall>l \<in> set ls. is_Remove l"
    by (auto simp: call_shape_def)
  then show ?thesis
  proof cases
    case 1
    from acts_additions [OF ls(2) this assms(3)] show ?thesis .
  next
    case 2
    from acts_removals [OF ls(2) this assms(3,4)] show ?thesis by (blast intro: same_vector_refl)
  qed
qed

lemma others_kept:
  assumes "good s" and "step s s'" and "p \<noteq> running (view s)" and "runs_under (view s) p = Some a"
  shows "runs_under (view s') p = Some a"
  using refines [OF assms(1,2)] call_shape_others assms(3,4) by blast

end

section \<open>The machine in the state of the modules\<close>

definition entry_of :: "struct_vector \<Rightarrow> vec_entry" where
  "entry_of v = \<lparr>e_name = c_string (vector_name v), e_address = overriddenSyscalls_address v,
     e_count = refcount v, e_bitmap = overfuncs_bitmap v, e_module = vector_module v\<rparr>"

definition machine_of :: "'a tasks_scheme \<Rightarrow> machine" where
  "machine_of s = \<lparr>entries = map entry_of (vec_list s), runs_under = vector_info s, running = current s\<rparr>"

end
