(* ===== verification/Refinement.thy ===== *)
theory Refinement
  imports Vector_Machine System
begin

text \<open>
  The modules refine the machine of \<open>Vector_Machine\<close>: a call that returns, whatever it was given,
  has performed actions of the machine, and which ones they can be is said for each command of the
  device, for the clone and for loading and removing a module.
\<close>

section \<open>Memory, locks and buffers do not show\<close>

lemma machine_of_frame [simp]:
  "machine_of (s\<lparr>tick := n\<rparr>) = machine_of s" "machine_of (s\<lparr>heap := h\<rparr>) = machine_of s"
  "machine_of (s\<lparr>mod_log := l\<rparr>) = machine_of s" "machine_of (s\<lparr>list_lock := b\<rparr>) = machine_of s"
  "machine_of (s\<lparr>v1_listHead := a\<rparr>) = machine_of s" "machine_of (s\<lparr>v2_listHead := a\<rparr>) = machine_of s"
  "machine_of (try_module_get m s) = machine_of s" "machine_of (module_put m s) = machine_of s"
  by (simp_all add: machine_of_def try_module_get_def module_put_def)

lemma machine_of_frame_dyn [simp]:
  "machine_of (d\<lparr>dyn_listHead := a\<rparr>) = machine_of d" "machine_of (d\<lparr>list_heads := as\<rparr>) = machine_of d"
  "machine_of (d\<lparr>dyn_i := i\<rparr>) = machine_of d"
  by (simp_all add: machine_of_def)

lemma machine_of_frame_device [simp]:
  "machine_of (i\<lparr>mutexlock := b\<rparr>) = machine_of i" "machine_of (i\<lparr>chrdev := b\<rparr>) = machine_of i"
  "machine_of (c\<lparr>sysptr := b\<rparr>) = machine_of c"
  "machine_of (snd (copy_to_user u p bytes i)) = machine_of i"
  by (simp_all add: machine_of_def copy_to_user_def Let_def)

lemma kmalloc_machine: "kmalloc km b s = (a, s') \<Longrightarrow> machine_of s' = machine_of s"
  by (auto simp: kmalloc_def Let_def split: if_splits)

lemma kfree_machine: "kfree a s = Inr s' \<Longrightarrow> machine_of s' = machine_of s"
  by (auto simp: kfree_def split: if_splits)

lemma free_list_machine: "free_syscall_list p s = Inr s' \<Longrightarrow> machine_of s' = machine_of s"
  using free_nodes_spares [of p s "Inr s'" s']
  by (auto simp: free_syscall_list_def run_loop_def split: if_splits option.splits)

lemma ioctl_end_machine: "ioctl_end a c s = Inr (e, s') \<Longrightarrow> machine_of s' = machine_of s \<and> e = c_err c"
  by (auto simp: ioctl_end_def bindE_eq_Inr dest!: kfree_machine split: ioctl_exit.splits)

lemma ioctl_reply_machine: "ioctl_reply u p buf c s = (c', s') \<Longrightarrow> machine_of s' = machine_of s"
  by (cases "copy_to_user u p buf s") (use machine_of_frame_device(4) [of u p buf s] in
    \<open>auto simp: ioctl_reply_def Let_def split: if_splits\<close>)

section \<open>Registry operations as actions\<close>

lemma machine_vec_list:
  "entries (machine_of s) = map entry_of (vec_list s)" "running (machine_of s) = current s"
  "runs_under (machine_of s) = vector_info s" "own_vector (machine_of s) = current_vector s"
  by (simp_all add: machine_of_def own_vector_def current_vector_def)

lemma machine_of_add_refcount:
  assumes "i < length (vec_list s)"
  shows "machine_of (add_refcount i d s) = (machine_of s)\<lparr>entries :=
    (entries (machine_of s))[i := count_by d (entries (machine_of s) ! i)]\<rparr>"
  using assms by (simp add: machine_of_def add_refcount_def map_update entry_of_def count_by_def)

lemma act_ref:
  assumes "i < length (vec_list s)"
  shows "act (Take i) (machine_of s) = Some (machine_of (take_ref i s))"
    and "act (Drop i) (machine_of s) = Some (machine_of (drop_ref i s))"
  using assms by (simp_all add: machine_vec_list take_ref_def drop_ref_def machine_of_add_refcount)

lemma machine_of_current [simp]: "machine_of (set_current_vector a s) = run_under a (machine_of s)"
  by (simp add: machine_of_def run_under_def set_current_vector_def)

lemma machine_entry:
  "i < length (vec_list s) \<Longrightarrow> e_address (entries (machine_of s) ! i) = overriddenSyscalls_address (vec_list s ! i)"
  "length (entries (machine_of s)) = length (vec_list s)"
  by (simp_all add: machine_of_def entry_of_def)

text \<open>A reference of another vector, or of the same, does not change what is adopted.\<close>

lemma act_adopt:
  assumes "i < length (entries m)" and "e_address (entries m ! i) = a"
  shows "act (Adopt i) m = Some (run_under a m)"
    and "act (Drop k) m = Some m' \<Longrightarrow> act (Adopt i) m' = Some (run_under a m')"
  using assms by (auto simp: count_by_def nth_list_update split: if_splits)

lemma acts_Cons: "act l m = Some m' \<Longrightarrow> acts ls m' = r \<Longrightarrow> acts (l # ls) m = r"
  by simp

text \<open>The lookup by name, as it is used: on a lookup that returned.\<close>

lemma get_address_acts:
  assumes "get_vector_address n s = Inr (a, s')"
  shows "machine_of s' = machine_of s \<and> a = 0 \<or> (\<exists>i. act (Take i) (machine_of s) = Some (machine_of s')
    \<and> i < length (entries (machine_of s')) \<and> e_address (entries (machine_of s') ! i) = a)"
proof -
  from assms obtain hit where free: "\<not> list_lock s"
    and hit: "list_scan (\<lambda>v. strcmp_eq n (vector_name v)) (vec_list s) = Inr hit"
    by (auto simp: get_vector_address_def mutex_lock_list_def bindE_eq_Inr split: if_splits)
  show ?thesis
  proof (cases hit)
    case None
    with assms hit free show ?thesis
      by (simp add: get_vector_address_def mutex_lock_list_def mutex_unlock_list_def)
  next
    case (Some i)
    with hit have i: "i < length (vec_list s)" by (simp add: list_scan_bound)
    from assms hit Some free have "s' = take_ref i s" "a = overriddenSyscalls_address (vec_list s ! i)"
      by (simp_all add: get_vector_address_def ref_defs Let_def)
    moreover from this i have "i < length (entries (machine_of s'))" "e_address (entries (machine_of s') ! i) = a"
      by (simp_all add: machine_entry add_refcount_def)
    ultimately show ?thesis using act_ref(1) [OF i] by blast
  qed
qed

lemma reduce_acts:
  assumes "reduce_ref_count n s = Inr (r, s')"
  shows "machine_of s' = machine_of s \<and> sint r < 0 \<or> (\<exists>i. act (Drop i) (machine_of s) = Some (machine_of s'))"
proof -
  from assms have "\<not> list_lock s" by (auto simp: reduce_ref_count_def mutex_lock_list_def)
  from assms obtain hit where
    hit: "list_scan (\<lambda>v. strcmp_eq n (vector_name v)) (vec_list s) = Inr hit"
    by (auto simp: reduce_ref_count_def mutex_lock_list_def bindE_eq_Inr split: if_splits)
  show ?thesis
  proof (cases hit)
    case None
    with assms hit \<open>\<not> list_lock s\<close> have "s' = s" "r = - 1"
      by (auto simp: reduce_ref_count_def mutex_lock_list_def mutex_unlock_list_def)
    then show ?thesis by simp
  next
    case (Some i)
    with hit have i: "i < length (vec_list s)" by (simp add: list_scan_bound)
    from assms hit Some \<open>\<not> list_lock s\<close> i have "s' = drop_ref i s"
      by (auto simp: reduce_ref_count_def ref_defs Let_def)
    with act_ref(2) [OF i] show ?thesis by blast
  qed
qed

lemma if_assigned_acts:
  assumes "if_assigned_reduce km s = Inr (r, s')"
  shows "machine_of s' = machine_of s \<or> (\<exists>i. act (Drop i) (machine_of s) = Some (machine_of s'))"
proof -
  obtain a s1 where k: "kmalloc km (Raw BUF_LEN) s = (a, s1)" by fastforce
  note k' = kmalloc_machine [OF k]
  from assms consider "s' = s" | "s' = s1" | "kfree a s1 = Inr s'" | t e s2 where "reduce_ref_count t s1 = Inr (e, s2)" "kfree a s2 = Inr s'"
    by (auto simp: if_assigned_reduce_def k bindE_eq_Inr Let_def split: if_splits)
  then show ?thesis
  proof cases
    case 4
    from reduce_acts [OF 4(1)] show ?thesis unfolding kfree_machine [OF 4(2)] k' by blast
  qed (simp_all add: k' kfree_machine [of a s1 s'])
qed

section \<open>The commands of the device\<close>

text \<open>
  What a call may have done, by its command and its result. \<open>IOCTL_SET\<close> that succeeds takes a
  reference of the vector it adopts; the reference it may give back before is of any vector.
  \<open>IOCTL_REMOVE\<close> may have dropped a reference and failed all the same. A creation that reuses a
  vector adopts it with a reference of its own; one that makes a vector enters and adopts it, or
  strays when the vector could not be registered; a vector with the address NULL that has the
  bitmap has a reference taken on the way.
\<close>

fun set_trace :: "ulong \<Rightarrow> action list \<Rightarrow> bool" where
  "set_trace e [] \<longleftrightarrow> e \<noteq> 0"
| "set_trace e [Take i] \<longleftrightarrow> e \<noteq> 0"
| "set_trace e [Take i, Adopt j] \<longleftrightarrow> e = 0 \<and> j = i"
| "set_trace e [Take i, Drop k, Adopt j] \<longleftrightarrow> e = 0 \<and> j = i"
| "set_trace e _ \<longleftrightarrow> False"

fun remove_trace :: "ulong \<Rightarrow> action list \<Rightarrow> bool" where
  "remove_trace e [] \<longleftrightarrow> sint e < 0"
| "remove_trace e [Drop i] \<longleftrightarrow> e = - EINVAL"
| "remove_trace e [Drop i, Forgo] \<longleftrightarrow> 0 \<le> sint e"
| "remove_trace e _ \<longleftrightarrow> False"

fun made_trace :: "uint \<Rightarrow> action list \<Rightarrow> bool" where
  "made_trace bm [] \<longleftrightarrow> True"
| "made_trace bm [Enter v, Adopt j] \<longleftrightarrow>
     j = 0 \<and> e_name v = dyn_name bm \<and> e_bitmap v = bm \<and> e_module v = Mod_dynamic_vector"
| "made_trace bm [Stray a] \<longleftrightarrow> True"
| "made_trace bm _ \<longleftrightarrow> False"

fun create_trace :: "uint \<Rightarrow> action list \<Rightarrow> bool" where
  "create_trace bm (Take i # ls) \<longleftrightarrow> ls = [Adopt i] \<or> made_trace bm ls"
| "create_trace bm ls \<longleftrightarrow> made_trace bm ls"

definition device_trace :: "user_mem \<Rightarrow> uint \<Rightarrow> addr \<Rightarrow> ulong \<Rightarrow> action list \<Rightarrow> bool" where
  "device_trace u req p e ls \<longleftrightarrow>
     (if req = IOCTL_SET then set_trace e ls
      else if req = IOCTL_REMOVE then remove_trace e ls
      else if req = IOCTL_CREATE_FROM_BITMAP then create_trace (u_bitmap u p) ls
      else ls = [])"

definition refines_by :: "(action list \<Rightarrow> bool) \<Rightarrow> 'a tasks_scheme \<Rightarrow> 'a tasks_scheme \<Rightarrow> bool" where
  "refines_by P s s' \<longleftrightarrow> (\<exists>ls. P ls \<and> acts ls (machine_of s) = Some (machine_of s'))"

lemma refines_byI: "acts ls (machine_of s) = Some (machine_of s') \<Longrightarrow> P ls \<Longrightarrow> refines_by P s s'"
  by (auto simp: refines_by_def)

lemma refines_by_same: "machine_of s' = machine_of s \<Longrightarrow> P [] \<Longrightarrow> refines_by P s s'"
  by (rule refines_byI [of "[]"]) simp_all

lemma refines_by_cong:
  assumes "machine_of s = machine_of t" and "machine_of s' = machine_of t'"
  shows "refines_by P s s' = refines_by P t t'"
  using assms by (simp add: refines_by_def)

lemma ioctl_set_acts:
  assumes r: "ioctl_set km u p s = Inr (c, s')" and km: "allocator_ok km"
  shows "refines_by (set_trace (c_err c)) s s'"
proof -
  from r obtain bytes n where b: "user_string u p = Inr bytes" "strlen bytes = Inr n"
    by (auto simp: ioctl_set_def bindE_eq_Inr)
  obtain a s1 where k: "kmalloc km (Raw (unat (of_nat n + 1 :: uint))) s = (a, s1)" by fastforce
  note k' = kmalloc_machine [OF k]
  have E: "(- EINVAL :: ulong) \<noteq> 0" "(- ENOMEM :: ulong) \<noteq> 0" by simp_all
  from r consider "machine_of s' = machine_of s" "c_err c \<noteq> 0"
    | name va s2 where "get_vector_address name (try_module_get Mod_ioctl_module s1) = Inr (va, s2)"
      "va = 0" "c_err c = - EINVAL" "machine_of s' = machine_of s2"
    | name va s2 e s3 where "get_vector_address name (try_module_get Mod_ioctl_module s1) = Inr (va, s2)"
      "va \<noteq> 0" "if_assigned_reduce km s2 = Inr (e, s3)" "c_err c = 0"
      "machine_of s' = machine_of (set_current_vector va s3)"
    using k' E
    by (auto simp: ioctl_set_def b k bindE_eq_Inr Let_def leave_def remove_from_task_struct_def
        add_to_task_struct_def split: if_splits)
  then show ?thesis
  proof cases
    case 1
    then show ?thesis by (intro refines_by_same) simp_all
  next
    case 2
    from get_address_acts [OF 2(1)] show ?thesis
    proof (elim disjE exE conjE)
      fix i assume "act (Take i) (machine_of (try_module_get Mod_ioctl_module s1)) = Some (machine_of s2)"
      then show ?thesis using 2(3,4) k' E by (intro refines_byI [of "[Take i]"]) simp_all
    qed (use 2(3,4) k' E in \<open>intro refines_by_same; simp\<close>)
  next
    case 3
    from get_address_acts [OF 3(1)] 3(2) obtain i where
      i: "act (Take i) (machine_of s) = Some (machine_of s2)" "i < length (entries (machine_of s2))"
      "e_address (entries (machine_of s2) ! i) = va" by (auto simp only: machine_of_frame k')
    note adopt = act_adopt [OF i(2,3)]
    from if_assigned_acts [OF 3(3)] show ?thesis
    proof (elim disjE exE)
      assume "machine_of s3 = machine_of s2"
      with 3(5) have "acts [Take i, Adopt i] (machine_of s) = Some (machine_of s')"
        by (simp only: acts_Cons [OF i(1)] acts_Cons [OF adopt(1)] acts.simps(1) machine_of_current)
      then show ?thesis by (rule refines_byI) (simp add: 3(4))
    next
      fix k assume d: "act (Drop k) (machine_of s2) = Some (machine_of s3)"
      from 3(5) have "acts [Take i, Drop k, Adopt i] (machine_of s) = Some (machine_of s')"
        by (simp only: acts_Cons [OF i(1)] acts_Cons [OF d] acts_Cons [OF adopt(2) [OF d]] acts.simps(1) machine_of_current)
      then show ?thesis by (rule refines_byI) (simp add: 3(4))
    qed
  qed
qed

lemma ioctl_remove_acts:
  assumes r: "ioctl_remove km u p s = Inr (c, s')" and km: "allocator_ok km"
  shows "refines_by (remove_trace (c_err c)) s s'"
proof -
  from r obtain bytes n where b: "user_string u p = Inr bytes" "strlen bytes = Inr n"
    by (auto simp: ioctl_remove_def bindE_eq_Inr)
  obtain a s1 where k: "kmalloc km (Raw (unat (of_nat n + 1 :: uint))) s = (a, s1)" by fastforce
  note k' = kmalloc_machine [OF k]
  have not_err: "\<not> is_err a" using k allocator_okD(2) [OF km] by (auto simp: kmalloc_def Let_def split: if_splits)
  have E: "sint (- EINVAL :: ulong) < 0" "sint (- ENOMEM :: ulong) < 0" by simp_all
  show ?thesis
  proof (cases "a = 0 \<or> not_copied u p (unat (of_nat n :: uint)) \<noteq> 0")
    case True
    with r not_err have "machine_of s' = machine_of s" "sint (c_err c) < 0"
      using k' E by (auto simp: ioctl_remove_def b k Let_def leave_def split: if_splits)
    then show ?thesis by (intro refines_by_same) simp_all
  next
    case False
    with r not_err obtain name ret s2 where
      red: "reduce_ref_count name (try_module_get Mod_ioctl_module s1) = Inr (ret, s2)"
      and rest: "(if sint ret < 0 then
           Inr ((leave Goto_free_vector_name (- EINVAL))\<lparr>c_vector_name := a\<rparr>, module_put Mod_ioctl_module s2)
         else Inr ((leave Goto_free_vector_name (scast ret))\<lparr>c_vector_name := a\<rparr>,
                module_put Mod_ioctl_module (set_current_vector 0 s2))) = Inr (c, s')"
      by (auto simp: ioctl_remove_def b k Let_def remove_from_task_struct_def bindE_eq_Inr split: if_splits)
    show ?thesis
    proof (cases "sint ret < 0")
      case True
      with rest have c: "c_err c = - EINVAL" "machine_of s' = machine_of s2" by (auto simp: leave_def)
      from reduce_acts [OF red] show ?thesis
      proof (elim disjE exE conjE)
        fix i assume "act (Drop i) (machine_of (try_module_get Mod_ioctl_module s1)) = Some (machine_of s2)"
        then show ?thesis using c k' by (intro refines_byI [of "[Drop i]"]) simp_all
      qed (use c k' E in \<open>intro refines_by_same; simp\<close>)
    next
      case nonneg: False
      with rest have c: "c_err c = scast ret" "machine_of s' = run_under 0 (machine_of s2)"
        by (auto simp: leave_def)
      from reduce_acts [OF red] nonneg obtain i where
        i: "act (Drop i) (machine_of s) = Some (machine_of s2)" by (auto simp only: machine_of_frame k')
      have "acts [Drop i, Forgo] (machine_of s) = Some (machine_of s')"
        by (simp only: acts_Cons [OF i] acts_Cons [OF act.simps(6)] acts.simps(1) c(2))
      then show ?thesis by (rule refines_byI) (use nonneg c(1) in \<open>simp add: sint_up_scast is_up\<close>)
    qed
  qed
qed

text \<open>The creation: a scratch run over memory, then the registration.\<close>

lemma check_any_acts:
  assumes "check_any_current_vector bm s = Inr (a, s')"
  shows "machine_of s' = machine_of s \<and> a = 0 \<or> (\<exists>i. act (Take i) (machine_of s) = Some (machine_of s')
    \<and> i < length (entries (machine_of s')) \<and> e_address (entries (machine_of s') ! i) = a)"
proof -
  from assms have free: "\<not> list_lock s" by (auto simp: check_any_current_vector_def mutex_lock_list_def)
  show ?thesis
  proof (cases "bitmap_index bm s")
    case None
    with assms free show ?thesis
      by (auto simp: check_any_current_vector_def mutex_lock_list_def mutex_unlock_list_def bitmap_index_def)
  next
    case (Some i)
    note i = index_bounds(3) [OF Some]
    from assms Some free have "s' = take_ref i s" "a = overriddenSyscalls_address (vec_list s ! i)"
      by (auto simp: check_any_current_vector_def ref_defs Let_def bitmap_index_def)
    moreover from this i have "i < length (entries (machine_of s'))" "e_address (entries (machine_of s') ! i) = a"
      by (simp_all add: machine_entry add_refcount_def)
    ultimately show ?thesis using act_ref(1) [OF i] by blast
  qed
qed

lemma register_and_assign_acts:
  assumes km: "allocator_ok km" and inv: "reg_inv s"
    and r: "register_and_assign km bm (dyn_name bm @ [NUL]) s = Inr (e, s')"
  shows "refines_by (made_trace bm) s s'"
proof -
  let ?s = "try_module_get Mod_dynamic_vector s" and ?a = "dyn_listHead s"
  let ?r = "registered km (dyn_name bm) ?a 1 Mod_dynamic_vector bm ?s"
  have "reg_inv ?s" using inv by simp
  from register_dynamic_syscall_spec [OF km reg_inv_ok [OF this] dyn_name_ok(1)]
  have reg: "register_dynamic_syscall km (dyn_name bm @ [NUL]) ?a Mod_dynamic_vector bm ?s = Inr ?r"
    by (simp add: dyn_name_ok(2))
  have m: "machine_of s' = run_under ?a (machine_of (snd ?r))"
    using r [unfolded register_and_assign_def Let_def try_module_get_frame reg bindE_Inr case_prod_beta
        registered_frame]
    by (auto simp: push_list_head_def split: if_splits)
  show ?thesis
  proof (cases "km (tick ?s) (heap ?s) = 0")
    case True
    then have "machine_of (snd ?r) = machine_of s" by (simp add: registered_def)
    with m show ?thesis by (intro refines_byI [of "[Stray ?a]"]) simp_all
  next
    case False
    let ?e = "entry_of (stored_vector (km (tick ?s) (heap ?s)) (dyn_name bm) ?a 1 Mod_dynamic_vector bm)"
    have e: "e_count ?e = 1" "e_module ?e = Mod_dynamic_vector" "e_name ?e = dyn_name bm"
      "e_bitmap ?e = bm" "e_address ?e = ?a"
      using stored_vector_name(1) [OF dyn_name_ok(1) [of bm]] by (simp_all add: entry_of_def dyn_name_ok(2))
    from False have "machine_of (snd ?r) = (machine_of s)\<lparr>entries := ?e # entries (machine_of s)\<rparr>"
      by (simp add: registered_def Let_def machine_of_def try_module_get_def)
    with m e show ?thesis by (intro refines_byI [of "[Enter ?e, Adopt 0]"]) (simp_all add: run_under_def)
  qed
qed

lemma create_from_bitmap_acts:
  assumes km: "allocator_ok km" and inv: "reg_inv s" and start: "dyn_listHead s = 0"
    and r: "create_from_bitmap km bm ret s = Inr (e, s')"
  shows "refines_by (made_trace bm) s s'"
proof (cases "km (tick s) (heap s) \<noteq> 0 \<and> km (Suc (tick s)) ((heap s)(km (tick s) (heap s) \<mapsto> Raw 32)) \<noteq> 0")
  case True
  with create_from_bitmap_reaches [OF km inv start] obtain s3 where
    s3: "create_from_bitmap km bm ret s = register_and_assign km bm (dyn_name bm @ [NUL]) s3"
      "dyn_rest s3 = dyn_rest s" "reg_inv s3" by blast
  have "machine_of s3 = machine_of s" using dyn_rest_frame [OF s3(2)] by (simp add: machine_of_def)
  with register_and_assign_acts [OF km s3(3)] r s3(1) show ?thesis by (simp add: refines_by_def)
next
  case False
  obtain t s1 where t: "kmalloc km (Raw 32) s = (t, s1)" by fastforce
  obtain p s2 where p: "kmalloc km (Raw (7 + length (sprintf_d bm))) s1 = (p, s2)" by fastforce
  note m = kmalloc_machine [OF t] kmalloc_machine [OF p]
  have "t = 0 \<or> p = 0"
    using False t p by (auto simp: kmalloc_ok [OF km] Let_def split: if_splits)
  with r have "machine_of s' = machine_of s"
    unfolding create_from_bitmap_def Let_def t case_prod_conv sprintf_fits_dyn bindE_Inr p
    using m by (auto simp: bindE_eq_Inr dyn_delete_vector_def split: if_splits dest!: kfree_machine free_list_machine)
  then show ?thesis by (rule refines_by_same) simp
qed

lemma add_vector_acts:
  assumes km: "allocator_ok km" and inv: "reg_inv s" and start: "dyn_listHead s = 0"
    and r: "add_vector_from_bitmap km bm s = Inr (e, s')"
  shows "refines_by (create_trace bm) s s'"
proof -
  from r obtain a s1 where c: "check_any_current_vector bm s = Inr (a, s1)"
    and rest: "(if a \<noteq> 0 then Inr (ucast a, (set_current_vector a s1)\<lparr>dyn_listHead := 0\<rparr>)
      else create_from_bitmap km bm a s1) = Inr (e, s')"
    by (auto simp: add_vector_from_bitmap_def bindE_eq_Inr)
  from check_any_current_vector_spec [OF reg_inv_ok [OF inv], of bm] c
  have s1: "reg_inv s1" "dyn_listHead s1 = 0"
    using inv start by (auto simp: reg_inv_ref split: option.splits)
  show ?thesis
  proof (cases "a = 0")
    case True
    with rest have "create_from_bitmap km bm a s1 = Inr (e, s')" by simp
    from create_from_bitmap_acts [OF km s1 this] obtain ls where
      ls: "made_trace bm ls" "acts ls (machine_of s1) = Some (machine_of s')" by (auto simp: refines_by_def)
    from check_any_acts [OF c] show ?thesis
    proof (elim disjE exE conjE)
      assume "machine_of s1 = machine_of s"
      moreover have "create_trace bm ls" using ls(1) by (cases "(bm, ls)" rule: made_trace.cases) auto
      ultimately show ?thesis using ls(2) by (intro refines_byI [of ls]) simp_all
    next
      fix i assume "act (Take i) (machine_of s) = Some (machine_of s1)"
      from acts_Cons [OF this ls(2)] show ?thesis by (rule refines_byI) (simp add: ls(1))
    qed
  next
    case False
    with check_any_acts [OF c] obtain i where i: "act (Take i) (machine_of s) = Some (machine_of s1)"
      "i < length (entries (machine_of s1))" "e_address (entries (machine_of s1) ! i) = a" by blast
    have "machine_of s' = run_under a (machine_of s1)" using rest False by auto
    then have "acts [Take i, Adopt i] (machine_of s) = Some (machine_of s')"
      by (simp only: acts_Cons [OF i(1)] acts_Cons [OF act_adopt(1) [OF i(2,3)]] acts.simps(1))
    then show ?thesis by (rule refines_byI) simp
  qed
qed

lemma kmalloc_kept:
  assumes "kmalloc km b s = (a, s1)" and "allocator_ok km" and "reg_inv s"
  shows "reg_inv s1" and "dyn_listHead s1 = dyn_listHead s"
proof -
  note k = assms(1) [unfolded kmalloc_ok [OF assms(2)] Let_def]
  show "dyn_listHead s1 = dyn_listHead s" using k by (auto split: if_splits)
  show "reg_inv s1"
  proof (cases "km (tick s) (heap s) = 0")
    case True
    with k assms(3) show ?thesis by (auto simp: reg_inv_def reg_ok_def)
  next
    case False
    with k dyn_kept_alloc [OF assms(3) allocator_okD(1) [OF assms(2) False]] show ?thesis by auto
  qed
qed

lemma ioctl_create_acts:
  assumes km: "allocator_ok km" and inv: "reg_inv s" and start: "dyn_listHead s = 0"
    and r: "ioctl_create_from_bitmap km u p s = Inr (c, s')"
  shows "refines_by (create_trace (u_bitmap u p)) s s'"
proof -
  let ?s = "try_module_get Mod_ioctl_module s"
  obtain a s1 where k: "kmalloc km (Raw 4) ?s = (a, s1)" by fastforce
  have s1: "reg_inv s1" "dyn_listHead s1 = 0" using kmalloc_kept [OF k km] inv start by simp_all
  have m1: "machine_of s1 = machine_of s" using kmalloc_machine [OF k] by simp
  show ?thesis
  proof (cases "a = 0 \<or> not_copied u p 4 \<noteq> 0 \<or> validate_bitmap (u_bitmap u p) \<noteq> 0")
    case True
    with r m1 have "machine_of s' = machine_of s"
      by (auto simp: ioctl_create_from_bitmap_def Let_def k split: if_splits)
    then show ?thesis by (rule refines_by_same) simp
  next
    case False
    with r obtain q s2 where "add_vector_from_bitmap km (u_bitmap u p) s1 = Inr (q, s2)"
      and m2: "machine_of s' = machine_of s2"
      by (auto simp: ioctl_create_from_bitmap_def Let_def k bindE_eq_Inr)
    from add_vector_acts [OF km s1 this(1)] m1 m2 show ?thesis by (simp add: refines_by_def)
  qed
qed

lemma ioctl_prints_machine:
  "ioctl_show_all u p s = Inr (c, s') \<Longrightarrow> machine_of s' = machine_of s"
  "ioctl_show_mine u p s = Inr (c, s') \<Longrightarrow> machine_of s' = machine_of s"
  "ioctl_vector_for_pid km u p s = Inr (c, s') \<Longrightarrow> machine_of s' = machine_of s"
proof -
  show "ioctl_show_all u p s = Inr (c, s') \<Longrightarrow> machine_of s' = machine_of s"
    by (auto simp: ioctl_show_all_def Let_def bindE_eq_Inr dest: ioctl_reply_machine)
  show "ioctl_show_mine u p s = Inr (c, s') \<Longrightarrow> machine_of s' = machine_of s"
    by (auto simp: ioctl_show_mine_def Let_def bindE_eq_Inr dest: ioctl_reply_machine)
  assume r: "ioctl_vector_for_pid km u p s = Inr (c, s')"
  obtain a s1 where k: "kmalloc km (Raw 16) (try_module_get Mod_ioctl_module s) = (a, s1)" by fastforce
  from r kmalloc_machine [OF k] show "machine_of s' = machine_of s"
    by (auto simp: ioctl_vector_for_pid_def Let_def k bindE_eq_Inr split: if_splits prod.splits option.splits
        dest!: ioctl_reply_machine)
qed

lemma requests_distinct [simp]:
  "IOCTL_REMOVE \<noteq> IOCTL_SET" "IOCTL_CREATE_FROM_BITMAP \<noteq> IOCTL_SET" "IOCTL_CREATE_FROM_BITMAP \<noteq> IOCTL_REMOVE"
  "IOCTL_SHOW_ALL \<noteq> IOCTL_CREATE_FROM_BITMAP" "IOCTL_SHOW_MINE \<noteq> IOCTL_CREATE_FROM_BITMAP"
  "IOCTL_VECTOR_FOR_PID \<noteq> IOCTL_CREATE_FROM_BITMAP"
  by (simp_all add: ioctl_numbers)

lemma ioctl_switch_acts:
  assumes "ioctl_switch km u req p s = Inr (c, s')" and "allocator_ok km" and "reg_inv s" and "dyn_listHead s = 0"
  shows "refines_by (device_trace u req p (c_err c)) s s'"
proof -
  from assms(1) consider "req = IOCTL_SET" "ioctl_set km u p s = Inr (c, s')"
    | "req = IOCTL_REMOVE" "ioctl_remove km u p s = Inr (c, s')"
    | "req = IOCTL_CREATE_FROM_BITMAP" "ioctl_create_from_bitmap km u p s = Inr (c, s')"
    | "device_trace u req p (c_err c) []" "machine_of s' = machine_of s"
    unfolding ioctl_switch_def
    by (auto simp: device_trace_def split: if_splits dest: ioctl_prints_machine)
  then show ?thesis
  proof cases
    case 1
    with ioctl_set_acts [OF 1(2) assms(2)] show ?thesis by (simp add: device_trace_def [abs_def])
  next
    case 2
    with ioctl_remove_acts [OF 2(2) assms(2)] show ?thesis by (simp add: device_trace_def [abs_def])
  next
    case 3
    with ioctl_create_acts [OF assms(2-4) 3(2)] show ?thesis by (simp add: device_trace_def [abs_def])
  next
    case 4
    then show ?thesis by (intro refines_by_same)
  qed
qed

text \<open>The whole call.\<close>

lemma custom_ioctl_acts:
  assumes r: "custom_ioctl km u req p s = Inr (e, s')" and km: "allocator_ok km"
    and inv: "reg_inv s" and start: "dyn_listHead s = 0"
  shows "refines_by (device_trace u req p e) s s'"
proof -
  from r have free: "\<not> mutexlock s" by (auto simp: custom_ioctl_def mutex_lock_ioctl_def)
  let ?s = "s\<lparr>mutexlock := True\<rparr>"
  obtain a s1 where k: "kmalloc km (Raw BUF_LEN) ?s = (a, s1)" by fastforce
  have m1: "machine_of s1 = machine_of s" using kmalloc_machine [OF k] by simp
  have "reg_inv ?s" using inv by (simp add: reg_inv_def reg_ok_def)
  with kmalloc_kept [OF k km] start have s1: "reg_inv s1" "dyn_listHead s1 = 0" by simp_all
  show ?thesis
  proof (cases "a = 0")
    case True
    with r free k have "ioctl_end 0 (leave Goto_out (- ENOMEM)) s1 = Inr (e, s')"
      by (simp add: custom_ioctl_def mutex_lock_ioctl_def)
    from ioctl_end_machine [OF this] m1 show ?thesis
      by (intro refines_by_same) (simp_all add: leave_def device_trace_def)
  next
    case False
    with r free k obtain c s2 where c: "ioctl_switch km u req p s1 = Inr (c, s2)" "ioctl_end a c s2 = Inr (e, s')"
      by (auto simp: custom_ioctl_def mutex_lock_ioctl_def bindE_eq_Inr)
    from ioctl_switch_acts [OF c(1) km s1] ioctl_end_machine [OF c(2)] m1 show ?thesis
      by (simp add: refines_by_def)
  qed
qed

section \<open>Clones and modules\<close>

text \<open>
  A clone with \<open>CLONE_SYSCALLS\<close> takes the reference twice; one with an id takes a reference for a
  child that is born without a vector.
\<close>

definition clone_trace :: "ulong \<Rightarrow> pid \<Rightarrow> action list \<Rightarrow> bool" where
  "clone_trace flags child ls \<longleftrightarrow>
     (if flags AND CLONE_SYSCALLS = 0 then ls = [Born child] \<or> (\<exists>i. ls = [Take i, Born child])
      else ls = [] \<or> (\<exists>i. ls = [Take i, Take i, Inherit child]))"

lemma copy_vector_acts:
  assumes ok: "reg_ok s" and fresh: "vector_info s child = None"
    and c: "copy_vector_info flags child s = Inr s'"
  shows "flags AND CLONE_SYSCALLS = 0 \<Longrightarrow> act (Born child) (machine_of s) = Some (machine_of s')"
    and "flags AND CLONE_SYSCALLS \<noteq> 0 \<Longrightarrow> addr_index (current_vector s) s = None \<Longrightarrow>
      act (Inherit child) (machine_of s) = Some (machine_of s')"
    and "flags AND CLONE_SYSCALLS \<noteq> 0 \<Longrightarrow> addr_index (current_vector s) s = Some i \<Longrightarrow>
      acts [Take i, Inherit child] (machine_of s) = Some (machine_of s')"
proof -
  have vi: "machine_of (t\<lparr>vector_info := v\<rparr>) = (machine_of t)\<lparr>runs_under := v\<rparr>" for t :: "'a tasks_scheme" and v
    by (simp add: machine_of_def)
  note spec = c [unfolded copy_vector_info_spec [OF ok] Let_def]
  show "flags AND CLONE_SYSCALLS = 0 \<Longrightarrow> act (Born child) (machine_of s) = Some (machine_of s')"
    using spec fresh by (auto simp: vi machine_vec_list)
  show "flags AND CLONE_SYSCALLS \<noteq> 0 \<Longrightarrow> addr_index (current_vector s) s = None \<Longrightarrow>
      act (Inherit child) (machine_of s) = Some (machine_of s')"
    using spec fresh by (auto simp: vi machine_vec_list)
  assume i: "flags AND CLONE_SYSCALLS \<noteq> 0" "addr_index (current_vector s) s = Some i"
  have "act (Take i) (machine_of s) = Some (machine_of (take_ref i s))"
    using act_ref(1) [OF index_bounds(2) [OF i(2)]] .
  moreover have "act (Inherit child) (machine_of (take_ref i s)) = Some (machine_of s')"
    using spec i fresh by (auto simp: vi machine_vec_list)
  ultimately show "acts [Take i, Inherit child] (machine_of s) = Some (machine_of s')"
    by (simp only: acts_Cons acts.simps(1))
qed

lemma sys_clone2_acts:
  assumes ok: "reg_ok s" and fresh: "vector_info s child = None"
    and r: "sys_clone2 (fork_child child) flags st ptid tls ctid vid s = Inr (e, s')"
  shows "refines_by (clone_trace flags child) s s'"
proof (cases "flags AND CLONE_SYSCALLS = 0")
  case True
  show ?thesis
  proof (cases "bitmap_index (ucast vid) s")
    case None
    with r have "copy_vector_info flags child s = Inr s'"
      unfolding sys_clone2_by_id [OF ok True] by (auto simp: fork_child_def bindE_eq_Inr)
    from copy_vector_acts(1) [OF ok fresh this True] have "acts [Born child] (machine_of s) = Some (machine_of s')"
      by (simp only: acts_Cons acts.simps(1))
    then show ?thesis by (rule refines_byI) (simp add: clone_trace_def True)
  next
    case (Some i)
    with r have c: "copy_vector_info flags child (take_ref i s) = Inr s'"
      unfolding sys_clone2_by_id [OF ok True] by (auto simp: fork_child_def bindE_eq_Inr Let_def)
    have b: "act (Born child) (machine_of (take_ref i s)) = Some (machine_of s')"
      by (rule copy_vector_acts(1) [OF _ _ c True]) (simp_all add: ok fresh)
    have "acts [Take i, Born child] (machine_of s) = Some (machine_of s')"
      by (simp only: acts_Cons [OF act_ref(1) [OF index_bounds(3) [OF Some]]] acts_Cons [OF b] acts.simps(1))
    then show ?thesis by (rule refines_byI) (simp add: clone_trace_def True)
  qed
next
  case False
  show ?thesis
  proof (cases "addr_index (current_vector s) s")
    case None
    with r have "s' = s" unfolding sys_clone2_inherit [OF ok False] by simp
    then show ?thesis by (intro refines_by_same) (simp_all add: clone_trace_def False)
  next
    case (Some i)
    with r have c: "copy_vector_info flags child (take_ref i s) = Inr s'"
      unfolding sys_clone2_inherit [OF ok False] by (auto simp: fork_child_def bindE_eq_Inr)
    have b: "acts [Take i, Inherit child] (machine_of (take_ref i s)) = Some (machine_of s')"
      by (rule copy_vector_acts(3) [OF _ _ c False]) (simp_all add: ok fresh Some)
    have "acts [Take i, Take i, Inherit child] (machine_of s) = Some (machine_of s')"
      by (rule acts_Cons [OF act_ref(1) [OF index_bounds(2) [OF Some]] b])
    then show ?thesis by (rule refines_byI) (simp add: clone_trace_def False)
  qed
qed

text \<open>Loading a sample module enters its vector, or nothing; removing one takes at most one vector off.\<close>

lemma tasks_of_more:
  assumes "vec_modules.more s' = vec_modules.more s"
  shows "current s' = current s" and "vector_info s' = vector_info s"
  using assms by (cases s; cases s'; simp)+

lemma load_acts:
  fixes s s' :: syscall_state
  assumes "vec_list s' = vec_list s \<or> vec_list s' = stored_vector va n a 0 m b # vec_list s"
    and "vec_modules.more s' = vec_modules.more s" and "m \<noteq> Mod_dynamic_vector"
  shows "refines_by (\<lambda>ls. ls = [] \<or> (\<exists>e. ls = [Enter e])) s s'"
proof -
  note t = tasks_of_more [OF assms(2)]
  from assms(1) show ?thesis
  proof
    assume "vec_list s' = vec_list s"
    with t have "machine_of s' = machine_of s" by (simp add: machine_of_def)
    then show ?thesis by (rule refines_by_same) simp
  next
    let ?e = "entry_of (stored_vector va n a 0 m b)"
    assume "vec_list s' = stored_vector va n a 0 m b # vec_list s"
    with t have "machine_of s' = (machine_of s)\<lparr>entries := ?e # entries (machine_of s)\<rparr>"
      by (simp add: machine_of_def)
    then have "acts [Enter ?e] (machine_of s) = Some (machine_of s')"
      using assms(3) by (simp add: entry_of_def)
    then show ?thesis by (rule refines_byI) blast
  qed
qed

lemma load_v1_acts:
  fixes s s' :: syscall_state
  assumes "allocator_ok km" and "reg_inv s" and "v1_listHead s = 0" and "v1_init_override km s = Inr (r, s')"
  shows "refines_by (\<lambda>ls. ls = [] \<or> (\<exists>e. ls = [Enter e])) s s'"
proof -
  from sample1.init_outcome [OF assms(1-3)] assms(4) obtain va where
    "vec_list s' = vec_list s \<or> vec_list s' = stored_vector va (c_string v1_vector_name) (v1_listHead s') 0
       Mod_vector1 (READ_OVERRIDE + WRITE_OVERRIDE + OPEN_OVERRIDE + LINK_OVERRIDE + UNLINK_OVERRIDE) # vec_list s"
    by auto
  from load_acts [OF this v1_init_frame [OF assms(1,3,4)]] show ?thesis by simp
qed

lemma load_v2_acts:
  fixes s s' :: syscall_state
  assumes "allocator_ok km" and "reg_inv s" and "v2_listHead s = 0" and "v2_init_override km s = Inr (r, s')"
  shows "refines_by (\<lambda>ls. ls = [] \<or> (\<exists>e. ls = [Enter e])) s s'"
proof -
  from sample2.init_outcome [OF assms(1-3)] assms(4) obtain va where
    "vec_list s' = vec_list s \<or> vec_list s' = stored_vector va (c_string v2_vector_name) (v2_listHead s') 0
       Mod_vector2 (MKDIR_OVERRIDE + RMDIR_OVERRIDE + WRITE_LOGGED + OPEN_BLOCKED + CLOSE_OVERRIDE) # vec_list s"
    by auto
  from load_acts [OF this v2_init_frame [OF assms(1,3,4)]] show ?thesis by simp
qed

lemma unregister_acts:
  assumes "unregister_syscall a s = Inr (r, s')" and "reg_inv s"
  shows "refines_by (\<lambda>ls. ls = [] \<or> (\<exists>i. ls = [Remove i])) s s'"
proof -
  note u = assms(1) [unfolded unregister_syscall_spec [OF assms(2)]]
  show ?thesis
  proof (cases "s' = s")
    case True
    then show ?thesis by (intro refines_by_same) simp_all
  next
    case False
    with u obtain i where i: "addr_index a s = Some i" "\<not> 0 < sint (refcount (vec_list s ! i))"
      and s': "machine_of s' = machine_of (s\<lparr>vec_list := list_del i (vec_list s)\<rparr>)"
      by (auto split: option.splits if_splits)
    from i index_bounds(2) [OF i(1)] have "acts [Remove i] (machine_of s) = Some (machine_of s')"
      unfolding s' by (simp add: machine_of_def entry_of_def list_del_map)
    then show ?thesis by (rule refines_byI) simp
  qed
qed

definition only_removals :: "action list \<Rightarrow> bool" where
  "only_removals ls \<longleftrightarrow> (\<forall>l \<in> set ls. is_Remove l)"

lemma refines_by_mono: "refines_by P s s' \<Longrightarrow> (\<And>ls. P ls \<Longrightarrow> Q ls) \<Longrightarrow> refines_by Q s s'"
  by (auto simp: refines_by_def)

lemma only_removals_trans:
  assumes "refines_by only_removals s t" and "refines_by only_removals t u"
  shows "refines_by only_removals s u"
proof -
  from assms obtain ls ks where "only_removals ls" "acts ls (machine_of s) = Some (machine_of t)"
    "only_removals ks" "acts ks (machine_of t) = Some (machine_of u)" by (auto simp: refines_by_def)
  then show ?thesis by (intro refines_byI [of "ls @ ks"]) (auto simp: only_removals_def)
qed

lemma unregister_removes:
  assumes "unregister_syscall a s = Inr (r, s')" and "reg_inv s" and "machine_of s'' = machine_of s'"
  shows "refines_by only_removals s s''"
  unfolding refines_by_cong [OF refl assms(3)]
  by (rule refines_by_mono [OF unregister_acts [OF assms(1,2)]]) (auto simp: only_removals_def)

lemma rm_v1_acts:
  assumes "v1_cleanup_override s = Inr s'" and "reg_inv s"
  shows "refines_by only_removals s s'"
proof -
  from assms(1) obtain r s1 where u: "unregister_syscall (v1_listHead s) s = Inr (r, s1)"
    and rest: "(if v1_listHead s1 \<noteq> 0 then v1_delete_vector s1 else Inr s1) = Inr s'"
    by (auto simp: v1_cleanup_override_def bindE_eq_Inr)
  have "machine_of s' = machine_of s1"
    using rest by (auto simp: v1_delete_vector_def bindE_eq_Inr split: if_splits dest: free_list_machine)
  with u assms(2) show ?thesis by (rule unregister_removes)
qed

lemma rm_v2_acts:
  assumes "v2_cleanup_override s = Inr s'" and "reg_inv s"
  shows "refines_by only_removals s s'"
proof -
  from assms(1) obtain r s1 where u: "unregister_syscall (v2_listHead s) s = Inr (r, s1)"
    and rest: "(if v2_listHead s1 \<noteq> 0 then v2_delete_vector s1 else Inr s1) = Inr s'"
    by (auto simp: v2_cleanup_override_def bindE_eq_Inr)
  have "machine_of s' = machine_of s1"
    using rest by (auto simp: v2_delete_vector_def bindE_eq_Inr split: if_splits dest: free_list_machine)
  with u assms(2) show ?thesis by (rule unregister_removes)
qed

lemma rm_dyn_acts:
  assumes "dyn_cleanup_loop js s = Inr s'" and "sys_inv s"
  shows "refines_by only_removals s s'"
  using assms
proof (induction js arbitrary: s)
  case Nil
  then show ?case by (intro refines_by_same) (simp_all add: only_removals_def)
next
  case (Cons j js)
  have "j < length (list_heads s)" using Cons.prems(1) by (simp split: if_splits)
  with Cons.prems(1) obtain r s1 s2 where u: "unregister_syscall (list_heads s ! j) s = Inr (r, s1)"
    and d: "(if list_heads s1 ! j \<noteq> 0 then dyn_delete_vector (list_heads s1 ! j) s1 else Inr s1) = Inr s2"
    and rest: "dyn_cleanup_loop js s2 = Inr s'" by (auto simp: bindE_eq_Inr)
  have "dyn_cleanup_loop [j] s = Inr s2" using \<open>j < length (list_heads s)\<close> u d by simp
  from sys_inv_cleanup_loop [OF this Cons.prems(2)] have s2: "sys_inv s2" .
  have "machine_of s2 = machine_of s1"
    using d by (auto simp: dyn_delete_vector_def split: if_splits dest: free_list_machine)
  moreover have "reg_inv s" using Cons.prems(2) by (simp add: sys_inv_def)
  ultimately have "refines_by only_removals s s2" using u by (intro unregister_removes)
  from only_removals_trans [OF this Cons.IH [OF rest s2]] show ?case .
qed

section \<open>The system\<close>

text \<open>The actions of one call never mix.\<close>

lemma device_call_shape:
  assumes "device_trace u req p e ls"
  shows "call_shape ls"
proof -
  have "set_trace e ls \<Longrightarrow> call_shape ls" by (induction e ls rule: set_trace.induct) (simp_all add: call_shape_def)
  moreover have "remove_trace e ls \<Longrightarrow> call_shape ls"
    by (induction e ls rule: remove_trace.induct) (simp_all add: call_shape_def)
  moreover have made: "made_trace bm ks \<Longrightarrow> \<forall>l \<in> set ks. \<not> is_Remove l \<and> \<not> is_Switch l" for bm ks
    by (induction bm ks rule: made_trace.induct) simp_all
  have "create_trace bm ls \<Longrightarrow> call_shape ls" for bm
    by (induction bm ls rule: create_trace.induct) (auto simp: call_shape_def dest!: made)
  ultimately show ?thesis using assms by (auto simp: device_trace_def call_shape_def split: if_splits)
qed

lemma clone_call_shape: "clone_trace flags child ls \<Longrightarrow> call_shape ls"
  by (auto simp: clone_trace_def call_shape_def split: if_splits)

lemma call_shape_same: "machine_of s' = machine_of s \<Longrightarrow> refines_by call_shape s s'"
  by (rule refines_by_same) (simp_all add: call_shape_def)

lemma removals_shape: "refines_by only_removals s s' \<Longrightarrow> refines_by call_shape s s'"
  by (erule refines_by_mono) (simp add: only_removals_def call_shape_def)

lemma load_shape: "refines_by (\<lambda>ls. ls = [] \<or> (\<exists>e. ls = [Enter e])) s s' \<Longrightarrow> refines_by call_shape s s'"
  by (erule refines_by_mono) (auto simp: call_shape_def)

lemma sys_step_acts:
  assumes "sys_step km s s'" and km: "allocator_ok km" and inv: "sys_inv s"
  shows "refines_by call_shape s s'"
proof -
  have ri: "reg_inv s" and start: "dyn_listHead s = 0" using inv by (simp_all add: sys_inv_def)
  from assms(1) show ?thesis
  proof cases
    case load_v1
    then show ?thesis by (intro load_shape load_v1_acts [OF km ri])
  next
    case load_v2
    then show ?thesis by (intro load_shape load_v2_acts [OF km ri])
  next
    case load_dyn
    then show ?thesis by (intro call_shape_same) (auto simp: dyn_init_override_def)
  next
    case rm_v1
    then show ?thesis by (intro removals_shape rm_v1_acts [OF _ ri])
  next
    case rm_v2
    then show ?thesis by (intro removals_shape rm_v2_acts [OF _ ri])
  next
    case rm_dyn
    then obtain s1 where s1: "dyn_cleanup_loop [0..<dyn_i s] s = Inr s1" "machine_of s' = machine_of s1"
      by (auto simp: dyn_cleanup_override_def bindE_eq_Inr)
    from rm_dyn_acts [OF s1(1) inv] s1(2) show ?thesis by (intro removals_shape) (simp add: refines_by_def)
  next
    case (ioctl u req p err)
    from custom_ioctl_acts [OF ioctl(2) km ri start] show ?thesis
      by (rule refines_by_mono) (rule device_call_shape)
  next
    case (clone2 child flags st ptid tls ctid vid err)
    from sys_clone2_acts [OF reg_inv_ok [OF ri] clone2(2,3)] show ?thesis
      by (rule refines_by_mono) (rule clone_call_shape)
  next
    case (switch p)
    then have "acts [Switch p] (machine_of s) = Some (machine_of s')" by (auto simp: machine_of_def)
    then show ?thesis by (rule refines_byI) (simp add: call_shape_def)
  next
    case (load_ioctl ret r)
    then show ?thesis by (intro call_shape_same) (auto simp: init_ioctl_module_def machine_of_def split: if_splits)
  next
    case load_clone2
    then show ?thesis by (intro call_shape_same) (auto simp: init_sys_clone2_def split: if_splits)
  qed (auto intro!: call_shape_same simp: exit_ioctl_module_def exit_sys_clone2_def)
qed

text \<open>The system is a refinement of the machine, for every allocator that keeps its promise.\<close>

definition checked_step :: "allocator \<Rightarrow> syscall_state \<Rightarrow> syscall_state \<Rightarrow> bool" where
  "checked_step km s s' \<longleftrightarrow> allocator_ok km \<and> sys_step km s s'"

interpretation modules: vector_system "checked_step km" sys_inv machine_of for km
proof
  show "sys_inv s \<Longrightarrow> checked_step km s s' \<Longrightarrow> sys_inv s'" for s s'
    by (auto simp: checked_step_def intro: sys_inv_step)
  show "sys_inv s \<Longrightarrow> checked_step km s s' \<Longrightarrow>
      \<exists>ls. call_shape ls \<and> acts ls (machine_of s) = Some (machine_of s')" for s s'
    using sys_step_acts [of km s s'] by (simp add: checked_step_def refines_by_def)
qed

end
