(* ===== verification/Interleaving.thy ===== *)
theory Interleaving
  imports Refinement
begin

text \<open>
  \<open>sys_clone2\<close> takes neither mutex of the device for long: it counts its reference under
  \<open>list_lock\<close> and then calls \<open>_do_fork\<close>, which comes to the lines of \<open>copy_process\<close> later. Other
  processes run in between. Here the call is two steps, with any steps of the system by others
  between them; the system so refined is again a refinement of the machine of \<open>Vector_Machine\<close>.
\<close>

section \<open>The call in two parts\<close>

text \<open>
  Up to \<open>_do_fork\<close>: the address that is passed on, or none when the call has failed with -1. The
  second part is \<open>copy_vector_info\<close>.
\<close>

definition clone2_enter ::
  "ulong \<Rightarrow> ulong \<Rightarrow> 'a clone_state_scheme \<Rightarrow> (addr option \<times> 'a clone_state_scheme) cres" where
  "clone2_enter flags vid s =
     (if flags AND CLONE_SYSCALLS \<noteq> 0 then
        bindE (increment_ref_count_from_address (current_vector s) s) (\<lambda>(ret, s).
        Inr (if sint ret < 0 then None else Some 0, s))
      else
        bindE (get_vector_address_from_id (ucast vid) s) (\<lambda>(addr, s).
        Inr (Some (if addr = 0 then - 1 else addr), s)))"

lemma sys_clone2_parts:
  "sys_clone2 do_fork flags stack ptid tls ctid vid s =
     bindE (clone2_enter flags vid s) (\<lambda>(addr, s). case addr of
       None \<Rightarrow> Inr (- 1, s)
     | Some a \<Rightarrow> do_fork flags stack 0 ptid ctid 0 a s)"
  by (auto simp: sys_clone2_def clone2_enter_def bindE_def Let_def split: sum.splits prod.splits)

lemma clone2_enter_cases:
  assumes ok: "reg_ok s" and e: "clone2_enter flags vid s = Inr (a, s')"
  shows "s' = s \<or> (\<exists>i < length (vec_list s). s' = take_ref i s)"
proof (cases "flags AND CLONE_SYSCALLS = 0")
  case True
  with e show ?thesis
    unfolding clone2_enter_def get_vector_address_from_id_spec [OF ok]
    by (cases "bitmap_index (ucast vid) s") (auto dest: index_bounds(3))
next
  case False
  with e show ?thesis
    unfolding clone2_enter_def increment_ref_count_from_address_spec [OF ok]
    by (cases "addr_index (current_vector s) s") (auto dest: index_bounds(2))
qed

lemma clone2_enter_acts:
  fixes s s' :: syscall_state
  assumes inv: "sys_inv s" and e: "clone2_enter flags vid s = Inr (a, s')"
  shows "refines_by call_shape s s'" and "sys_inv s'" and "current s' = current s"
    and "vector_info s' = vector_info s"
proof -
  have "reg_ok s" using inv by (simp add: sys_inv_def reg_inv_def)
  from clone2_enter_cases [OF this e] have "refines_by call_shape s s' \<and> sys_inv s'
    \<and> current s' = current s \<and> vector_info s' = vector_info s"
  proof (elim disjE exE conjE)
    assume "s' = s"
    with inv show ?thesis by (simp add: call_shape_same)
  next
    fix i assume i: "i < length (vec_list s)" "s' = take_ref i s"
    have "acts [Take i] (machine_of s) = Some (machine_of s')"
      by (simp only: acts_Cons [OF act_ref(1) [OF i(1)]] acts.simps(1) i(2))
    then have "refines_by call_shape s s'" by (rule refines_byI) (simp add: call_shape_def)
    with i sys_inv_take_ref [OF inv] show ?thesis by simp
  qed
  then show "refines_by call_shape s s'" and "sys_inv s'" and "current s' = current s"
    and "vector_info s' = vector_info s" by simp_all
qed

lemma copy_vector_shape:
  fixes s s' :: syscall_state
  assumes inv: "sys_inv s" and fresh: "vector_info s child = None"
    and c: "copy_vector_info flags child s = Inr s'"
  shows "refines_by call_shape s s'" and "sys_inv s'" and "current s' = current s"
    and "vector_info s' = (vector_info s)(child \<mapsto> if flags AND CLONE_SYSCALLS = 0 then 0 else current_vector s)"
proof -
  have ok: "reg_ok s" using inv by (simp add: sys_inv_def reg_inv_def)
  note acts = copy_vector_acts [OF ok fresh c]
  have "\<exists>ls. call_shape ls \<and> acts ls (machine_of s) = Some (machine_of s')"
  proof (cases "flags AND CLONE_SYSCALLS = 0")
    case True
    then show ?thesis using acts(1) by (intro exI [of _ "[Born child]"]) (simp add: call_shape_def del: act.simps)
  next
    case False
    show ?thesis
    proof (cases "addr_index (current_vector s) s")
      case None
      with False show ?thesis
        using acts(2) by (intro exI [of _ "[Inherit child]"]) (simp add: call_shape_def del: act.simps)
    next
      case (Some i)
      with False show ?thesis
        using acts(3) by (intro exI [of _ "[Take i, Inherit child]"]) (simp add: call_shape_def)
    qed
  qed
  then show "refines_by call_shape s s'" by (simp add: refines_by_def)
  have vi: "sys_inv (t\<lparr>vector_info := w\<rparr>)" if "sys_inv t" for t w
    using that by (simp add: sys_inv_def reg_inv_def reg_ok_def)
  from c inv show "sys_inv s'" "current s' = current s"
    "vector_info s' = (vector_info s)(child \<mapsto> if flags AND CLONE_SYSCALLS = 0 then 0 else current_vector s)"
    unfolding copy_vector_info_spec [OF ok] Let_def
    by (auto simp: vi sys_inv_take_ref split: if_splits option.splits)
qed

section \<open>The system with calls under way\<close>

text \<open>
  Beside the state of the modules, the clones under way: for the process that called, its flags and
  the vector it ran under when it entered.
\<close>

record running_system =
  mods :: syscall_state
  forking :: "pid \<rightharpoonup> ulong \<times> addr"

inductive fine_step :: "allocator \<Rightarrow> running_system \<Rightarrow> running_system \<Rightarrow> bool" for km where
  call: "forking f (current (mods f)) = None \<Longrightarrow> sys_step km (mods f) s' \<Longrightarrow>
    fine_step km f (f\<lparr>mods := s'\<rparr>)"
| schedule: "vector_info (mods f) p \<noteq> None \<Longrightarrow> fine_step km f (f\<lparr>mods := (mods f)\<lparr>current := p\<rparr>\<rparr>)"
| enter: "sysptr (mods f) \<Longrightarrow> forking f (current (mods f)) = None \<Longrightarrow>
    clone2_enter flags vid (mods f) = Inr (Some a, s') \<Longrightarrow>
    fine_step km f (f\<lparr>mods := s', forking := (forking f)(current (mods f) \<mapsto> (flags, current_vector (mods f)))\<rparr>)"
| refuse: "sysptr (mods f) \<Longrightarrow> forking f (current (mods f)) = None \<Longrightarrow>
    clone2_enter flags vid (mods f) = Inr (None, s') \<Longrightarrow> fine_step km f (f\<lparr>mods := s'\<rparr>)"
| finish: "forking f (current (mods f)) = Some (flags, v) \<Longrightarrow> vector_info (mods f) child = None \<Longrightarrow>
    copy_vector_info flags child (mods f) = Inr s' \<Longrightarrow>
    fine_step km f (f\<lparr>mods := s', forking := (forking f)(current (mods f) := None)\<rparr>)"

definition started :: running_system where
  "started = \<lparr>mods = boot, forking = Map.empty\<rparr>"

definition checked_fine :: "allocator \<Rightarrow> running_system \<Rightarrow> running_system \<Rightarrow> bool" where
  "checked_fine km f f' \<longleftrightarrow> allocator_ok km \<and> fine_step km f f'"

text \<open>The invariant: that of the modules; the running process exists; who forks has kept its vector.\<close>

definition fine_inv :: "running_system \<Rightarrow> bool" where
  "fine_inv f \<longleftrightarrow> sys_inv (mods f) \<and> vector_info (mods f) (current (mods f)) \<noteq> None
     \<and> (\<forall>p flags v. forking f p = Some (flags, v) \<longrightarrow> vector_info (mods f) p = Some v)"

lemma fine_inv_started: "fine_inv started"
  by (simp add: fine_inv_def started_def sys_inv_boot) (simp add: boot_def)

lemma fine_step_acts:
  assumes "fine_step km f f'" and km: "allocator_ok km" and s: "sys_inv (mods f)"
  shows "refines_by call_shape (mods f) (mods f') \<and> sys_inv (mods f')"
  using assms(1)
proof cases
  case (call s')
  with sys_step_acts [OF call(3) km s] sys_inv_step [OF call(3) km s] show ?thesis by simp
next
  case (schedule p)
  then have "sys_step km (mods f) (mods f')" using sys_step.switch by simp
  from sys_step_acts [OF this km s] sys_inv_step [OF this km s] show ?thesis by simp
next
  case (enter flags vid a s')
  with clone2_enter_acts [OF s enter(4)] show ?thesis by simp
next
  case (refuse flags vid s')
  with clone2_enter_acts [OF s refuse(4)] show ?thesis by simp
next
  case (finish flags v child s')
  with copy_vector_shape [OF s finish(3,4)] show ?thesis by simp
qed

text \<open>A process that is not running keeps its vector; so does one that forks.\<close>

lemma forking_kept:
  assumes step: "fine_step km f f'" and km: "allocator_ok km" and inv: "fine_inv f"
    and p: "forking f' p = Some (flags, v)"
  shows "vector_info (mods f') p = Some v"
proof -
  have s: "sys_inv (mods f)" and alive: "vector_info (mods f) (current (mods f)) \<noteq> None"
    and old: "forking f q = Some (g, w) \<Longrightarrow> vector_info (mods f) q = Some w" for q g w
    using inv by (auto simp: fine_inv_def)
  from fine_step_acts [OF step km s] obtain ls where
    ls: "call_shape ls" "acts ls (machine_of (mods f)) = Some (machine_of (mods f'))"
    by (auto simp: refines_by_def)
  have others: "vector_info (mods f') q = Some w"
    if "q \<noteq> current (mods f)" "vector_info (mods f) q = Some w" for q w
    using call_shape_others [OF ls] that by (simp add: machine_vec_list)
  from step show ?thesis
  proof cases
    case (call s')
    with p have "p \<noteq> current (mods f)" "forking f p = Some (flags, v)" by auto
    from others [OF this(1) old [OF this(2)]] show ?thesis .
  next
    case (schedule q)
    with p old show ?thesis by simp
  next
    case (enter g vid a s')
    note e = clone2_enter_acts [OF s enter(4)]
    from p enter(1) e(4) alive old show ?thesis
      by (auto simp: current_vector_def split: if_splits)
  next
    case (refuse g vid s')
    with p old clone2_enter_acts [OF s refuse(4)] show ?thesis by simp
  next
    case (finish g w child s')
    with p old [of p] copy_vector_shape(4) [OF s finish(3,4)] show ?thesis by (auto split: if_splits)
  qed
qed

lemma fine_inv_step:
  assumes "fine_step km f f'" and "allocator_ok km" and "fine_inv f"
  shows "fine_inv f'"
proof -
  have s: "sys_inv (mods f)" and alive: "vector_info (mods f) (current (mods f)) \<noteq> None"
    using assms(3) by (simp_all add: fine_inv_def)
  from fine_step_acts [OF assms(1,2) s] obtain ls where
    "acts ls (machine_of (mods f)) = Some (machine_of (mods f'))" "sys_inv (mods f')"
    by (auto simp: refines_by_def)
  moreover from acts_alive [OF this(1)] alive have "vector_info (mods f') (current (mods f')) \<noteq> None"
    by (simp add: machine_vec_list)
  ultimately show ?thesis using forking_kept [OF assms] by (simp add: fine_inv_def)
qed

interpretation interleaved: vector_system "checked_fine km" fine_inv "\<lambda>f. machine_of (mods f)" for km
proof
  show "fine_inv f \<Longrightarrow> checked_fine km f f' \<Longrightarrow> fine_inv f'" for f f'
    by (auto simp: checked_fine_def intro: fine_inv_step)
  show "fine_inv f \<Longrightarrow> checked_fine km f f' \<Longrightarrow>
      \<exists>ls. call_shape ls \<and> acts ls (machine_of (mods f)) = Some (machine_of (mods f'))" for f f'
    using fine_step_acts [of km f f'] by (auto simp: checked_fine_def refines_by_def fine_inv_def)
qed

end
