(* ===== verification/Refinement_Properties.thy ===== *)
theory Refinement_Properties
  imports Interleaving System_Properties
begin

text \<open>
  The modules against the machine of \<open>Vector_Machine\<close>: what each command of the device may do, what
  every run of the system amounts to with clones under way, and what no run ever does.
\<close>

section \<open>One command\<close>

text \<open>
  C4. Every request that returns, whatever the caller passed, has performed actions of the machine that
  its command allows, and its result tells which: \<open>IOCTL_SET\<close> is 0 exactly when a reference was taken and
  the vector adopted, \<open>IOCTL_REMOVE\<close> is not negative exactly when a reference was given back and the
  process has left its vector, a creation adopts the vector it reuses or enters; the other requests
  change neither registry nor processes.
\<close>

theorem device_refines:
  assumes "allocator_ok km" and "reg_inv s" and "dyn_listHead s = 0"
    and "custom_ioctl km u req p s = Inr (e, s')"
  shows "\<exists>ls. device_trace u req p e ls \<and> acts ls (machine_of s) = Some (machine_of s')"
  using custom_ioctl_acts [OF assms(4,1-3)] by (simp add: refines_by_def)

theorem device_refines_witness:
  "\<exists>s1 ls. custom_ioctl km40 caller IOCTL_SET 1000 (one_vector 0) = Inr (0, s1)
    \<and> set_trace 0 ls \<and> acts ls (machine_of (one_vector 0)) = Some (machine_of s1)"
proof -
  have "card (dom (heap (one_vector 0))) + 2 \<le> 40" by (simp add: one_vector_heap)
  from ioctl_set_taken [OF km40_ok one_vector_ready one_vector_texts this caller_name one_vector_index(1), of 32]
  obtain s1 where s1: "custom_ioctl km40 caller IOCTL_SET 1000 (one_vector 0) = Inr (0, s1)" by auto
  from device_refines [OF km40_ok(1) one_vector_inv(1) one_vector_fields(4) this] obtain ls where
    "device_trace caller IOCTL_SET 1000 0 ls" "acts ls (machine_of (one_vector 0)) = Some (machine_of s1)" by blast
  with s1 show ?thesis unfolding device_trace_def by auto
qed

section \<open>Every run\<close>

text \<open>A run in whole calls is one of these runs.\<close>

lemma whole_calls_run: "reachable km s \<Longrightarrow> (fine_step km)\<^sup>*\<^sup>* started \<lparr>mods = s, forking = Map.empty\<rparr>"
proof (induction rule: reachable.induct)
  case start
  show ?case by (simp add: started_def)
next
  case (step s s')
  have "fine_step km \<lparr>mods = s, forking = Map.empty\<rparr> \<lparr>mods = s', forking = Map.empty\<rparr>"
    using fine_step.call [of "\<lparr>mods = s, forking = Map.empty\<rparr>" km s'] step.hyps(2) by simp
  with step.IH show ?case by (rule rtranclp.rtrancl_into_rtrancl)
qed

text \<open>
  One of them: process 1 enters the call, process 2 unloads the device, process 1 is scheduled again.
\<close>

definition clone_interrupted :: running_system where
  "clone_interrupted =
     \<lparr>mods = (exit_ioctl_module (two_tasks\<lparr>current := 2\<rparr>))\<lparr>current := 1\<rparr>, forking = [1 \<mapsto> (0, 0)]\<rparr>"

lemma clone_interrupted_state:
  "forking clone_interrupted = [1 \<mapsto> (0, 0)]" "current (mods clone_interrupted) = 1"
  "vector_info (mods clone_interrupted) = [1 \<mapsto> 0, 2 \<mapsto> 0]" "\<not> chrdev (mods clone_interrupted)"
  by (simp_all add: clone_interrupted_def two_tasks_def boot_def exit_ioctl_module_def)

lemma clone_interrupted_run: "(fine_step km40)\<^sup>*\<^sup>* started clone_interrupted"
proof -
  let ?P = "[1 \<mapsto> (0, 0)]" and ?e = "exit_ioctl_module (two_tasks\<lparr>current := 2\<rparr>)"
  have f: "sysptr two_tasks" "current two_tasks = 1" "vector_info two_tasks = [1 \<mapsto> 0, 2 \<mapsto> 0]"
    by (simp_all add: two_tasks_def boot_def)
  have "clone2_enter 0 0 two_tasks = Inr (Some (- 1), two_tasks)"
    using get_vector_address_from_id_spec [of two_tasks 0] two_tasks_facts(1,3)
    by (simp add: clone2_enter_def reg_inv_def bitmap_index_def)
  with f fine_step.enter [of "\<lparr>mods = two_tasks, forking = Map.empty\<rparr>" 0 0 "- 1" two_tasks km40]
  have 1: "fine_step km40 \<lparr>mods = two_tasks, forking = Map.empty\<rparr> \<lparr>mods = two_tasks, forking = ?P\<rparr>"
    by (simp add: current_vector_def)
  have 2: "fine_step km40 \<lparr>mods = two_tasks, forking = ?P\<rparr> \<lparr>mods = two_tasks\<lparr>current := 2\<rparr>, forking = ?P\<rparr>"
    using f fine_step.schedule [of "\<lparr>mods = two_tasks, forking = ?P\<rparr>" 2 km40] by simp
  have 3: "fine_step km40 \<lparr>mods = two_tasks\<lparr>current := 2\<rparr>, forking = ?P\<rparr> \<lparr>mods = ?e, forking = ?P\<rparr>"
    using fine_step.call [OF _ sys_step.rm_ioctl, of "\<lparr>mods = two_tasks\<lparr>current := 2\<rparr>, forking = ?P\<rparr>" km40] by simp
  have 4: "fine_step km40 \<lparr>mods = ?e, forking = ?P\<rparr> clone_interrupted"
    using f fine_step.schedule [of "\<lparr>mods = ?e, forking = ?P\<rparr>" 1 km40]
    by (simp add: exit_ioctl_module_def clone_interrupted_def)
  note steps = rtranclp.rtrancl_into_rtrancl
  show ?thesis
    by (rule steps [OF steps [OF steps [OF steps [OF whole_calls_run [OF two_tasks_reachable] 1] 2] 3] 4])
qed

text \<open>
  C5. From boot on, with any number of clones between the two parts of \<open>sys_clone2\<close> and others running
  meanwhile, every step is a row of actions of the machine that does not mix removals with anything else,
  the registry stays well formed, and the whole run is one run of the machine.
\<close>

theorem interleaved_system_refines:
  assumes "allocator_ok km" and "(fine_step km)\<^sup>*\<^sup>* started f" and "fine_step km f f'"
  shows "(\<exists>ls. call_shape ls \<and> acts ls (machine_of (mods f)) = Some (machine_of (mods f')))
    \<and> (\<exists>ls. acts ls (machine_of boot) = Some (machine_of (mods f'))) \<and> reg_inv (mods f')"
proof -
  have eq: "checked_fine km = fine_step km" by (simp add: checked_fine_def assms(1) fun_eq_iff)
  note run = assms(2,3) [folded eq]
  note inv = interleaved.good_steps [OF run(1) fine_inv_started]
  have "(checked_fine km)\<^sup>*\<^sup>* started f'" using run by (rule rtranclp.rtrancl_into_rtrancl)
  from interleaved.refines_steps [OF this fine_inv_started] interleaved.refines [OF inv run(2)]
    interleaved.good_step [OF inv run(2)] show ?thesis
    by (simp add: started_def fine_inv_def sys_inv_def)
qed

theorem interleaved_system_refines_witness:
  "\<exists>s' ls. copy_vector_info 0 3 (mods clone_interrupted) = Inr s'
    \<and> acts ls (machine_of boot) = Some (machine_of s') \<and> vector_info s' = [1 \<mapsto> 0, 2 \<mapsto> 0, 3 \<mapsto> 0]"
proof -
  let ?f = clone_interrupted
  obtain s' where c: "copy_vector_info 0 3 (mods ?f) = Inr s'" "vector_info s' = [1 \<mapsto> 0, 2 \<mapsto> 0, 3 \<mapsto> 0]"
    by (auto simp: copy_vector_info_def clone_interrupted_state)
  have "fine_step km40 ?f (?f\<lparr>mods := s', forking := (forking ?f)(1 := None)\<rparr>)"
    using fine_step.finish [of ?f 0 0 3 s' km40] c(1) by (simp add: clone_interrupted_state)
  from interleaved_system_refines [OF km40_ok(1) clone_interrupted_run this] c show ?thesis by auto
qed

text \<open>
  C10. No step takes a vector with a counted reference off the registry: after it a vector with the same
  name, address, bitmap and module is registered. (Its reference may have been given back by then.)
\<close>

theorem counted_vectors_stay:
  assumes "allocator_ok km" and "fine_inv f" and "fine_step km f f'"
    and "v \<in> set (vec_list (mods f))" and "0 < sint (refcount v)"
  shows "\<exists>w \<in> set (vec_list (mods f')). c_string (vector_name w) = c_string (vector_name v)
    \<and> overriddenSyscalls_address w = overriddenSyscalls_address v
    \<and> overfuncs_bitmap w = overfuncs_bitmap v \<and> vector_module w = vector_module v"
proof -
  have "checked_fine km f f'" using assms(1,3) by (simp add: checked_fine_def)
  from interleaved.counted_stays [OF assms(2) this, of "entry_of v"] assms(4,5) show ?thesis
    by (auto simp: machine_vec_list entry_of_def same_vector_def)
qed

theorem counted_vectors_stay_witness:
  "\<exists>s'. v1_cleanup_override (one_vector 1) = Inr s' \<and> (\<exists>w \<in> set (vec_list s'). c_string (vector_name w) = ''Vector55'')"
proof -
  let ?f = "\<lparr>mods = one_vector 1, forking = Map.empty\<rparr>"
  have l: "sc_list (heap (one_vector 1)) (v1_listHead (one_vector 1)) [(32, NR_read, OverriddenRead)]"
    "addr_index (v1_listHead (one_vector 1)) (one_vector 1) = Some 0"
    using one_vector_list [of 1] one_vector_index(2) [of 1] by simp_all
  from sample1.cleanup_referenced [OF one_vector_inv(1) l] obtain s' where
    s': "v1_cleanup_override (one_vector 1) = Inr s'" by auto
  then have step: "fine_step km40 ?f (?f\<lparr>mods := s'\<rparr>)"
    by (intro fine_step.call sys_step.rm_v1) simp_all
  have inv: "fine_inv ?f" using one_vector_inv(1) [of 1] by (simp add: fine_inv_def sys_inv_def)
  from counted_vectors_stay [OF km40_ok(1) inv step, of "stored_vector 16 ''Vector55'' 32 1 Mod_vector1 55"]
  show ?thesis using s' by (auto simp: stored55)
qed

text \<open>
  C11. A step changes the vector of no process but the running one: whoever else there is keeps the
  address it runs under, whatever is loaded, removed, requested or cloned meanwhile.
\<close>

theorem other_processes_keep_vector:
  assumes "allocator_ok km" and "fine_inv f" and "fine_step km f f'"
    and "p \<noteq> current (mods f)" and "vector_info (mods f) p = Some a"
  shows "vector_info (mods f') p = Some a"
proof -
  have "checked_fine km f f'" using assms(1,3) by (simp add: checked_fine_def)
  from interleaved.others_kept [OF assms(2) this] assms(4,5) show ?thesis by (simp add: machine_vec_list)
qed

theorem other_processes_keep_vector_witness:
  "\<exists>s1. custom_ioctl km40 caller IOCTL_SET 1000 ((one_vector 0)\<lparr>vector_info := [1 \<mapsto> 0, 2 \<mapsto> 7]\<rparr>) = Inr (0, s1)
    \<and> vector_info s1 2 = Some 7"
proof -
  let ?s = "(one_vector 0)\<lparr>vector_info := [1 \<mapsto> 0, 2 \<mapsto> 7]\<rparr>"
  let ?f = "\<lparr>mods = ?s, forking = Map.empty\<rparr>"
  have r: "ioctl_ready ?s" "texts_fit ?s" "plain_names ?s" "card (dom (heap ?s)) + 2 \<le> 40"
    "name_index ''Vector55'' ?s = Some 0" "overriddenSyscalls_address (vec_list ?s ! 0) = 32"
    using one_vector_ready [of 0] one_vector_texts [of 0] one_vector_index(1) [of 0]
    by (simp_all add: ioctl_ready_def reg_inv_def reg_ok_def texts_fit_def plain_names_def registry_text_def
        one_vector_heap name_index_def)
  from ioctl_set_taken [OF km40_ok r(1-4) caller_name r(5,6)] obtain s1 where
    s1: "custom_ioctl km40 caller IOCTL_SET 1000 ?s = Inr (0, s1)" by auto
  then have step: "fine_step km40 ?f (?f\<lparr>mods := s1\<rparr>)" by (intro fine_step.call sys_step.ioctl) simp_all
  have inv: "fine_inv ?f" using r(1) by (simp add: fine_inv_def sys_inv_def ioctl_ready_def)
  from other_processes_keep_vector [OF km40_ok(1) inv step, of 2 7] s1 show ?thesis by simp
qed

section \<open>A clone under way\<close>



end
