(* ===== verification/Spec2Isabelle.thy ===== *)
theory Spec2Isabelle
  imports System_Properties Registry_Properties Vector_Properties Ioctl_Properties Syscall_Properties
    Program_Properties Refinement_Properties
begin

text \<open>
  \<^bold>\<open>Per-process system call vectors.\<close> Linux modules that let a process run with its own
  flavours of some system calls. A \<open>vector\<close> is a linked list of overridden system calls; a registry
  keeps the vectors with a name, an id, a bitmap of overrides, a reference count and the module that
  owns the list; a character device lets processes take, leave and look at vectors; \<open>sys_clone2\<close>
  hands a vector to a child.

  \<^bold>\<open>The parts and their theories.\<close>

  \<^item> \<open>Prelude\<close>: C results with faults (\<open>cres\<close>, \<open>bindE\<close>), \<open>int\<close> and \<open>long\<close> as words, character
    arrays with \<open>strlen\<close>, \<open>strcmp\<close>, \<open>strncmp\<close>, \<open>strstr\<close>, \<open>sprintf\<close>, the kernel's list scan.
  \<^item> \<open>Kernel\<close>: the structures of \<open>vector_struct.h\<close>, the kernel heap with \<open>kmalloc\<close> and \<open>kfree\<close>, the
    log of \<open>try_module_get\<close> and \<open>module_put\<close>.
  \<^item> \<open>Ref_Counting\<close>: locales \<open>ref_acquire\<close> and \<open>ref_counted\<close>, the contract of lookups that take a
    reference and releases that give it back.
  \<^item> \<open>Vec_Registry\<close>: \<open>vec_load_unload.c\<close>, one definition per function, with the global
    \<open>vec_list_head\<close> as \<open>vec_list\<close> and the mutex \<open>list_lock\<close>; the contract is interpreted for
    names, addresses and bitmaps. \<open>Pin_Accounting\<close>: pins of a module against counted references.
    \<open>Lockless_Show\<close>: the loop of \<open>show_all_vectors\<close>, which takes no lock, step by step with others
    registering and removing vectors in between.
  \<^item> \<open>Override_List\<close>: \<open>add_syscall_to_vector\<close> and \<open>delete_vector\<close>, copied in three modules, over a list
    linked in the kernel heap; locale \<open>syscall_list_owner\<close>. \<open>Vector_Modules\<close>: \<open>vector1_module.c\<close> and
    \<open>vector2_module.c\<close>, locale \<open>sample_vector\<close> with both interpreted.
  \<^item> \<open>Tasks\<close>: \<open>syscall_vector_info\<close> of every process (\<open>sched.cpy\<close>). \<open>Dynamic_Vector\<close>:
    \<open>dynamic_vector.c\<close>. \<open>Ioctl\<close>: \<open>ioctl_module.c\<close>, the handler \<open>custom_ioctl\<close> with one definition
    per case of its switch. \<open>Clone2\<close>: \<open>sys_clone2.c\<close> and the lines of \<open>copy_process\<close> in \<open>fork.cpy\<close>.
  \<^item> \<open>Overridden_Syscalls\<close>: \<open>overridden_syscalls.c\<close>, one copy of it (the Makefile links one into each
    of \<open>vector1\<close> and \<open>vector2\<close>, each with its own \<open>syscallTablePtr\<close>).
  \<^item> \<open>Vec_Copy\<close>: the earlier registry \<open>vec_copy.c\<close>.
  \<^item> The programs of \<open>demo\<close>. \<open>Display_Client\<close>: \<open>display_vectors\<close> of \<open>user_ioctl1.c\<close>.
    \<open>Device_Answers\<close>: whole requests as equations, and the results each can have. \<open>User_Process\<close>: a process
    with its memory and output, its library calls, and \<open>ioctl\<close> as a run of \<open>custom_ioctl\<close> on the
    kernel below it. \<open>Demo_Programs\<close>: \<open>user_ioctl1.c\<close> and \<open>user_clone.c\<close>; \<open>Demo_Create\<close>:
    \<open>user_ioctl2.c\<close> and \<open>user_ioctl3.c\<close>; \<open>Demo_Files\<close>: \<open>temp/user_write.c\<close> and \<open>temp/user_code.c\<close>,
    put together from the steps of \<open>File_Calls\<close>; \<open>Test_Programs\<close>: \<open>test_vector1.c\<close> and
    \<open>test_vector2.c\<close>; \<open>Test_Ioctl\<close>: \<open>test_ioctl.c\<close>, which sends every request. Each \<open>main\<close> is one function.
  \<^item> \<open>System\<close>: the modules together, as an inductive step relation over whole calls, each of which runs
    under its mutex; \<open>reachable\<close> states; \<open>Sample_States\<close>: the concrete states of the instances.
  \<^item> \<open>Vector_Machine\<close>: what all of it amounts to, a machine of ten actions on the registered vectors and
    on who runs under which, and the locale \<open>vector_system\<close> of systems that refine it. \<open>Refinement\<close>: the
    actions of every command, clone, loading and removal, with which the whole calls interpret the locale.
    \<open>Interleaving\<close>: \<open>sys_clone2\<close> in two steps, with any calls of other processes in between, which
    interprets it again.

  \<^bold>\<open>State.\<close> One record grows with the modules: \<open>kmem\<close> (heap, allocation counter, module log),
  \<open>registry\<close>, \<open>vec_modules\<close> (\<open>listHead\<close> of the two samples), \<open>tasks\<close>, \<open>dyn_state\<close>,
  \<open>ioctl_state\<close>, \<open>clone_state\<close>, \<open>syscall_state\<close>; every operation takes the scheme of the part it
  works on, so the same definition runs in every larger state.

  \<^bold>\<open>Faults and errors.\<close> What no C program may do (NULL and dangling pointers, writes past an array,
  reads past an unterminated string, locking a held mutex, a loop without end) is \<open>Inl\<close> of a fault;
  an error number is a value. The loops over linked lists are partial functions; that they end on
  NULL-terminated lists is proved, nowhere assumed, and no fuel is used.

  \<^bold>\<open>Parameters.\<close> The allocator \<open>km\<close> with \<open>allocator_ok\<close> (what \<open>kmalloc\<close> documents: NULL or unused
  memory, never an error pointer) and, where success is claimed, \<open>roomy b\<close> (it succeeds below \<open>b\<close>
  blocks); the user's memory with \<open>copy_from_user\<close> and \<open>copy_to_user\<close>; the result of
  \<open>register_chrdev\<close>; \<open>_do_fork\<close>; the originals of the system call table, \<open>/proc\<close>, open files and
  the contents of fresh memory (\<open>kernel_env\<close>); for a program \<open>malloc\<close>, with \<open>malloc_ok\<close> and
  \<open>malloc_roomy\<close> as for \<open>km\<close>, \<open>open\<close>, \<open>strerror\<close> and its process number (\<open>user_env\<close>), its file
  calls, which the patched kernel sends to its vector (\<open>file_calls\<close>, with \<open>files_apart\<close>: they leave the
  device and its memory as they are), the entry of system call 329, and the values of pointers it never sets.

  \<^bold>\<open>What is proved.\<close> \<open>Registry_Properties\<close>: the registry refines a map from names to address and
  count, references and pins move together, registration and removal on every branch, exact text and
  its overflow, printing while others change the list, the earlier registry from load to removal. \<open>Vector_Properties\<close>: lists, sample modules and vectors made from
  a bitmap, from creation to removal, with their leaks. \<open>Ioctl_Properties\<close>: safety of every
  request, each command's effect. \<open>System_Properties\<close>: the invariant of all reachable states, taking and
  leaving a vector, and a run from boot to a process under freed memory. \<open>Syscall_Properties\<close>: what the
  overridden calls pass on, refuse and add, and the references of cloned processes. \<open>Program_Properties\<close>:
  what each program prints and leaves behind, from start to end. \<open>Refinement_Properties\<close>: a request does
  to the machine what its result says, every run is one of the machine, no step takes off a vector with a
  counted reference or changes the vector of another process, and a clone under way is not disturbed. Bounds: the
  instances use an arena of 41 blocks, \<open>km40\<close>; creating a vector needs at most ten allocations and a
  command two, hence the room asked for.

  \<^bold>\<open>Not modelled.\<close> The \<open>.mod.c\<close> files are generated; \<open>vec_load_unload.bak\<close> and \<open>sys_clone2.cpy\<close> are
  superseded copies; \<open>fork.cpy\<close> and \<open>sched.cpy\<close> are kernel files beyond the lines named above. Of the
  other programs under \<open>demo\<close> and \<open>tests\<close>, \<open>default_clone.c\<close> does not compile (it jumps to a label it does
  not have), and \<open>tests/test_vector2.c\<close> sends the requests of the modelled ones. Interleavings
  inside a call are modelled for the loop of \<open>show_all_vectors\<close> (not its shared \<open>buffer\<close>) and for
  \<open>sys_clone2\<close>: \<open>show_my_vector\<close>, which takes no lock either, runs as a whole call, and so does loading
  or removing a module; that the code of \<open>sys_clone2\<close> may be removed under a call in it is left out. \<open>printk\<close> is not modelled,
  beyond its reading of the caller's name.
\<close>

end
